(* ===== verification/Nwm_Prelude.thy ===== *)
theory Nwm_Prelude
  imports Main "HOL-Library.Word"
begin

text \<open>
  Shared vocabulary of the development: the machine integer types of the firmware, the
  \<^verbatim>\<open>errno\<close> values its functions return, little-endian images of the header structs that are
  written to flash, and the part of the C library the modules call (\<^verbatim>\<open>strlen\<close>,
  \<^verbatim>\<open>snprintk\<close> with \<^verbatim>\<open>%u\<close>, \<^verbatim>\<open>%s\<close> and \<^verbatim>\<open>%02x\<close>, \<^verbatim>\<open>strtoul\<close>,
  \<^verbatim>\<open>strncpy\<close>, \<^verbatim>\<open>memcpy\<close>), with the lemmas on them that the component proofs share.
  The targets are 32-bit Cortex-M33 cores: \<^verbatim>\<open>size_t\<close> and \<^verbatim>\<open>unsigned long\<close> are 32 bits
  wide and structs are stored little-endian.
\<close>

unbundle bit_operations_syntax

type_synonym byte = "8 word"
type_synonym u16 = "16 word"
type_synonym u32 = "32 word"
type_synonym u64 = "64 word"

named_theorems codec_simps \<open>round trips of byte images\<close>
named_theorems cstr_simps \<open>lengths and contents of C strings\<close>

subsection \<open>Error numbers\<close>

abbreviation (input) ENOENT :: int where "ENOENT \<equiv> 2"
abbreviation (input) EIO :: int where "EIO \<equiv> 5"
abbreviation (input) EAGAIN :: int where "EAGAIN \<equiv> 11"
abbreviation (input) EEXIST :: int where "EEXIST \<equiv> 17"
abbreviation (input) ENODEV :: int where "ENODEV \<equiv> 19"
abbreviation (input) EINVAL :: int where "EINVAL \<equiv> 22"
abbreviation (input) ENOSPC :: int where "ENOSPC \<equiv> 28"
abbreviation (input) ENODATA :: int where "ENODATA \<equiv> 61"
abbreviation (input) ENETDOWN :: int where "ENETDOWN \<equiv> 115"
abbreviation (input) EINPROGRESS :: int where "EINPROGRESS \<equiv> 119"
abbreviation (input) EALREADY :: int where "EALREADY \<equiv> 120"
abbreviation (input) EMSGSIZE :: int where "EMSGSIZE \<equiv> 122"
abbreviation (input) ENOTCONN :: int where "ENOTCONN \<equiv> 128"

subsection \<open>Counting in 32 bits\<close>

lemma unat_of_nat_u32: "n < 2 ^ 32 \<Longrightarrow> unat (of_nat n :: u32) = n"
  by (simp add: unat_of_nat)

lemma of_nat_u32_eq_iff:
  "m < 2 ^ 32 \<Longrightarrow> n < 2 ^ 32 \<Longrightarrow> (of_nat m = (of_nat n :: u32)) = (m = n)"
  by (metis unat_of_nat_u32)

lemma unat_hdr_plus:
  "16 + n < 2 ^ 32 \<Longrightarrow> unat (16 + of_nat n :: u32) = 16 + n"
  using unat_of_nat_u32 [of "16 + n"] by simp

lemma unat_plus_of_int:
  assumes "0 \<le> b" "unat off + nat b < 2 ^ 32"
  shows "unat (off + of_int b :: u32) = unat off + nat b"
proof -
  have "off + of_int b = (of_nat (unat off + nat b) :: u32)" using assms(1) by simp
  then show ?thesis using unat_of_nat_u32 [OF assms(2)] by simp
qed

lemma concat_replicate_Suc: "concat (replicate (Suc n) xs) = concat (replicate n xs) @ xs"
  by (induction n) simp_all

lemma map_filter_append: "List.map_filter f (xs @ ys) = List.map_filter f xs @ List.map_filter f ys"
  by (induction xs) (auto simp: List.map_filter_simps split: option.splits)

lemma take_min_length: "take (min (length xs) n) xs = take n xs"
  by (simp add: min_def)

subsection \<open>Little-endian images\<close>

definition le16 :: "u16 \<Rightarrow> byte list" where
  "le16 w = [ucast w, ucast (drop_bit 8 w)]"

definition le32 :: "u32 \<Rightarrow> byte list" where
  "le32 w = [ucast w, ucast (drop_bit 8 w), ucast (drop_bit 16 w), ucast (drop_bit 24 w)]"

definition of_le16 :: "byte list \<Rightarrow> u16" where
  "of_le16 bs = ucast (bs ! 0) OR push_bit 8 (ucast (bs ! 1))"

definition of_le32 :: "byte list \<Rightarrow> u32" where
  "of_le32 bs = ucast (bs ! 0) OR push_bit 8 (ucast (bs ! 1))
     OR push_bit 16 (ucast (bs ! 2)) OR push_bit 24 (ucast (bs ! 3))"

lemma length_le16 [simp]: "length (le16 w) = 2"
  by (simp add: le16_def)

lemma length_le32 [simp]: "length (le32 w) = 4"
  by (simp add: le32_def)

lemma of_le16_le16 [simp, codec_simps]: "of_le16 (le16 w) = w"
proof (rule bit_word_eqI)
  fix n assume "n < LENGTH(16)"
  then show "bit (of_le16 (le16 w)) n \<longleftrightarrow> bit w n"
    by (auto simp: of_le16_def le16_def bit_simps not_less)
qed

lemma of_le32_le32 [simp, codec_simps]: "of_le32 (le32 w) = w"
proof (rule bit_word_eqI)
  fix n assume "n < LENGTH(32)"
  then consider "n < 8" | "8 \<le> n" "n < 16" | "16 \<le> n" "n < 24" | "24 \<le> n" "n < 32"
    by fastforce
  then show "bit (of_le32 (le32 w)) n \<longleftrightarrow> bit w n"
    by cases (auto simp: of_le32_def le32_def bit_simps not_less)
qed

lemma of_le32_append [simp]: "length bs = 4 \<Longrightarrow> of_le32 (bs @ cs) = of_le32 bs"
  by (simp add: of_le32_def nth_append)

lemma of_le16_append [simp]: "length bs = 2 \<Longrightarrow> of_le16 (bs @ cs) = of_le16 bs"
  by (simp add: of_le16_def nth_append)

lemma le32_of_le32:
  assumes "length bs = 4"
  shows "le32 (of_le32 bs) = bs"
proof -
  obtain a b c d where bs: "bs = [a, b, c, d]"
    using assms by (auto simp: numeral_eq_Suc length_Suc_conv)
  have z: "\<not> bit x (k + n)" if "8 \<le> k" for x :: byte and k n
    using that by (auto dest: bit_imp_le_length)
  show ?thesis unfolding bs
    by (auto simp: le32_def of_le32_def intro!: bit_word_eqI simp: bit_simps z)
qed

lemma of_le32_eqD: "of_le32 bs = w \<Longrightarrow> 4 \<le> length bs \<Longrightarrow> take 4 bs = le32 w"
  using le32_of_le32 [of "take 4 bs"] of_le32_append [of "take 4 bs" "drop 4 bs"] by simp

subsection \<open>Overwriting part of a buffer (memcpy into an array)\<close>

definition splice :: "nat \<Rightarrow> 'a list \<Rightarrow> 'a list \<Rightarrow> 'a list" where
  "splice off ys xs = take off xs @ ys @ drop (off + length ys) xs"

lemma length_splice [simp]: "off + length ys \<le> length xs \<Longrightarrow> length (splice off ys xs) = length xs"
  by (simp add: splice_def)

lemma take_drop_splice_same:
  "off + length ys \<le> length xs \<Longrightarrow> take (length ys) (drop off (splice off ys xs)) = ys"
  by (simp add: splice_def)

lemma take_splice_before: "n \<le> off \<Longrightarrow> off \<le> length xs \<Longrightarrow> take n (splice off ys xs) = take n xs"
  by (simp add: splice_def min_def)

lemma drop_splice_after:
  "off + length ys \<le> n \<Longrightarrow> off + length ys \<le> length xs \<Longrightarrow>
   drop n (splice off ys xs) = drop n xs"
  by (simp add: splice_def)

lemma splice_0: "length ys \<le> length xs \<Longrightarrow> splice 0 ys xs = ys @ drop (length ys) xs"
  by (simp add: splice_def)

subsection \<open>C strings\<close>

abbreviation NUL :: char where "NUL \<equiv> CHR 0x00"

text \<open>The text a NUL-terminated buffer holds (everything before the first NUL).\<close>

definition c_str :: "char list \<Rightarrow> string" where
  "c_str buf = takeWhile (\<lambda>c. c \<noteq> NUL) buf"

definition is_c_str :: "string \<Rightarrow> bool" where
  "is_c_str s \<longleftrightarrow> NUL \<notin> set s"

lemma c_str_terminated [simp, cstr_simps]: "is_c_str s \<Longrightarrow> c_str (s @ NUL # rest) = s"
  by (induction s) (auto simp: c_str_def is_c_str_def)

lemma c_str_id [simp, cstr_simps]: "is_c_str s \<Longrightarrow> c_str s = s"
  by (induction s) (auto simp: c_str_def is_c_str_def)

lemma is_c_str_append [simp]: "is_c_str (s @ t) \<longleftrightarrow> is_c_str s \<and> is_c_str t"
  by (auto simp: is_c_str_def)

lemma is_c_str_Nil [simp]: "is_c_str []"
  by (simp add: is_c_str_def)

lemma is_c_str_Cons [simp]: "is_c_str (c # s) \<longleftrightarrow> c \<noteq> NUL \<and> is_c_str s"
  by (auto simp: is_c_str_def)

lemma is_c_str_take: "is_c_str s \<Longrightarrow> is_c_str (take n s)"
  by (auto simp: is_c_str_def dest: in_set_takeD)

lemma is_c_str_c_str [simp]: "is_c_str (c_str s)"
  by (auto simp: is_c_str_def c_str_def dest: set_takeWhileD)

lemma c_str_snoc_NUL: "c_str (s @ [NUL]) = c_str s"
  by (induction s) (simp_all add: c_str_def)

lemma length_c_str_le: "length (c_str s) \<le> length s"
  by (simp add: c_str_def length_takeWhile_le)

text \<open>
  \<^verbatim>\<open>snprintk(buf, size, ...)\<close> whose formatted text is \<open>s\<close>: the buffer receives at most
  \<open>size - 1\<close> characters and a NUL (nothing when \<open>size = 0\<close>), and the result is the length
  the full text needs.
\<close>

definition snprintk :: "char list \<Rightarrow> string \<Rightarrow> int \<times> char list" where
  "snprintk buf s =
     (int (length s),
      if buf = [] then buf
      else splice 0 (take (length buf - 1) s @ [NUL]) buf)"

lemma length_snprintk [simp]: "length (snd (snprintk buf s)) = length buf"
  by (cases buf) (simp_all add: snprintk_def splice_def)

lemma snprintk_fits:
  assumes "length s < length buf" "is_c_str s"
  shows "c_str (snd (snprintk buf s)) = s"
proof -
  have "take (length buf - 1) s = s" using assms(1) by simp
  moreover have "buf \<noteq> []" using assms(1) by auto
  ultimately show ?thesis using assms(2) by (simp add: snprintk_def splice_def)
qed

lemma snprintkD:
  assumes "snprintk buf s = (n, buf')"
  shows "length buf' = length buf \<and> n = int (length s) \<and> (NUL \<in> set buf \<longrightarrow> NUL \<in> set buf')"
  using assms length_snprintk [of buf s] by (cases buf) (auto simp: snprintk_def splice_def)

lemma length_c_str_stop: "length (c_str (s @ NUL # t)) \<le> length s"
  by (induction s) (simp_all add: c_str_def)

lemma snprintk_len: "length (c_str (snd (snprintk (replicate (Suc n) NUL) text))) \<le> n"
  using length_c_str_stop [of "take n text"] by (simp add: snprintk_def splice_def del: replicate_Suc)

subsection \<open>Decimal numbers: printing with \<open>%u\<close>, reading with strtoul\<close>

definition digit_char :: "nat \<Rightarrow> char" where
  "digit_char d = char_of (48 + d)"

fun dec_string :: "nat \<Rightarrow> string" where
  "dec_string n =
     (if n < 10 then [digit_char n] else dec_string (n div 10) @ [digit_char (n mod 10)])"

declare dec_string.simps [simp del]

definition fmt_u :: "u32 \<Rightarrow> string" where
  "fmt_u w = dec_string (unat w)"

definition c_isspace :: "char \<Rightarrow> bool" where
  "c_isspace c \<longleftrightarrow> of_char c = (32::nat) \<or> (9 \<le> (of_char c :: nat) \<and> of_char c \<le> (13::nat))"

definition c_isdigit :: "char \<Rightarrow> bool" where
  "c_isdigit c \<longleftrightarrow> 48 \<le> (of_char c :: nat) \<and> of_char c \<le> (57::nat)"

definition digits_value :: "string \<Rightarrow> nat" where
  "digits_value ds = foldl (\<lambda>acc c. 10 * acc + (of_char c - 48)) 0 ds"

text \<open>
  \<^verbatim>\<open>strtoul(s, NULL, 10)\<close> with a 32-bit \<^verbatim>\<open>unsigned long\<close>: leading white space, an optional
  sign, the longest run of digits; no digits give 0, a value past the range gives
  \<^verbatim>\<open>ULONG_MAX\<close>, and a minus sign negates modulo \<open>2 ^ 32\<close>.
\<close>

definition strtoul10 :: "string \<Rightarrow> u32" where
  "strtoul10 s =
     (let s1 = dropWhile c_isspace s;
          neg = (s1 \<noteq> [] \<and> hd s1 = CHR ''-'');
          s2 = (if s1 \<noteq> [] \<and> (hd s1 = CHR ''-'' \<or> hd s1 = CHR ''+'') then tl s1 else s1);
          n = digits_value (takeWhile c_isdigit s2)
      in if 2 ^ 32 \<le> n then - 1 else if neg then - of_nat n else of_nat n)"

lemma digit_char_digit [simp]: "d < 10 \<Longrightarrow> c_isdigit (digit_char d)"
  by (simp add: c_isdigit_def digit_char_def)

lemma digit_char_value [simp]: "d < 10 \<Longrightarrow> of_char (digit_char d) = 48 + d"
  by (simp add: digit_char_def)

lemma dec_string_digits: "\<forall>c \<in> set (dec_string n). c_isdigit c"
proof (induction n rule: dec_string.induct)
  case (1 n)
  then show ?case by (subst dec_string.simps) auto
qed

lemma dec_string_nonempty [simp]: "dec_string n \<noteq> []"
  by (subst dec_string.simps) simp

lemma digits_value_snoc: "digits_value (ds @ [c]) = 10 * digits_value ds + (of_char c - 48)"
  by (simp add: digits_value_def)

lemma digits_value_dec_string [simp]: "digits_value (dec_string n) = n"
proof (induction n rule: dec_string.induct)
  case (1 n)
  show ?case
  proof (cases "n < 10")
    case True
    then show ?thesis by (subst dec_string.simps) (simp add: digits_value_def)
  next
    case False
    then show ?thesis
      using "1.IH" by (subst dec_string.simps) (simp add: digits_value_snoc)
  qed
qed

lemma length_dec_string: "n < 10 ^ k \<Longrightarrow> 0 < k \<Longrightarrow> length (dec_string n) \<le> k"
proof (induction n arbitrary: k rule: dec_string.induct)
  case (1 n)
  show ?case
  proof (cases "n < 10")
    case True
    then show ?thesis using "1.prems" by (subst dec_string.simps) simp
  next
    case False
    then obtain j where j: "k = Suc j" "0 < j"
      using "1.prems" by (cases k; cases "k - 1") auto
    then have "n div 10 < 10 ^ j" using "1.prems" by (simp add: div_less_iff_less_mult)
    then have "length (dec_string (n div 10)) \<le> j" using "1.IH" False j by blast
    then show ?thesis using False j by (subst dec_string.simps) simp
  qed
qed

lemma fmt_u_length: "length (fmt_u w) \<le> 10"
proof -
  have "unat w < 2 ^ LENGTH(32)" by (rule unsigned_less)
  then have "unat w < 10 ^ 10" by simp
  then show ?thesis unfolding fmt_u_def by (rule length_dec_string) simp
qed

lemma c_isdigit_not_special:
  "c_isdigit c \<Longrightarrow> \<not> c_isspace c \<and> c \<noteq> CHR ''-'' \<and> c \<noteq> CHR ''+'' \<and> c \<noteq> NUL"
  by (auto simp: c_isdigit_def c_isspace_def)

lemma fmt_u_c_str [simp]: "is_c_str (fmt_u w)"
  unfolding is_c_str_def fmt_u_def using dec_string_digits c_isdigit_not_special by blast

lemma strtoul10_fmt_u [simp, codec_simps]: "strtoul10 (fmt_u w) = w"
proof -
  obtain c cs where s: "fmt_u w = c # cs"
    using dec_string_nonempty by (metis fmt_u_def list.exhaust)
  have d: "\<forall>x \<in> set (c # cs). c_isdigit x" using dec_string_digits s by (metis fmt_u_def)
  have sp: "\<not> c_isspace c" "c \<noteq> CHR ''-''" "c \<noteq> CHR ''+''"
    using d c_isdigit_not_special by auto
  have tw: "takeWhile c_isdigit (c # cs) = fmt_u w" using d s by (simp add: takeWhile_eq_all_conv)
  have v: "digits_value (fmt_u w) = unat w" by (simp add: fmt_u_def)
  have "unat w < 2 ^ LENGTH(32)" by (rule unsigned_less)
  then have b: "\<not> 2 ^ 32 \<le> unat w" by simp
  have "strtoul10 (c # cs) = of_nat (unat w)"
    unfolding strtoul10_def Let_def using sp tw v b by simp
  then show ?thesis by (simp add: s)
qed

subsection \<open>Two-digit lower-case hexadecimal (\<open>%02x\<close>)\<close>

definition hex_digit :: "nat \<Rightarrow> char" where
  "hex_digit d = (if d < 10 then char_of (48 + d) else char_of (87 + d))"

definition fmt_02x :: "byte \<Rightarrow> string" where
  "fmt_02x b = [hex_digit (unat b div 16), hex_digit (unat b mod 16)]"

lemma length_fmt_02x [simp]: "length (fmt_02x b) = 2"
  by (simp add: fmt_02x_def)

lemma hex_digit_not_NUL: "d < 16 \<Longrightarrow> hex_digit d \<noteq> NUL"
proof
  assume d: "d < 16" and "hex_digit d = NUL"
  then have "of_char (hex_digit d) = (0::nat)" by simp
  with d show False by (auto simp: hex_digit_def split: if_splits)
qed

lemma fmt_02x_c_str [simp]: "is_c_str (fmt_02x b)"
proof -
  have "unat b < 2 ^ LENGTH(8)" by (rule unsigned_less)
  then have "unat b div 16 < 16" by (simp add: div_less_iff_less_mult)
  then have "hex_digit (unat b div 16) \<noteq> NUL" "hex_digit (unat b mod 16) \<noteq> NUL"
    by (simp_all add: hex_digit_not_NUL)
  then show ?thesis by (simp add: is_c_str_def fmt_02x_def)
qed

subsection \<open>Selecting from a trace\<close>

lemma map_filter_map_Some [simp]: "(\<And>x. f (g x) = Some x) \<Longrightarrow> List.map_filter f (map g xs) = xs"
  by (induction xs) (simp_all add: List.map_filter_simps)

lemma map_filter_map_None [simp]: "(\<And>x. f (g x) = None) \<Longrightarrow> List.map_filter f (map g xs) = []"
  by (induction xs) (simp_all add: List.map_filter_simps)

lemma map_filter_None [simp]: "List.map_filter (\<lambda>_. None) xs = []"
  by (induction xs) (simp_all add: List.map_filter_simps)

lemma set_map_filter: "set (List.map_filter f xs) = {y. \<exists>x \<in> set xs. f x = Some y}"
  by (force simp: List.map_filter_def)

end
