(* ===== verification/Zbus_Messages.thy ===== *)
theory Zbus_Messages
  imports Nwm_Prelude
begin

text \<open>
  The messages the modules exchange over zbus channels. \<open>network_msg\<close> is the application's own
  type (\<^verbatim>\<open>src/src/modules/messages.h\<close>); the Wi-Fi and button messages belong to the zego bricks
  and are listed with the enumerators the application documents for them
  (\<^verbatim>\<open>src/docs/dev-specs/1-architecture.md\<close>).

  The second half states the interface every connectivity-driven client of \<^verbatim>\<open>WIFI_CHAN\<close> offers
  (\<^verbatim>\<open>app_https_client.c\<close> and \<^verbatim>\<open>app_mqtt_client.c\<close>): a running flag, a network-ready flag, a
  has-ever-been-connected flag, and a listener that gives the thread's semaphore on a transition.
  What a client may rely on over any sequence of messages is proved once, in the locale
  \<open>wifi_client\<close>, against the abstract link monitor \<open>link_after\<close> and \<open>rising_edges\<close>.
\<close>

datatype network_msg_type = NETWORK_READY | NETWORK_NOT_READY

record network_msg =
  nm_type :: network_msg_type
  nm_ready :: bool

datatype wifi_msg_type = WIFI_STA_CONNECTED | WIFI_STA_DISCONNECTED | WIFI_DNS_READY | WIFI_ERROR

datatype button_msg_type =
  BUTTON_PRESSED | BUTTON_RELEASED | BUTTON_SINGLE_CLICK | BUTTON_DOUBLE_CLICK | BUTTON_LONG_PRESS | BUTTON_LONGER_PRESS

record button_msg =
  bm_type :: button_msg_type
  bm_button_number :: byte

subsection \<open>Running a listener over a sequence of messages\<close>

text \<open>A machine step returns the new state and the calls it made, in order.\<close>

type_synonym ('i, 's, 'c) machine = "'i \<Rightarrow> 's \<Rightarrow> 's \<times> 'c list"

fun run_machine :: "('i, 's, 'c) machine \<Rightarrow> 'i list \<Rightarrow> 's \<Rightarrow> 's \<times> 'c list" where
  "run_machine f [] s = (s, [])"
| "run_machine f (i # is) s =
     (let (s1, cs1) = f i s; (s2, cs2) = run_machine f is s1 in (s2, cs1 @ cs2))"

lemma fst_run_machine_Cons [simp]:
  "fst (run_machine f (i # is) s) = fst (run_machine f is (fst (f i s)))"
  by (simp add: split_beta Let_def)

lemma snd_run_machine_Cons [simp]:
  "snd (run_machine f (i # is) s) = snd (f i s) @ snd (run_machine f is (fst (f i s)))"
  by (simp add: split_beta Let_def)

lemma run_machine_single [simp]: "run_machine f [i] s = f i s"
  by simp

declare run_machine.simps(2) [simp del]

lemma fst_run_machine_append:
  "fst (run_machine f (is @ js) s) = fst (run_machine f js (fst (run_machine f is s)))"
  by (induction "is" arbitrary: s) simp_all

lemma snd_run_machine_append:
  "snd (run_machine f (is @ js) s) =
     snd (run_machine f is s) @ snd (run_machine f js (fst (run_machine f is s)))"
  by (induction "is" arbitrary: s) simp_all

lemma run_machine_inv:
  assumes "\<And>i s. P s \<Longrightarrow> P (fst (f i s))" and "P s"
  shows "P (fst (run_machine f is s))"
  using assms(2) by (induction "is" arbitrary: s) (simp_all add: assms(1))

lemma run_machine_safe:
  assumes "\<And>i s. i \<in> set is \<Longrightarrow> P s \<Longrightarrow> P (fst (f i s)) \<and> list_all Q (snd (f i s))" and "P s"
  shows "P (fst (run_machine f is s)) \<and> list_all Q (snd (run_machine f is s))"
  using assms by (induction "is" arbitrary: s) simp_all

lemma run_machine_calls:
  assumes "\<And>i s. i \<in> set is \<Longrightarrow> list_all Q (snd (f i s))"
  shows "list_all Q (snd (run_machine f is s))"
  using assms by (induction "is" arbitrary: s) simp_all

subsection \<open>The abstract link monitor\<close>

fun link_after :: "bool \<Rightarrow> wifi_msg_type list \<Rightarrow> bool" where
  "link_after up [] = up"
| "link_after up (WIFI_STA_CONNECTED # ms) = link_after True ms"
| "link_after up (WIFI_STA_DISCONNECTED # ms) = link_after False ms"
| "link_after up (_ # ms) = link_after up ms"

fun rising_edges :: "bool \<Rightarrow> wifi_msg_type list \<Rightarrow> nat" where
  "rising_edges up [] = 0"
| "rising_edges up (WIFI_STA_CONNECTED # ms) = (if up then 0 else 1) + rising_edges True ms"
| "rising_edges up (WIFI_STA_DISCONNECTED # ms) = rising_edges False ms"
| "rising_edges up (_ # ms) = rising_edges up ms"

lemma link_after_append: "link_after up (ms @ ns) = link_after (link_after up ms) ns"
  by (induction up ms rule: link_after.induct) simp_all

lemma link_after_mono: "(up \<longrightarrow> up') \<Longrightarrow> link_after up ms \<longrightarrow> link_after up' ms"
  by (induction up ms arbitrary: up' rule: link_after.induct) auto

subsection \<open>The interface of a connectivity-driven client\<close>

locale wifi_client =
  fixes listener :: "(wifi_msg_type, 's, 'c) machine"
    and running :: "'s \<Rightarrow> bool"
    and ready :: "'s \<Rightarrow> bool"
    and seen :: "'s \<Rightarrow> bool"
    and wakes :: "'c \<Rightarrow> bool"
  assumes running_kept: "running (fst (listener m s)) = running s"
    and ready_connected: "running s \<Longrightarrow> ready (fst (listener WIFI_STA_CONNECTED s))"
    and ready_disconnected: "\<not> ready (fst (listener WIFI_STA_DISCONNECTED s))"
    and seen_connected:
      "seen (fst (listener WIFI_STA_CONNECTED s)) = (seen s \<or> running s \<and> \<not> ready s)"
    and seen_disconnected: "seen (fst (listener WIFI_STA_DISCONNECTED s)) = seen s"
    and wakes_connected:
      "length (filter wakes (snd (listener WIFI_STA_CONNECTED s))) =
         (if running s \<and> \<not> ready s then 1 else 0)"
    and wakes_disconnected: "filter wakes (snd (listener WIFI_STA_DISCONNECTED s)) = []"
    and others_ignored:
      "m \<noteq> WIFI_STA_CONNECTED \<Longrightarrow> m \<noteq> WIFI_STA_DISCONNECTED \<Longrightarrow> listener m s = (s, [])"
begin

lemma running_run: "running (fst (run_machine listener ms s)) = running s"
  by (induction ms arbitrary: s) (simp_all add: running_kept)

lemma ready_run:
  "running s \<Longrightarrow> ready (fst (run_machine listener ms s)) = link_after (ready s) ms"
proof (induction ms arbitrary: s)
  case (Cons m ms)
  have "running (fst (listener m s))" using Cons.prems by (simp add: running_kept)
  then have IH: "ready (fst (run_machine listener ms (fst (listener m s)))) =
      link_after (ready (fst (listener m s))) ms"
    by (rule Cons.IH)
  show ?case
    using IH Cons.prems ready_connected [of s] ready_disconnected [of s] others_ignored [of m s]
    by (cases m) auto
qed simp

lemma wakes_run:
  "running s \<Longrightarrow>
   length (filter wakes (snd (run_machine listener ms s))) = rising_edges (ready s) ms"
proof (induction ms arbitrary: s)
  case (Cons m ms)
  have "running (fst (listener m s))" using Cons.prems by (simp add: running_kept)
  then have IH: "length (filter wakes (snd (run_machine listener ms (fst (listener m s))))) =
      rising_edges (ready (fst (listener m s))) ms"
    by (rule Cons.IH)
  show ?case
    using IH Cons.prems ready_connected [of s] ready_disconnected [of s] others_ignored [of m s]
      wakes_connected [of s] wakes_disconnected [of s]
    by (cases m) (auto split: if_splits)
qed simp

lemma seen_run:
  "running s \<Longrightarrow> (ready s \<longrightarrow> seen s) \<Longrightarrow>
   seen (fst (run_machine listener ms s)) = (seen s \<or> WIFI_STA_CONNECTED \<in> set ms)"
proof (induction ms arbitrary: s)
  case (Cons m ms)
  have r: "running (fst (listener m s))" using Cons.prems by (simp add: running_kept)
  have "ready (fst (listener m s)) \<longrightarrow> seen (fst (listener m s))"
    using Cons.prems ready_disconnected [of s] seen_connected [of s] others_ignored [of m s]
    by (cases m) auto
  then have IH: "seen (fst (run_machine listener ms (fst (listener m s)))) =
      (seen (fst (listener m s)) \<or> WIFI_STA_CONNECTED \<in> set ms)"
    using r Cons.IH by blast
  show ?case
    using IH Cons.prems seen_connected [of s] seen_disconnected [of s] others_ignored [of m s]
    by (cases m) auto
qed simp

end

subsection \<open>Counters that are mirrored in Memfault metrics\<close>

text \<open>
  The last value a trace of calls reports for a metric key, if any; \<open>metric\<close> reads the key and
  value off one call. A module whose counters are mirrored keeps \<open>last_metric\<close> equal to its counter.
\<close>

fun last_metric :: "('c \<Rightarrow> ('k \<times> u32) option) \<Rightarrow> 'k \<Rightarrow> 'c list \<Rightarrow> u32 option" where
  "last_metric metric k [] = None"
| "last_metric metric k (c # cs) =
     (case last_metric metric k cs of
        Some v \<Rightarrow> Some v
      | None \<Rightarrow> (case metric c of Some (k', v) \<Rightarrow> if k' = k then Some v else None | None \<Rightarrow> None))"

lemma last_metric_append:
  "last_metric metric k (cs @ ds) =
     (case last_metric metric k ds of None \<Rightarrow> last_metric metric k cs | Some v \<Rightarrow> Some v)"
  by (induction cs) (auto split: option.splits)

lemma last_metric_pick:
  assumes "\<And>c v. c \<in> set cs \<Longrightarrow> metric c = Some (k, v) \<longleftrightarrow> (\<exists>d. pick c = Some d \<and> metric' d = Some (k', v))"
  shows "last_metric metric k cs = last_metric metric' k' (List.map_filter pick cs)"
  using assms
proof (induction cs)
  case (Cons c cs)
  have IH: "last_metric metric k cs = last_metric metric' k' (List.map_filter pick cs)" using Cons by simp
  have c: "metric c = Some (k, v) \<longleftrightarrow> (\<exists>d. pick c = Some d \<and> metric' d = Some (k', v))" for v using Cons.prems by simp
  show ?case
  proof (cases "\<exists>v. metric c = Some (k, v)")
    case True
    then show ?thesis using IH c by (auto simp: List.map_filter_simps split: option.splits)
  next
    case False
    then show ?thesis using IH c by (auto simp: List.map_filter_simps split: option.splits)
  qed
qed (simp add: List.map_filter_simps)

locale metered_machine =
  fixes step :: "('i, 's, 'c) machine"
    and metric :: "'c \<Rightarrow> ('k \<times> u32) option"
    and counter :: "'k \<Rightarrow> 's \<Rightarrow> u32"
  assumes step_reports:
    "(case last_metric metric k (snd (step i s)) of None \<Rightarrow> counter k s | Some v \<Rightarrow> v) =
       counter k (fst (step i s))"
begin

text \<open>What Memfault last received for a key is the module's counter, over every run.\<close>

lemma reports_run:
  "(case last_metric metric k (snd (run_machine step is s)) of
      None \<Rightarrow> counter k s | Some v \<Rightarrow> v) = counter k (fst (run_machine step is s))"
proof (induction "is" arbitrary: s)
  case (Cons i js s)
  show ?case
    using step_reports [where k = k and i = i and s = s] Cons.IH [of "fst (step i s)"]
    by (auto simp: last_metric_append split: option.splits)
qed simp

end

end
