(* ===== verification/Https_Request.thy ===== *)
theory Https_Request
  imports Zbus_Messages
begin

text \<open>
  One HTTPS request of the periodic client, the first half of
  \<^verbatim>\<open>src/src/modules/app_https_client/app_https_client.c\<close>: certificate provisioning, TLS socket
  options, name resolution, and \<^verbatim>\<open>send_http_request\<close> with its two loops and its \<^verbatim>\<open>clean_up\<close>
  label.

  The sockets, the resolver and the credential store are not part of the application: their
  answers are the record \<open>https_env\<close>, and every call to them is recorded in order (\<open>https_call\<close>).
  The sending loop has no bound of its own (a \<^verbatim>\<open>send\<close> that keeps returning 0 keeps it running),
  so both loops are partial functions whose value is \<open>None\<close> when they do not return.
\<close>

subsection \<open>Data\<close>

record https_cfg =
  hc_hostname :: string
  hc_request_interval_sec :: u32
  hc_modem_key_mgmt :: bool
  hc_tfm_mbedtls :: bool
  hc_eai_canceled :: int

record https_state =
  https_client_running :: bool
  ht_network_ready :: bool
  ht_has_seen_network_connection :: bool
  https_req_total :: u32
  https_req_failures :: u32
  recv_buf :: "char list"

datatype https_metric = App_https_req_total_count | App_https_req_fail_count

datatype tls_option = Tls_peer_verify nat | Tls_sec_tag_list "nat list" | Tls_hostname string

datatype https_call =
    Https_metric_set https_metric u32
  | Https_log_test bool u32 u32
  | Https_log_result string u32 u32
  | Https_sem_give
  | Https_sem_take u32
  | Https_sleep_sec u32
  | Https_sleep_msec u32
  | Https_getaddrinfo string string
  | Https_freeaddrinfo nat
  | Https_socket bool
  | Https_set_timeouts int u32
  | Https_setsockopt int tls_option
  | Https_connect int nat
  | Https_send int string
  | Https_recv int u32 u32
  | Https_shutdown int
  | Https_close int
  | Modem_key_mgmt_exists nat
  | Modem_key_mgmt_cmp nat
  | Modem_key_mgmt_delete nat
  | Modem_key_mgmt_write nat
  | Tls_credential_add nat

text \<open>
  The answers of the environment to one request. \<open>he_getaddrinfo k res\<close> is the outcome of the
  \<open>k\<close>-th lookup when \<^verbatim>\<open>res\<close> held \<open>res\<close> before it (a result list is named by a number, a null
  pointer is \<open>None\<close>); \<open>he_send k n\<close> and \<open>he_recv k n\<close> are the answers of the \<open>k\<close>-th call with
  length \<open>n\<close>, the received characters included.
\<close>

record https_env =
  he_key_exists :: "int \<times> bool"
  he_key_cmp :: int
  he_key_delete :: int
  he_key_write :: int
  he_credential_add :: int
  he_getaddrinfo :: "nat \<Rightarrow> nat option \<Rightarrow> int \<times> nat option"
  he_socket :: int
  he_setsockopt :: "tls_option \<Rightarrow> int"
  he_connect :: int
  he_send :: "nat \<Rightarrow> u32 \<Rightarrow> int"
  he_recv :: "nat \<Rightarrow> u32 \<Rightarrow> int \<times> char list"
  he_rand32 :: u32

definition HTTPS_PORT :: string where "HTTPS_PORT = ''443''"

definition crlf :: string where "crlf = [CHR 0x0D, CHR 0x0A]"

definition HTTP_HEAD :: "https_cfg \<Rightarrow> string" where
  "HTTP_HEAD cfg = ''HEAD / HTTP/1.1'' @ crlf @
     ''Host: '' @ hc_hostname cfg @ '':'' @ HTTPS_PORT @ crlf @
     ''Connection: close'' @ crlf @ crlf"

definition HTTP_HEAD_LEN :: "https_cfg \<Rightarrow> u32" where
  "HTTP_HEAD_LEN cfg = of_nat (length (HTTP_HEAD cfg))"

definition RECV_BUF_SIZE :: u32 where "RECV_BUF_SIZE = 2048"
definition TLS_SEC_TAG :: nat where "TLS_SEC_TAG = 42"

subsection \<open>Certificate and TLS options\<close>

definition cert_provision :: "https_cfg \<Rightarrow> https_env \<Rightarrow> int \<times> https_call list" where
  "cert_provision cfg env =
     (if hc_modem_key_mgmt cfg
      then let (err, exists) = he_key_exists env; c1 = [Modem_key_mgmt_exists TLS_SEC_TAG]
           in if err \<noteq> 0 then (err, c1)
              else if exists \<and> he_key_cmp env = 0 then (0, c1 @ [Modem_key_mgmt_cmp TLS_SEC_TAG])
              else let c2 = c1 @ (if exists then [Modem_key_mgmt_cmp TLS_SEC_TAG,
                                                  Modem_key_mgmt_delete TLS_SEC_TAG] else []);
                       err = he_key_write env; c3 = c2 @ [Modem_key_mgmt_write TLS_SEC_TAG]
                   in if err \<noteq> 0 then (err, c3) else (0, c3)
      else let err = he_credential_add env
           in if err = - EEXIST then (0, [Tls_credential_add TLS_SEC_TAG])
              else if err < 0 then (err, [Tls_credential_add TLS_SEC_TAG])
              else (0, [Tls_credential_add TLS_SEC_TAG]))"

definition tls_setup :: "https_cfg \<Rightarrow> https_env \<Rightarrow> int \<Rightarrow> int \<times> https_call list" where
  "tls_setup cfg env fd =
     (let verify = Tls_peer_verify 2; tag = Tls_sec_tag_list [TLS_SEC_TAG];
          host = Tls_hostname (hc_hostname cfg)
      in if he_setsockopt env verify \<noteq> 0
         then (he_setsockopt env verify, [Https_setsockopt fd verify])
         else if he_setsockopt env tag \<noteq> 0
         then (he_setsockopt env tag, [Https_setsockopt fd verify, Https_setsockopt fd tag])
         else if he_setsockopt env host \<noteq> 0
         then (he_setsockopt env host,
               [Https_setsockopt fd verify, Https_setsockopt fd tag, Https_setsockopt fd host])
         else (0, [Https_setsockopt fd verify, Https_setsockopt fd tag, Https_setsockopt fd host]))"

definition free_calls :: "nat option \<Rightarrow> https_call list" where
  "free_calls res = (case res of Some r \<Rightarrow> [Https_freeaddrinfo r] | None \<Rightarrow> [])"

definition https_check_dns_ready :: "https_cfg \<Rightarrow> https_env \<Rightarrow> bool \<times> https_call list" where
  "https_check_dns_ready cfg env =
     (let (err, res) = he_getaddrinfo env 0 None
      in (err = 0, [Https_getaddrinfo (hc_hostname cfg) HTTPS_PORT] @ free_calls res))"

definition https_random_initial_delay_sec :: "u32 \<Rightarrow> u32 \<Rightarrow> u32" where
  "https_random_initial_delay_sec rand interval_sec =
     (if interval_sec = 0 then 0 else rand mod (interval_sec + 1))"

definition https_record_failed_attempt :: "https_state \<Rightarrow> https_state \<times> https_call list" where
  "https_record_failed_attempt s =
     (let s' = s\<lparr>https_req_total := https_req_total s + 1,
                 https_req_failures := https_req_failures s + 1\<rparr>
      in (s', [Https_metric_set App_https_req_total_count (https_req_total s'),
               Https_metric_set App_https_req_fail_count (https_req_failures s'),
               Https_log_test False (https_req_total s' - https_req_failures s')
                 (https_req_total s')]))"

subsection \<open>The two transfer loops\<close>

text \<open>
  \<open>k\<close> counts the calls made so far; the results are whether the loop ended without an error, the
  final offset (and receive buffer), and the calls.
\<close>

partial_function (option) https_send_loop ::
  "(nat \<Rightarrow> u32 \<Rightarrow> int) \<Rightarrow> int \<Rightarrow> string \<Rightarrow> nat \<Rightarrow> u32 \<Rightarrow> https_call list \<Rightarrow>
     (bool \<times> u32 \<times> https_call list) option" where
  "https_send_loop send fd msg k off cs =
     (let n = of_nat (length msg) - off; bytes = send k n;
          cs' = cs @ [Https_send fd (take (unat n) (drop (unat off) msg))]
      in if bytes < 0 then Some (False, off, cs')
         else let off' = off + of_int bytes
              in if off' < of_nat (length msg) then https_send_loop send fd msg (Suc k) off' cs'
                 else Some (True, off', cs'))"

partial_function (option) https_recv_loop ::
  "(nat \<Rightarrow> u32 \<Rightarrow> int \<times> char list) \<Rightarrow> int \<Rightarrow> nat \<Rightarrow> u32 \<Rightarrow> char list \<Rightarrow> https_call list \<Rightarrow>
     (bool \<times> u32 \<times> char list \<times> https_call list) option" where
  "https_recv_loop recv fd k off buf cs =
     (let n = RECV_BUF_SIZE - off; (bytes, data) = recv k n;
          cs' = cs @ [Https_recv fd off n]
      in if bytes < 0 then Some (False, off, buf, cs')
         else let buf' = splice (unat off) data buf; off' = off + of_int bytes
              in if bytes \<noteq> 0 then https_recv_loop recv fd (Suc k) off' buf' cs'
                 else Some (True, off', buf', cs'))"

declare https_send_loop.simps [code] https_recv_loop.simps [code]

subsection \<open>The response\<close>

fun strstr :: "string \<Rightarrow> string \<Rightarrow> nat option" where
  "strstr pat [] = (if pat = [] then Some 0 else None)"
| "strstr pat (c # cs) =
     (if take (length pat) (c # cs) = pat then Some 0 else map_option Suc (strstr pat cs))"

definition terminate_recv_buf :: "u32 \<Rightarrow> char list \<Rightarrow> char list" where
  "terminate_recv_buf off buf =
     (if off < of_nat (length buf) then buf[unat off := NUL] else buf[length buf - 1 := NUL])"

definition extract_status_line :: "char list \<Rightarrow> char list" where
  "extract_status_line buf =
     (let status_line = replicate 64 NUL
      in case strstr crlf (c_str buf) of
           None \<Rightarrow> status_line
         | Some p \<Rightarrow>
             let slen = (if p \<ge> length status_line then length status_line - 1 else p)
             in (splice 0 (take slen buf) status_line)[slen := NUL])"

subsection \<open>send_http_request\<close>

text \<open>
  Everything from the \<^verbatim>\<open>clean_up\<close> label on: the locals it reads are the arguments.
\<close>

definition https_clean_up ::
  "bool \<Rightarrow> char list \<Rightarrow> int \<Rightarrow> nat option \<Rightarrow> https_state \<Rightarrow> https_state \<times> https_call list" where
  "https_clean_up request_failed status_line fd res s =
     (let s' = (if request_failed then s\<lparr>https_req_failures := https_req_failures s + 1\<rparr> else s);
          c1 = (if request_failed
                then [Https_metric_set App_https_req_fail_count (https_req_failures s')] else []);
          c2 = [Https_log_result (if request_failed then ''FAILED''
                  else if c_str status_line \<noteq> [] then c_str status_line else ''OK'')
                  (https_req_total s') (https_req_failures s'),
                Https_log_test (\<not> request_failed) (https_req_total s' - https_req_failures s')
                  (https_req_total s')];
          c3 = (if fd \<ge> 0 then [Https_shutdown fd, Https_close fd, Https_sleep_msec 100] else [])
      in (s', c1 @ c2 @ c3 @ free_calls res))"

text \<open>
  The part with a connected socket: from the first \<^verbatim>\<open>send\<close> to the label.
\<close>

definition https_exchange ::
  "https_cfg \<Rightarrow> https_env \<Rightarrow> int \<Rightarrow> char list \<Rightarrow> (bool \<times> char list \<times> char list \<times> https_call list) option" where
  "https_exchange cfg env fd buf =
     (case https_send_loop (he_send env) fd (HTTP_HEAD cfg) 0 0 [] of
        None \<Rightarrow> None
      | Some (False, _, cs) \<Rightarrow> Some (True, replicate 64 NUL, buf, cs)
      | Some (True, _, cs) \<Rightarrow>
          (case https_recv_loop (he_recv env) fd 0 0 buf cs of
             None \<Rightarrow> None
           | Some (False, _, buf', cs') \<Rightarrow> Some (True, replicate 64 NUL, buf', cs')
           | Some (True, off, buf', cs') \<Rightarrow>
               let buf'' = terminate_recv_buf off buf'
               in Some (False, extract_status_line buf'', buf'', cs')))"

definition https_lookup :: "https_cfg \<Rightarrow> https_env \<Rightarrow> int \<times> nat option \<times> https_call list" where
  "https_lookup cfg env =
     (let (err, res) = he_getaddrinfo env 0 None;
          c1 = [Https_getaddrinfo (hc_hostname cfg) HTTPS_PORT]
      in if err = hc_eai_canceled cfg
         then let (err', res') = he_getaddrinfo env 1 res
              in (err', res', c1 @ [Https_sleep_sec 2,
                                    Https_getaddrinfo (hc_hostname cfg) HTTPS_PORT])
         else (err, res, c1))"

text \<open>
  From the socket on, with a lookup result \<open>res\<close> that is not null: whether the request failed,
  the status line, the socket, the receive buffer, and the calls.
\<close>

definition https_transfer ::
  "https_cfg \<Rightarrow> https_env \<Rightarrow> nat \<Rightarrow> char list \<Rightarrow>
     (bool \<times> char list \<times> int \<times> char list \<times> https_call list) option" where
  "https_transfer cfg env res buf =
     (let fd = he_socket env; c1 = [Https_socket (hc_tfm_mbedtls cfg)]
      in if fd = - 1 then Some (True, replicate 64 NUL, fd, buf, c1)
         else let c2 = c1 @ [Https_set_timeouts fd 30]; (err, cs) = tls_setup cfg env fd; c3 = c2 @ cs
              in if err \<noteq> 0 then Some (True, replicate 64 NUL, fd, buf, c3)
                 else let c4 = c3 @ [Https_connect fd res]
                      in if he_connect env \<noteq> 0 then Some (True, replicate 64 NUL, fd, buf, c4)
                         else (case https_exchange cfg env fd buf of
                                 None \<Rightarrow> None
                               | Some (failed, line, buf', cs') \<Rightarrow>
                                   Some (failed, line, fd, buf', c4 @ cs')))"

text \<open>
  \<^verbatim>\<open>res->ai_family\<close> is read after a successful lookup; a null \<^verbatim>\<open>res\<close> there is undefined, and the
  outer \<open>None\<close>, like a loop that does not return.
\<close>

definition send_http_request ::
  "https_cfg \<Rightarrow> https_env \<Rightarrow> https_state \<Rightarrow> (https_state \<times> https_call list) option" where
  "send_http_request cfg env s =
     (if \<not> ht_network_ready s then Some (s, [])
      else let s1 = s\<lparr>https_req_total := https_req_total s + 1\<rparr>;
               c1 = [Https_metric_set App_https_req_total_count (https_req_total s1)];
               (err, res, c2) = https_lookup cfg env
           in if err \<noteq> 0
              then (let (s2, cs) = https_clean_up True (replicate 64 NUL) (- 1) res s1
                    in Some (s2, c1 @ c2 @ cs))
              else (case res of
                      None \<Rightarrow> None
                    | Some r \<Rightarrow>
                        (case https_transfer cfg env r (recv_buf s1) of
                           None \<Rightarrow> None
                         | Some (failed, line, fd, buf, c3) \<Rightarrow>
                             let (s2, cs) = https_clean_up failed line fd res (s1\<lparr>recv_buf := buf\<rparr>)
                             in Some (s2, c1 @ c2 @ c3 @ cs))))"

subsection \<open>What the socket and resolver calls promise\<close>

definition send_ok :: "(nat \<Rightarrow> u32 \<Rightarrow> int) \<Rightarrow> bool" where
  "send_ok send \<longleftrightarrow> (\<forall>k n. send k n \<le> int (unat n) \<and> (n \<noteq> 0 \<longrightarrow> send k n \<noteq> 0))"

definition recv_ok :: "(nat \<Rightarrow> u32 \<Rightarrow> int \<times> char list) \<Rightarrow> bool" where
  "recv_ok recv \<longleftrightarrow> (\<forall>k n b data. recv k n = (b, data) \<longrightarrow>
     b < 0 \<or> b = int (length data) \<and> b \<le> int (unat n))"

definition getaddrinfo_ok :: "(nat \<Rightarrow> nat option \<Rightarrow> int \<times> nat option) \<Rightarrow> bool" where
  "getaddrinfo_ok gai \<longleftrightarrow> (\<forall>k res e res'. gai k res = (e, res') \<longrightarrow>
     (e = 0 \<longrightarrow> res' \<noteq> None) \<and> (e \<noteq> 0 \<longrightarrow> res' = res))"

subsection \<open>The transfer loops return\<close>

text \<open>
  The characters the peer is handed by a sequence of calls (each \<^verbatim>\<open>send\<close> accepts a prefix of what
  it is offered), and those a sequence of \<^verbatim>\<open>recv\<close> calls delivered.
\<close>

fun https_wire :: "(nat \<Rightarrow> u32 \<Rightarrow> int) \<Rightarrow> nat \<Rightarrow> https_call list \<Rightarrow> string" where
  "https_wire send k [] = []"
| "https_wire send k (Https_send fd d # cs) =
     take (nat (send k (of_nat (length d)))) d @ https_wire send (Suc k) cs"
| "https_wire send k (_ # cs) = https_wire send k cs"

fun https_rx :: "(nat \<Rightarrow> u32 \<Rightarrow> int \<times> char list) \<Rightarrow> nat \<Rightarrow> https_call list \<Rightarrow> string" where
  "https_rx recv k [] = []"
| "https_rx recv k (Https_recv fd off n # cs) =
     (if fst (recv k n) < 0 then [] else snd (recv k n)) @ https_rx recv (Suc k) cs"
| "https_rx recv k (_ # cs) = https_rx recv k cs"

text \<open>One iteration of each loop, in natural numbers: it fails, it goes on with the bytes advanced, or it ends.\<close>

lemma https_send_loop_step:
  assumes ok: "send_ok send" and len: "length msg < 2 ^ 32" and off: "unat off < length msg"
  obtains (failed) "https_send_loop send fd msg k off cs = Some (False, off, cs @ [Https_send fd (drop (unat off) msg)])"
  | (more) b off1 where "0 < b" "unat off1 = unat off + b" "unat off1 < length msg"
      "send k (of_nat (length msg - unat off)) = int b"
      "https_send_loop send fd msg k off cs = https_send_loop send fd msg (Suc k) off1 (cs @ [Https_send fd (drop (unat off) msg)])"
  | (finished) b off1 where "unat off1 = length msg" "unat off + b = length msg" "send k (of_nat (length msg - unat off)) = int b"
      "https_send_loop send fd msg k off cs = Some (True, off1, cs @ [Https_send fd (drop (unat off) msg)])"
proof -
  define n where "n = of_nat (length msg) - off"
  have l: "unat (of_nat (length msg) :: u32) = length msg" using len by (rule unat_of_nat_u32)
  then have "off \<le> of_nat (length msg)" using off by (simp add: word_le_nat_alt)
  then have n: "unat n = length msg - unat off" using l by (simp add: n_def unat_sub)
  then have nn: "of_nat (length msg - unat off) = n" by (simp flip: n)
  have n0: "n \<noteq> 0" using n off by auto
  let ?b = "send k n"
  have b: "?b \<le> int (unat n)" "?b \<noteq> 0" using ok n0 by (auto simp: send_ok_def)
  have d: "take (unat n) (drop (unat off) msg) = drop (unat off) msg" using n by simp
  note unf = https_send_loop.simps [of send fd msg k off cs, unfolded Let_def n_def [symmetric] d]
  show thesis
  proof (cases "?b < 0")
    case True
    then show ?thesis by (intro failed) (simp add: unf)
  next
    case False
    have le: "unat off + nat ?b \<le> length msg" using b(1) n off by linarith
    have o': "unat (off + of_int ?b) = unat off + nat ?b" using le False len by (intro unat_plus_of_int) linarith+
    then have lt: "off + of_int ?b < of_nat (length msg) \<longleftrightarrow> unat off + nat ?b < length msg" using l by (simp add: word_less_nat_alt)
    show ?thesis
    proof (cases "unat off + nat ?b < length msg")
      case True
      then show ?thesis using False b(2) o' lt nn by (intro more [of "nat ?b" "off + of_int ?b"]) (simp_all add: unf)
    next
      case F: False
      then show ?thesis using False o' lt le nn by (intro finished [of "off + of_int ?b" "nat ?b"]) (simp_all add: unf)
    qed
  qed
qed

lemma https_send_loop_returns:
  assumes ok: "send_ok send" and len: "length msg < 2 ^ 32" and "unat off < length msg"
  shows "\<exists>r off' ds. https_send_loop send fd msg k off cs = Some (r, off', cs @ ds) \<and>
    (\<forall>c \<in> set ds. \<exists>d. c = Https_send fd d) \<and>
    (r \<longrightarrow> unat off' = length msg \<and> https_wire send k ds = drop (unat off) msg)"
  using assms(3)
proof (induction "length msg - unat off" arbitrary: k off cs rule: less_induct)
  case less
  let ?c = "Https_send fd (drop (unat off) msg)"
  from ok len less.prems show ?case
  proof (cases rule: https_send_loop_step [of _ _ _ fd k cs])
    case failed
    then show ?thesis by (intro exI [of _ False] exI [of _ off] exI [of _ "[?c]"]) simp
  next
    case (more b off1)
    then have "length msg - unat off1 < length msg - unat off" by linarith
    from less.hyps [OF this more(3), of "Suc k" "cs @ [?c]"] obtain r off' ds where
      r: "https_send_loop send fd msg (Suc k) off1 (cs @ [?c]) = Some (r, off', (cs @ [?c]) @ ds)"
        "\<forall>c \<in> set ds. \<exists>d. c = Https_send fd d"
        "r \<longrightarrow> unat off' = length msg \<and> https_wire send (Suc k) ds = drop (unat off1) msg" by blast
    have "take b (drop (unat off) msg) @ drop (unat off1) msg = drop (unat off) msg"
      by (metis append_take_drop_id drop_drop add.commute more(2))
    then show ?thesis using r more(4,5)
      by (intro exI [of _ r] exI [of _ off'] exI [of _ "?c # ds"]) auto
  next
    case (finished b off1)
    then show ?thesis by (intro exI [of _ True] exI [of _ off1] exI [of _ "[?c]"]) auto
  qed
qed

lemma https_recv_loop_step:
  assumes ok: "recv_ok recv" and off: "unat off \<le> 2048" and buf: "length buf = 2048"
  obtains (failed) n where "unat n = 2048 - unat off" "fst (recv k n) < 0"
      "https_recv_loop recv fd k off buf cs = Some (False, off, buf, cs @ [Https_recv fd off n])"
  | (closed) n where "unat n = 2048 - unat off" "recv k n = (0, [])"
      "https_recv_loop recv fd k off buf cs = Some (True, off, buf, cs @ [Https_recv fd off n])"
  | (more) n data off1 buf1 where "unat n = 2048 - unat off" "recv k n = (int (length data), data)" "data \<noteq> []"
      "unat off1 = unat off + length data" "unat off1 \<le> 2048" "length buf1 = 2048" "take (unat off1) buf1 = take (unat off) buf @ data"
      "https_recv_loop recv fd k off buf cs = https_recv_loop recv fd (Suc k) off1 buf1 (cs @ [Https_recv fd off n])"
proof -
  define n where "n = RECV_BUF_SIZE - off"
  have "off \<le> RECV_BUF_SIZE" using off by (simp add: RECV_BUF_SIZE_def word_le_nat_alt)
  then have n: "unat n = 2048 - unat off" by (simp add: n_def unat_sub RECV_BUF_SIZE_def)
  obtain b data where rc: "recv k n = (b, data)" by (cases "recv k n")
  have b: "b < 0 \<or> b = int (length data) \<and> b \<le> int (unat n)" using ok rc by (auto simp: recv_ok_def)
  note unf = https_recv_loop.simps [of recv fd k off buf cs, unfolded Let_def n_def [symmetric] rc prod.case]
  consider "b < 0" | "b = 0" "data = []" | "b = int (length data)" "length data \<le> unat n" "data \<noteq> []"
  proof -
    have "b < 0 \<or> b = 0 \<and> data = [] \<or> b = int (length data) \<and> length data \<le> unat n \<and> data \<noteq> []"
      using b unfolding length_0_conv [symmetric] by linarith
    then show ?thesis using that by blast
  qed
  then show thesis
  proof cases
    case 1
    then show ?thesis using n rc by (intro failed [of n]) (simp_all add: unf)
  next
    case 2
    then show ?thesis using n rc buf off by (intro closed [of n]) (simp_all add: unf splice_def)
  next
    case 3
    let ?off = "off + of_int b" and ?buf = "splice (unat off) data buf"
    have "unat ?off = unat off + length data" using 3 n off unat_plus_of_int [of b off] by simp
    then show ?thesis using 3 n rc buf off by (intro more [of n data ?off ?buf]) (simp_all add: unf splice_def)
  qed
qed

lemma https_recv_loop_returns:
  assumes ok: "recv_ok recv" and "unat off \<le> 2048" "length buf = 2048"
  shows "\<exists>r off' buf' ds. https_recv_loop recv fd k off buf cs = Some (r, off', buf', cs @ ds) \<and>
    (\<forall>c \<in> set ds. \<exists>o' n. c = Https_recv fd o' n \<and> unat o' + unat n = 2048) \<and>
    unat off' \<le> 2048 \<and> length buf' = 2048 \<and>
    take (unat off') buf' = take (unat off) buf @ https_rx recv k ds"
  using assms(2,3)
proof (induction "2 * (2048 - unat off)" arbitrary: k off buf cs rule: less_induct)
  case less
  from ok less.prems show ?case
  proof (cases rule: https_recv_loop_step [of _ _ _ k fd cs])
    case (failed n)
    then show ?thesis using less.prems
      by (intro exI [of _ False] exI [of _ off] exI [of _ buf] exI [of _ "[Https_recv fd off n]"]) simp
  next
    case (closed n)
    then show ?thesis using less.prems
      by (intro exI [of _ True] exI [of _ off] exI [of _ buf] exI [of _ "[Https_recv fd off n]"]) simp
  next
    case (more n data off1 buf1)
    then have "0 < length data" by simp
    then have "2 * (2048 - unat off1) < 2 * (2048 - unat off)" using more(4,5) by linarith
    from less.hyps [OF this more(5,6), of "Suc k" "cs @ [Https_recv fd off n]"] obtain r off' buf' ds where
      r: "https_recv_loop recv fd (Suc k) off1 buf1 (cs @ [Https_recv fd off n]) =
          Some (r, off', buf', (cs @ [Https_recv fd off n]) @ ds)"
        "\<forall>c \<in> set ds. \<exists>o' n. c = Https_recv fd o' n \<and> unat o' + unat n = 2048"
        "unat off' \<le> 2048" "length buf' = 2048" "take (unat off') buf' = take (unat off1) buf1 @ https_rx recv (Suc k) ds" by blast
    then show ?thesis using more less.prems
      by (intro exI [of _ r] exI [of _ off'] exI [of _ buf'] exI [of _ "Https_recv fd off n # ds"]) auto
  qed
qed

subsection \<open>The calls of the transfer loops\<close>

definition transfer_call :: "int \<Rightarrow> https_call \<Rightarrow> bool" where
  "transfer_call fd c \<longleftrightarrow> (\<exists>d. c = Https_send fd d) \<or> (\<exists>off n. c = Https_recv fd off n)"

lemma https_send_loop_calls:
  assumes "https_send_loop send fd msg k off cs = Some y"
  shows "\<exists>ds. snd (snd y) = cs @ ds \<and> list_all (transfer_call fd) ds"
proof (rule https_send_loop.raw_induct [where P = "\<lambda>send fd msg k off cs y.
      \<exists>ds. snd (snd y) = cs @ ds \<and> list_all (transfer_call fd) ds", OF _ assms], goal_cases)
  case (1 f send fd msg k off cs y)
  show ?case using 1(2) by (fastforce simp: Let_def transfer_call_def split: if_splits dest: 1(1))
qed

lemma https_recv_loop_calls:
  assumes "https_recv_loop recv fd k off buf cs = Some y"
  shows "\<exists>ds. snd (snd (snd y)) = cs @ ds \<and> list_all (transfer_call fd) ds"
proof (rule https_recv_loop.raw_induct [where P = "\<lambda>recv fd k off buf cs y.
      \<exists>ds. snd (snd (snd y)) = cs @ ds \<and> list_all (transfer_call fd) ds", OF _ assms], goal_cases)
  case (1 f recv fd k off buf cs y)
  show ?case using 1(2)
    by (fastforce simp: Let_def transfer_call_def split: if_splits prod.splits dest: 1(1))
qed

lemma https_exchange_calls:
  assumes "https_exchange cfg env fd buf = Some (failed, line, buf', cs)"
  shows "list_all (transfer_call fd) cs"
  using assms
  by (auto simp: https_exchange_def Let_def list_all_append split: option.splits bool.splits
      dest!: https_send_loop_calls https_recv_loop_calls)

text \<open>The shape of everything between the lookup and the label.\<close>

lemma https_transfer_calls:
  assumes "https_transfer cfg env res buf = Some (failed, line, fd, buf', cs)"
  shows "fd = he_socket env \<and>
    (\<exists>io. cs = Https_socket (hc_tfm_mbedtls cfg) # (if fd = - 1 then []
       else Https_set_timeouts fd 30 # snd (tls_setup cfg env fd) @
         (if fst (tls_setup cfg env fd) \<noteq> 0 then [] else Https_connect fd res # io)) \<and>
     list_all (transfer_call fd) io \<and> (he_connect env \<noteq> 0 \<longrightarrow> io = []))"
proof (cases "he_socket env = - 1 \<or> fst (tls_setup cfg env (he_socket env)) \<noteq> 0 \<or> he_connect env \<noteq> 0")
  case True
  then show ?thesis using assms
    by (intro conjI exI [of _ "[]"])
      (auto simp: https_transfer_def Let_def split_beta split: if_splits option.splits)
next
  case False
  then show ?thesis using assms
    by (auto simp: https_transfer_def Let_def split_beta split: option.splits dest: https_exchange_calls)
qed

lemma tls_setup_ok:
  "fst (tls_setup cfg env fd) = 0 \<longleftrightarrow>
     he_setsockopt env (Tls_peer_verify 2) = 0 \<and> he_setsockopt env (Tls_sec_tag_list [TLS_SEC_TAG]) = 0 \<and>
     he_setsockopt env (Tls_hostname (hc_hostname cfg)) = 0"
  by (auto simp: tls_setup_def Let_def)

lemma tls_setup_calls:
  "fst (tls_setup cfg env fd) = 0 \<Longrightarrow> snd (tls_setup cfg env fd) =
     [Https_setsockopt fd (Tls_peer_verify 2), Https_setsockopt fd (Tls_sec_tag_list [TLS_SEC_TAG]),
      Https_setsockopt fd (Tls_hostname (hc_hostname cfg))]"
  by (auto simp: tls_setup_def Let_def split: if_splits)

lemma tls_setup_only: "c \<in> set (snd (tls_setup cfg env fd)) \<Longrightarrow> \<exists>opt. c = Https_setsockopt fd opt"
  by (auto simp: tls_setup_def Let_def split: if_splits)

lemma https_lookup_only:
  "c \<in> set (snd (snd (https_lookup cfg env))) \<Longrightarrow>
   c = Https_sleep_sec 2 \<or> c = Https_getaddrinfo (hc_hostname cfg) HTTPS_PORT"
  by (auto simp: https_lookup_def Let_def split: prod.splits if_splits)

subsection \<open>The shape of a request\<close>

definition https_counted :: "https_state \<Rightarrow> https_state" where
  "https_counted s = s\<lparr>https_req_total := https_req_total s + 1\<rparr>"

lemma send_http_request_cases:
  assumes "ht_network_ready s" and "send_http_request cfg env s = Some (s', cs)"
  obtains (lookup_failed) err res c2 cu where
      "https_lookup cfg env = (err, res, c2)" "err \<noteq> 0"
      "https_clean_up True (replicate 64 NUL) (- 1) res (https_counted s) = (s', cu)"
      "cs = Https_metric_set App_https_req_total_count (https_req_total s + 1) # c2 @ cu"
  | (transferred) r c2 failed line fd buf c3 cu where
      "https_lookup cfg env = (0, Some r, c2)"
      "https_transfer cfg env r (recv_buf s) = Some (failed, line, fd, buf, c3)"
      "https_clean_up failed line fd (Some r) ((https_counted s)\<lparr>recv_buf := buf\<rparr>) = (s', cu)"
      "cs = Https_metric_set App_https_req_total_count (https_req_total s + 1) # c2 @ c3 @ cu"
proof -
  obtain err res c2 where l: "https_lookup cfg env = (err, res, c2)" by (metis prod.collapse)
  show thesis
  proof (cases "err = 0")
    case False
    then show thesis using assms l
      by (intro lookup_failed [of err res c2 "snd (https_clean_up True (replicate 64 NUL) (- 1) res
            (https_counted s))"])
        (auto simp: send_http_request_def Let_def https_counted_def split: prod.splits)
  next
    case True
    then obtain r failed line fd buf c3 where "res = Some r"
        "https_transfer cfg env r (recv_buf s) = Some (failed, line, fd, buf, c3)"
      using assms l by (auto simp: send_http_request_def Let_def split: option.splits prod.splits)
    then show thesis using assms l True
      by (intro transferred [of r c2 failed line fd buf c3 "snd (https_clean_up failed line fd (Some r)
            ((https_counted s)\<lparr>recv_buf := buf\<rparr>))"])
        (auto simp: send_http_request_def Let_def https_counted_def split: prod.splits)
  qed
qed

lemma https_clean_up_result:
  assumes "https_clean_up failed line fd res s = (s', cu)"
  shows "s' = s\<lparr>https_req_failures := https_req_failures s + (if failed then 1 else 0)\<rparr>"
    and "Https_log_test ok a b \<in> set cu \<longleftrightarrow>
      ok = (\<not> failed) \<and> a = https_req_total s' - https_req_failures s' \<and> b = https_req_total s'"
    and "\<exists>log. cu = log @ (if fd \<ge> 0 then [Https_shutdown fd, Https_close fd, Https_sleep_msec 100] else [])
        @ free_calls res \<and>
      log = (if failed then [Https_metric_set App_https_req_fail_count (https_req_failures s')] else []) @
        [Https_log_result (if failed then ''FAILED'' else if c_str line \<noteq> [] then c_str line else ''OK'')
           (https_req_total s') (https_req_failures s'),
         Https_log_test (\<not> failed) (https_req_total s' - https_req_failures s') (https_req_total s')]"
  using assms by (auto simp: https_clean_up_def Let_def free_calls_def split: option.splits)

text \<open>Which stages have to succeed for a request to count as passed.\<close>

definition https_stages_ok :: "https_cfg \<Rightarrow> https_env \<Rightarrow> char list \<Rightarrow> bool" where
  "https_stages_ok cfg env buf \<longleftrightarrow>
     fst (https_lookup cfg env) = 0 \<and> he_socket env \<noteq> - 1 \<and>
     he_setsockopt env (Tls_peer_verify 2) = 0 \<and> he_setsockopt env (Tls_sec_tag_list [TLS_SEC_TAG]) = 0 \<and>
     he_setsockopt env (Tls_hostname (hc_hostname cfg)) = 0 \<and> he_connect env = 0 \<and>
     (case https_exchange cfg env (he_socket env) buf of Some (failed, _) \<Rightarrow> \<not> failed | None \<Rightarrow> False)"

lemma https_transfer_failed:
  assumes "https_transfer cfg env r buf = Some (failed, line, fd, buf', c3)"
  shows "failed \<longleftrightarrow> \<not> (he_socket env \<noteq> - 1 \<and>
     he_setsockopt env (Tls_peer_verify 2) = 0 \<and> he_setsockopt env (Tls_sec_tag_list [TLS_SEC_TAG]) = 0 \<and>
     he_setsockopt env (Tls_hostname (hc_hostname cfg)) = 0 \<and> he_connect env = 0 \<and>
     (case https_exchange cfg env (he_socket env) buf of Some (failed, _) \<Rightarrow> \<not> failed | None \<Rightarrow> False))"
  using assms tls_setup_ok [of cfg env "he_socket env"]
  by (auto simp: https_transfer_def Let_def split_beta split: if_splits option.splits)

lemma not_log_test:
  "list_all (transfer_call fd) io \<Longrightarrow> Https_log_test ok a b \<notin> set io"
  by (induction io) (auto simp: transfer_call_def)

lemma https_transfer_no_log:
  assumes "https_transfer cfg env r buf = Some (failed, line, fd, buf', c3)"
  shows "Https_log_test ok a b \<notin> set c3"
  using https_transfer_calls [OF assms]
  by (auto split: if_splits dest: tls_setup_only not_log_test)

text \<open>Calls that give a handle back, and calls that use the socket.\<close>

definition release_call :: "https_call \<Rightarrow> bool" where
  "release_call c \<longleftrightarrow> (\<exists>fd. c = Https_close fd \<or> c = Https_shutdown fd) \<or> (\<exists>r. c = Https_freeaddrinfo r)"

lemma https_transfer_no_release:
  assumes "https_transfer cfg env r buf = Some (failed, line, fd, buf', c3)" "c \<in> set c3"
  shows "\<not> release_call c" and "transfer_call fd' c \<Longrightarrow> fd' = he_socket env \<and> he_socket env \<noteq> - 1"
proof -
  have io: "\<not> release_call c \<and> (transfer_call fd' c \<longrightarrow> fd' = he_socket env)"
    if "list_all (transfer_call (he_socket env)) io" "c \<in> set io" for io
    using that by (auto simp: list_all_iff transfer_call_def release_call_def)
  obtain io where c3: "c3 = Https_socket (hc_tfm_mbedtls cfg) # (if he_socket env = - 1 then []
       else Https_set_timeouts (he_socket env) 30 # snd (tls_setup cfg env (he_socket env)) @
         (if fst (tls_setup cfg env (he_socket env)) \<noteq> 0 then []
          else Https_connect (he_socket env) r # io))" "list_all (transfer_call (he_socket env)) io"
    using https_transfer_calls [OF assms(1)] by auto
  show "\<not> release_call c" and "transfer_call fd' c \<Longrightarrow> fd' = he_socket env \<and> he_socket env \<noteq> - 1"
    using assms(2) c3(1) io [OF c3(2)] tls_setup_only [of c cfg env "he_socket env"]
    by (auto simp: release_call_def transfer_call_def split: if_splits)
qed

lemma https_lookup_res:
  "getaddrinfo_ok (he_getaddrinfo env) \<Longrightarrow> https_lookup cfg env = (0, res, lc) \<Longrightarrow> res \<noteq> None"
  by (auto simp: getaddrinfo_ok_def https_lookup_def Let_def split: prod.splits if_splits)

subsection \<open>A request returns\<close>

definition is_send :: "https_call \<Rightarrow> bool" where
  "is_send c \<longleftrightarrow> (\<exists>fd d. c = Https_send fd d)"

definition is_recv :: "https_call \<Rightarrow> bool" where
  "is_recv c \<longleftrightarrow> (\<exists>fd off n. c = Https_recv fd off n)"

lemma https_wire_skip:
  "list_all (\<lambda>c. \<not> is_send c) xs \<Longrightarrow> https_wire send k (xs @ ys) = https_wire send k ys"
  by (induction send k xs rule: https_wire.induct) (auto simp: is_send_def)

lemma https_wire_done:
  "list_all (\<lambda>c. \<not> is_send c) xs \<Longrightarrow> https_wire send k (ys @ xs) = https_wire send k ys"
proof (induction send k ys rule: https_wire.induct)
  case (1 send k)
  then show ?case using https_wire_skip [of xs send k "[]"] by simp
qed simp_all

lemma https_rx_skip:
  "list_all (\<lambda>c. \<not> is_recv c) xs \<Longrightarrow> https_rx recv k (xs @ ys) = https_rx recv k ys"
  by (induction recv k xs rule: https_rx.induct) (auto simp: is_recv_def)

lemma https_rx_done:
  "list_all (\<lambda>c. \<not> is_recv c) xs \<Longrightarrow> https_rx recv k (ys @ xs) = https_rx recv k ys"
proof (induction recv k ys rule: https_rx.induct)
  case (1 recv k)
  then show ?case using https_rx_skip [of xs recv k "[]"] by simp
qed simp_all

text \<open>What the receive buffer holds after the terminator was written.\<close>

definition recv_buf_holds :: "char list \<Rightarrow> string \<Rightarrow> bool" where
  "recv_buf_holds buf rx \<longleftrightarrow> length buf = 2048 \<and>
     take (min (length rx) 2047) buf = take 2047 rx \<and> buf ! (min (length rx) 2047) = NUL"

lemma terminate_recv_buf_holds:
  assumes "length buf = 2048" "unat off \<le> 2048" "take (unat off) buf = rx"
  shows "recv_buf_holds (terminate_recv_buf off buf) rx"
proof -
  have l: "length rx = unat off" using assms by auto
  have c: "off < of_nat (length buf) \<longleftrightarrow> unat off < 2048" using assms(1) by (simp add: word_less_nat_alt)
  show ?thesis
  proof (cases "unat off < 2048")
    case True
    then show ?thesis using assms l c
      by (auto simp: recv_buf_holds_def terminate_recv_buf_def min_def)
  next
    case False
    then have "buf = rx" using assms by auto
    then show ?thesis using False assms l c
      by (simp add: recv_buf_holds_def terminate_recv_buf_def min_def)
  qed
qed

lemma extract_status_line_terminated:
  "length (extract_status_line buf) = 64 \<and> NUL \<in> set (extract_status_line buf)"
proof -
  have l: "length (splice 0 (take n buf) (replicate 64 NUL)) = 64" if "n < 64" for n
    using that by (subst length_splice) (auto simp: min_def)
  have "length ((splice 0 (take n buf) (replicate 64 NUL))[n := NUL]) = 64 \<and>
      NUL \<in> set ((splice 0 (take n buf) (replicate 64 NUL))[n := NUL])" if "n < 64" for n
    using that l [OF that] by (metis length_list_update set_update_memI)
  then show ?thesis by (auto simp: extract_status_line_def Let_def split: option.splits)
qed

lemma https_exchange_returns:
  assumes "send_ok (he_send env)" "recv_ok (he_recv env)" "length buf = 2048"
    "length (HTTP_HEAD cfg) < 2 ^ 32"
  shows "\<exists>failed line buf' cs. https_exchange cfg env fd buf = Some (failed, line, buf', cs) \<and>
    length buf' = 2048 \<and> (\<forall>fd' off n. Https_recv fd' off n \<in> set cs \<longrightarrow> unat off + unat n = 2048) \<and>
    (\<not> failed \<longrightarrow> https_wire (he_send env) 0 cs = HTTP_HEAD cfg \<and>
       recv_buf_holds buf' (https_rx (he_recv env) 0 cs))"
proof -
  have "unat (0 :: u32) < length (HTTP_HEAD cfg)" by (simp add: HTTP_HEAD_def)
  from https_send_loop_returns [OF assms(1,4) this, of fd 0 "[]"]
  obtain r off ds where s: "https_send_loop (he_send env) fd (HTTP_HEAD cfg) 0 0 [] = Some (r, off, ds)"
    and ds: "\<forall>c \<in> set ds. \<exists>d. c = Https_send fd d" and
    w: "r \<Longrightarrow> https_wire (he_send env) 0 ds = HTTP_HEAD cfg" by auto
  from https_recv_loop_returns [OF assms(2) _ assms(3), of 0 fd 0 ds]
  obtain r' off' buf' es where rl: "https_recv_loop (he_recv env) fd 0 0 buf ds = Some (r', off', buf', ds @ es)"
    and es: "\<forall>c \<in> set es. \<exists>o' n. c = Https_recv fd o' n \<and> unat o' + unat n = 2048"
    and b: "unat off' \<le> 2048" "length buf' = 2048" "take (unat off') buf' = https_rx (he_recv env) 0 es"
    by auto
  have ns: "list_all (\<lambda>c. \<not> is_send c) es" "list_all (\<lambda>c. \<not> is_recv c) ds"
    using es ds by (auto simp: list_all_iff is_send_def is_recv_def)
  have "recv_buf_holds (terminate_recv_buf off' buf') (https_rx (he_recv env) 0 (ds @ es))"
    using terminate_recv_buf_holds [OF b(2,1,3)] https_rx_skip [OF ns(2)] by simp
  moreover have "r \<Longrightarrow> https_wire (he_send env) 0 (ds @ es) = HTTP_HEAD cfg"
    using w https_wire_done [OF ns(1)] by simp
  ultimately have good: "r \<Longrightarrow> https_wire (he_send env) 0 (ds @ es) = HTTP_HEAD cfg \<and>
      recv_buf_holds (terminate_recv_buf off' buf') (https_rx (he_recv env) 0 (ds @ es))" by simp
  have rc: "Https_recv fd' o' n \<in> set (ds @ es) \<Longrightarrow> unat o' + unat n = 2048" for fd' o' n
    using ds es by auto
  consider "\<not> r" | "r" "\<not> r'" | "r" "r'" by blast
  then show ?thesis
  proof cases
    case 1
    then have "https_exchange cfg env fd buf = Some (True, replicate 64 NUL, buf, ds)"
      using s by (simp add: https_exchange_def)
    then show ?thesis using ds assms(3) by fastforce
  next
    case 2
    then have "https_exchange cfg env fd buf = Some (True, replicate 64 NUL, buf', ds @ es)"
      using s rl by (simp add: https_exchange_def)
    then show ?thesis using rc b(2) by blast
  next
    case 3
    let ?b = "terminate_recv_buf off' buf'"
    have "https_exchange cfg env fd buf = Some (False, extract_status_line ?b, ?b, ds @ es)"
      using 3 s rl by (simp add: https_exchange_def Let_def)
    moreover have "length ?b = 2048" using good 3 by (simp add: recv_buf_holds_def)
    ultimately show ?thesis using rc good 3 by blast
  qed
qed

lemma https_transfer_returns:
  assumes "send_ok (he_send env)" "recv_ok (he_recv env)" "length buf = 2048"
    "length (HTTP_HEAD cfg) < 2 ^ 32"
  shows "\<exists>failed line fd buf' cs. https_transfer cfg env r buf = Some (failed, line, fd, buf', cs) \<and>
    length buf' = 2048 \<and> (\<forall>fd' off n. Https_recv fd' off n \<in> set cs \<longrightarrow> unat off + unat n = 2048) \<and>
    (\<not> failed \<longrightarrow> https_wire (he_send env) 0 cs = HTTP_HEAD cfg \<and>
       recv_buf_holds buf' (https_rx (he_recv env) 0 cs))"
proof -
  let ?fd = "he_socket env"
  let ?pre = "Https_socket (hc_tfm_mbedtls cfg) # Https_set_timeouts ?fd 30 #
    snd (tls_setup cfg env ?fd) @ [Https_connect ?fd r]"
  have pre: "list_all (\<lambda>c. \<not> is_send c) ?pre" "list_all (\<lambda>c. \<not> is_recv c) ?pre"
    using tls_setup_only [of _ cfg env ?fd] by (auto simp: list_all_iff is_send_def is_recv_def)
  obtain failed line buf' cs where e: "https_exchange cfg env ?fd buf = Some (failed, line, buf', cs)"
    and p: "length buf' = 2048" "\<forall>fd' off n. Https_recv fd' off n \<in> set cs \<longrightarrow> unat off + unat n = 2048"
      "\<not> failed \<longrightarrow> https_wire (he_send env) 0 cs = HTTP_HEAD cfg \<and>
       recv_buf_holds buf' (https_rx (he_recv env) 0 cs)"
    using https_exchange_returns [OF assms, of ?fd] by blast
  have t: "Https_recv fd' off n \<notin> set (snd (tls_setup cfg env ?fd))" for fd' off n
    using tls_setup_only [of "Https_recv fd' off n" cfg env ?fd] by auto
  show ?thesis
  proof (cases "?fd = - 1 \<or> fst (tls_setup cfg env ?fd) \<noteq> 0 \<or> he_connect env \<noteq> 0")
    case True
    then show ?thesis using t assms(3) by (auto simp: https_transfer_def Let_def split_beta)
  next
    case False
    then have "https_transfer cfg env r buf = Some (failed, line, ?fd, buf', ?pre @ cs)"
      using e by (simp add: https_transfer_def Let_def split_beta)
    moreover have "\<not> failed \<longrightarrow> https_wire (he_send env) 0 (?pre @ cs) = HTTP_HEAD cfg \<and>
        recv_buf_holds buf' (https_rx (he_recv env) 0 (?pre @ cs))"
      using p(3) https_wire_skip [OF pre(1)] https_rx_skip [OF pre(2)] by metis
    moreover have "Https_recv fd' off n \<in> set (?pre @ cs) \<longrightarrow> unat off + unat n = 2048" for fd' off n
      using p(2) t by auto
    ultimately show ?thesis using p(1) by blast
  qed
qed

lemma https_other_calls:
  "list_all (\<lambda>c. \<not> is_send c \<and> \<not> is_recv c) (snd (snd (https_lookup cfg env)))"
  "list_all (\<lambda>c. \<not> is_send c \<and> \<not> is_recv c) (snd (https_clean_up failed line fd res s))"
  "\<not> is_send (Https_metric_set m v)" "\<not> is_recv (Https_metric_set m v)"
  by (auto simp: list_all_iff is_send_def is_recv_def https_lookup_def https_clean_up_def Let_def
      free_calls_def split: prod.splits if_splits option.splits)

text \<open>The calls before and after the transfer are neither sends nor receives.\<close>

lemma https_framed:
  assumes o: "list_all (\<lambda>c. \<not> is_send c \<and> \<not> is_recv c) c1" "list_all (\<lambda>c. \<not> is_send c \<and> \<not> is_recv c) c2"
  shows "https_wire send 0 (c1 @ c3 @ c2) = https_wire send 0 c3" "https_rx recv 0 (c1 @ c3 @ c2) = https_rx recv 0 c3"
    "Https_recv fd off n \<in> set (c1 @ c3 @ c2) \<longleftrightarrow> Https_recv fd off n \<in> set c3"
proof -
  have q: "list_all (\<lambda>c. \<not> is_send c) c1" "list_all (\<lambda>c. \<not> is_send c) c2"
    "list_all (\<lambda>c. \<not> is_recv c) c1" "list_all (\<lambda>c. \<not> is_recv c) c2" using o by (auto simp: list_all_iff)
  show "https_wire send 0 (c1 @ c3 @ c2) = https_wire send 0 c3"
    by (rule trans [OF https_wire_skip [OF q(1)] https_wire_done [OF q(2)]])
  show "https_rx recv 0 (c1 @ c3 @ c2) = https_rx recv 0 c3"
    by (rule trans [OF https_rx_skip [OF q(3)] https_rx_done [OF q(4)]])
  show "Https_recv fd off n \<in> set (c1 @ c3 @ c2) \<longleftrightarrow> Https_recv fd off n \<in> set c3" using o by (auto simp: list_all_iff is_recv_def)
qed

lemma https_request_returns:
  assumes "send_ok (he_send env)" "recv_ok (he_recv env)" "getaddrinfo_ok (he_getaddrinfo env)"
    "length (recv_buf s) = 2048" "length (HTTP_HEAD cfg) < 2 ^ 32" "ht_network_ready s"
  shows "\<exists>s' cs. send_http_request cfg env s = Some (s', cs) \<and> length (recv_buf s') = 2048 \<and>
    (\<forall>fd' off n. Https_recv fd' off n \<in> set cs \<longrightarrow> unat off + unat n = 2048) \<and>
    (https_stages_ok cfg env (recv_buf s) \<longrightarrow> https_wire (he_send env) 0 cs = HTTP_HEAD cfg \<and>
       recv_buf_holds (recv_buf s') (https_rx (he_recv env) 0 cs))"
proof -
  obtain err res c2 where l: "https_lookup cfg env = (err, res, c2)" by (metis prod.collapse)
  have c2: "list_all (\<lambda>c. \<not> is_send c \<and> \<not> is_recv c) c2" using https_other_calls(1) [of cfg env] l by simp
  let ?m = "Https_metric_set App_https_req_total_count (https_req_total s + 1)"
  show ?thesis
  proof (cases "err = 0")
    case False
    obtain s' cu where cu: "https_clean_up True (replicate 64 NUL) (- 1) res
        (s\<lparr>https_req_total := https_req_total s + 1\<rparr>) = (s', cu)" by (metis prod.collapse)
    then have r: "send_http_request cfg env s = Some (s', ?m # c2 @ cu)"
      using False l assms(6) by (simp add: send_http_request_def Let_def)
    have "list_all (\<lambda>c. \<not> is_recv c) (?m # c2 @ cu)"
      using c2 https_other_calls(2) [of True "replicate 64 NUL" "- 1" res] cu https_other_calls(4)
      by (auto simp: list_all_iff) (metis snd_conv)+
    then show ?thesis
      using r False l assms(4) https_clean_up_result(1) [OF cu]
      by (auto simp: https_stages_ok_def list_all_iff is_recv_def)
  next
    case True
    then obtain r where res: "res = Some r" using https_lookup_res [OF assms(3), of cfg res c2] l by auto
    obtain failed line fd buf' c3 where t: "https_transfer cfg env r (recv_buf s) =
        Some (failed, line, fd, buf', c3)" and p: "length buf' = 2048"
      "\<forall>fd' off n. Https_recv fd' off n \<in> set c3 \<longrightarrow> unat off + unat n = 2048"
      "\<not> failed \<longrightarrow> https_wire (he_send env) 0 c3 = HTTP_HEAD cfg \<and>
         recv_buf_holds buf' (https_rx (he_recv env) 0 c3)"
      using https_transfer_returns [OF assms(1,2,4,5)] by blast
    obtain s' cu where cu: "https_clean_up failed line fd res
        (s\<lparr>https_req_total := https_req_total s + 1, recv_buf := buf'\<rparr>) = (s', cu)"
      by (metis prod.collapse)
    then have r: "send_http_request cfg env s = Some (s', (?m # c2) @ c3 @ cu)"
      using True l assms(6) t res by (simp add: send_http_request_def Let_def)
    have o: "list_all (\<lambda>c. \<not> is_send c \<and> \<not> is_recv c) (?m # c2)"
      "list_all (\<lambda>c. \<not> is_send c \<and> \<not> is_recv c) cu"
      using c2 https_other_calls(2) [of failed line fd res] cu https_other_calls(3,4)
      by (auto simp: list_all_iff) (metis snd_conv)+
    have "recv_buf s' = buf'" using https_clean_up_result(1) [OF cu] by simp
    moreover have "https_stages_ok cfg env (recv_buf s) = (\<not> failed)"
      using l True https_transfer_failed [OF t] by (auto simp: https_stages_ok_def)
    ultimately show ?thesis using r p
      by (intro exI [of _ s'] exI [of _ "(?m # c2) @ c3 @ cu"]) (simp add: https_framed [OF o] del: append_Cons set_append)
  qed
qed

subsection \<open>Concrete instances\<close>

text \<open>
  The default configuration of the module, an idle state just after connecting, and a server
  that answers with the given text and closes.
\<close>

definition https_default_cfg :: https_cfg where
  "https_default_cfg = \<lparr>hc_hostname = ''example.com'', hc_request_interval_sec = 300,
     hc_modem_key_mgmt = False, hc_tfm_mbedtls = False, hc_eai_canceled = - 101\<rparr>"

definition https_boot_state :: https_state where
  "https_boot_state = \<lparr>https_client_running = False, ht_network_ready = False,
     ht_has_seen_network_connection = False, https_req_total = 0, https_req_failures = 0,
     recv_buf = replicate 2048 NUL\<rparr>"

definition https_ready_state :: https_state where
  "https_ready_state = https_boot_state\<lparr>https_client_running := True, ht_network_ready := True,
     ht_has_seen_network_connection := True\<rparr>"

definition https_server_env :: "string \<Rightarrow> https_env" where
  "https_server_env answer =
     \<lparr>he_key_exists = (0, False), he_key_cmp = 0, he_key_delete = 0, he_key_write = 0,
      he_credential_add = 0, he_getaddrinfo = (\<lambda>k res. (0, Some 7)), he_socket = 3,
      he_setsockopt = (\<lambda>opt. 0), he_connect = 0,
      he_send = (\<lambda>k n. min 20 (int (unat n))),
      he_recv = (\<lambda>k n. if k = 0 \<and> length answer \<le> unat n then (int (length answer), answer) else (0, [])),
      he_rand32 = 17\<rparr>"

lemma https_server_env_ok:
  "send_ok (he_send (https_server_env a))" "recv_ok (he_recv (https_server_env a))"
  "getaddrinfo_ok (he_getaddrinfo (https_server_env a))"
proof -
  show "send_ok (he_send (https_server_env a))"
    by (auto simp: send_ok_def https_server_env_def min_def unsigned_eq_0_iff)
  show "recv_ok (he_recv (https_server_env a))"
    by (auto simp: recv_ok_def https_server_env_def split: if_splits)
      (metis int_nat_eq nat_int_comparison(3) uint_nat)
  show "getaddrinfo_ok (he_getaddrinfo (https_server_env a))"
    by (auto simp: getaddrinfo_ok_def https_server_env_def)
qed

lemma https_sample_ok:
  "length (recv_buf https_ready_state) = 2048" "length (HTTP_HEAD https_default_cfg) < 2 ^ 32"
  "ht_network_ready https_ready_state" "he_socket (https_server_env a) \<ge> - 1"
  by (simp_all add: https_ready_state_def https_boot_state_def HTTP_HEAD_def https_default_cfg_def
      HTTPS_PORT_def crlf_def https_server_env_def)

lemma https_sample_returns:
  "\<exists>s' cs. send_http_request https_default_cfg (https_server_env a) https_ready_state = Some (s', cs)"
  using https_request_returns [OF https_server_env_ok https_sample_ok(1-3)] by blast

definition https_broken_pipe_env :: https_env where
  "https_broken_pipe_env = (https_server_env [])\<lparr>he_send := (\<lambda>k n. - 1)\<rparr>"

lemma https_broken_pipe_run:
  "\<exists>s' cs. send_http_request https_default_cfg https_broken_pipe_env https_ready_state = Some (s', cs) \<and>
     Https_send 3 (HTTP_HEAD https_default_cfg) \<in> set cs"
proof -
  have h: "length (HTTP_HEAD https_default_cfg) < 2 ^ 32"
    by (simp add: HTTP_HEAD_def https_default_cfg_def HTTPS_PORT_def crlf_def)
  have l: "https_send_loop (\<lambda>k n. - 1) 3 (HTTP_HEAD https_default_cfg) 0 0 [] =
      Some (False, 0, [Https_send 3 (HTTP_HEAD https_default_cfg)])"
    using unat_of_nat_u32 [OF h] by (subst https_send_loop.simps) simp
  show ?thesis
    using l by (simp add: send_http_request_def https_lookup_def https_transfer_def tls_setup_def
        https_exchange_def https_broken_pipe_env_def https_server_env_def https_sample_ok(3) Let_def
        https_default_cfg_def split_beta)
qed

subsection \<open>Properties\<close>

text \<open>
  C10: with a network that makes progress, a request always returns, however the calls fail. It
  never asks for more bytes than the receive buffer has left. When all stages succeed, what the
  peer was handed is exactly the HEAD request, in order and without gaps over however many
  partial sends it took, and the buffer holds what was received, cut after 2047 characters and
  always terminated.
\<close>

theorem https_request_completes:
  assumes "send_ok (he_send env)" and "recv_ok (he_recv env)" and "getaddrinfo_ok (he_getaddrinfo env)"
    and "length (recv_buf s) = 2048" and "length (HTTP_HEAD cfg) < 2 ^ 32" and "ht_network_ready s"
  shows "\<exists>s' cs. send_http_request cfg env s = Some (s', cs) \<and> length (recv_buf s') = 2048 \<and>
    (\<forall>fd' off n. Https_recv fd' off n \<in> set cs \<longrightarrow> unat off + unat n = 2048) \<and>
    (https_stages_ok cfg env (recv_buf s) \<longrightarrow> https_wire (he_send env) 0 cs = HTTP_HEAD cfg \<and>
       recv_buf_holds (recv_buf s') (https_rx (he_recv env) 0 cs))"
  by (rule https_request_returns [OF assms])

theorem https_request_completes_witness:
  "\<exists>s' cs. send_http_request https_default_cfg (https_server_env (''HTTP/1.1 200 OK'' @ crlf @ crlf))
     https_ready_state = Some (s', cs) \<and> length (recv_buf s') = 2048"
  using https_request_completes [OF https_server_env_ok https_sample_ok(1-3)] by blast

text \<open>
  C33: the bookkeeping of a request. With the network marked ready, a request that returns adds
  one to the total and one to the failures exactly when one of its stages failed (lookup, socket,
  the three TLS options, connect, exchange); it logs one verdict, with the counters it leaves
  behind. With the network not ready it does nothing.
\<close>

theorem https_request_accounting:
  assumes "send_http_request cfg env s = Some (s', cs)"
  shows "if ht_network_ready s
    then let ok = https_stages_ok cfg env (recv_buf s)
         in https_req_total s' = https_req_total s + 1 \<and>
            https_req_failures s' = https_req_failures s + (if ok then 0 else 1) \<and>
            (\<forall>v a b. Https_log_test v a b \<in> set cs \<longleftrightarrow>
               v = ok \<and> a = https_req_total s' - https_req_failures s' \<and> b = https_req_total s')
    else s' = s \<and> cs = []"
proof (cases "ht_network_ready s")
  case False
  then show ?thesis using assms by (simp add: send_http_request_def)
next
  case True
  have nl: "Https_log_test v a b \<notin> set c2" if "https_lookup cfg env = (err, res, c2)" for v a b err res c2
    using https_lookup_only [of _ cfg env] that by force
  from True assms show ?thesis
  proof (cases rule: send_http_request_cases)
    case (lookup_failed err res c2 cu)
    then have "\<not> https_stages_ok cfg env (recv_buf s)" by (simp add: https_stages_ok_def)
    then show ?thesis
      using True lookup_failed(4) nl [OF lookup_failed(1)] https_clean_up_result(1,2) [OF lookup_failed(3)]
      by (auto simp: Let_def https_counted_def)
  next
    case (transferred r c2 failed line fd buf c3 cu)
    have "https_stages_ok cfg env (recv_buf s) = (\<not> failed)"
      using transferred(1) https_transfer_failed [OF transferred(2)] by (auto simp: https_stages_ok_def)
    then show ?thesis
      using True transferred(4) nl [OF transferred(1)] https_transfer_no_log [OF transferred(2)]
        https_clean_up_result(1,2) [OF transferred(3)]
      by (auto simp: Let_def https_counted_def)
  qed
qed

theorem https_request_accounting_witness:
  "\<exists>s' cs. send_http_request https_default_cfg (https_server_env []) https_ready_state = Some (s', cs) \<and>
     https_req_total s' = 1"
proof -
  obtain s' cs where r: "send_http_request https_default_cfg (https_server_env []) https_ready_state =
      Some (s', cs)" using https_sample_returns by blast
  have "https_req_total https_ready_state = 0"
    by (simp add: https_ready_state_def https_boot_state_def)
  then show ?thesis using r https_sample_ok(3) https_request_accounting [OF r] by (simp add: Let_def)
qed

text \<open>A transfer that sends or receives went through the TLS options and the connect first.\<close>

lemma https_transfer_tls:
  assumes t: "https_transfer cfg env r buf = Some (failed, line, fd', buf', c3)" and "c \<in> set c3" and "transfer_call fd c"
  shows "\<exists>io. c3 = [Https_socket (hc_tfm_mbedtls cfg), Https_set_timeouts fd 30] @ snd (tls_setup cfg env fd) @ Https_connect fd r # io \<and>
    fst (tls_setup cfg env fd) = 0 \<and> he_connect env = 0"
proof -
  have fd: "fd = he_socket env" "fd \<noteq> - 1" using https_transfer_no_release(2) [OF t assms(2,3)] by auto
  obtain io where io: "fd' = he_socket env" "c3 = Https_socket (hc_tfm_mbedtls cfg) # (if fd' = - 1 then []
       else Https_set_timeouts fd' 30 # snd (tls_setup cfg env fd') @
         (if fst (tls_setup cfg env fd') \<noteq> 0 then [] else Https_connect fd' r # io))" "he_connect env \<noteq> 0 \<longrightarrow> io = []"
    using https_transfer_calls [OF t] by blast
  then have c3: "c3 = Https_socket (hc_tfm_mbedtls cfg) # Https_set_timeouts fd 30 # snd (tls_setup cfg env fd) @
         (if fst (tls_setup cfg env fd) \<noteq> 0 then [] else Https_connect fd r # io)" using fd by simp
  then have "fst (tls_setup cfg env fd) = 0" "io \<noteq> []"
    using assms(2,3) tls_setup_only [of c cfg env fd] by (auto simp: transfer_call_def split: if_splits)
  then show ?thesis using c3 io(3) by auto
qed

text \<open>
  C11: no byte of a request travels before the TLS session is set up: whatever the socket sends or
  receives comes after a successful connect, and right before that connect the socket was told
  to require peer verification, which credentials to use and which host name to check, each
  successfully.
\<close>

theorem https_request_tls_first:
  assumes "send_http_request cfg env s = Some (s', cs)" and "c \<in> set cs" and "transfer_call fd c"
  shows "\<exists>pre r post. cs = pre @ [Https_setsockopt fd (Tls_peer_verify 2),
      Https_setsockopt fd (Tls_sec_tag_list [TLS_SEC_TAG]),
      Https_setsockopt fd (Tls_hostname (hc_hostname cfg)), Https_connect fd r] @ post \<and>
    (\<forall>x \<in> set pre. \<not> transfer_call fd x) \<and> he_connect env = 0 \<and>
    he_setsockopt env (Tls_peer_verify 2) = 0 \<and> he_setsockopt env (Tls_sec_tag_list [TLS_SEC_TAG]) = 0 \<and>
    he_setsockopt env (Tls_hostname (hc_hostname cfg)) = 0"
proof -
  have rdy: "ht_network_ready s" using assms by (auto simp: send_http_request_def split: if_splits)
  have lk: "\<not> transfer_call fd x" if "https_lookup cfg env = (e, res, c2)" "x \<in> set c2" for e res c2 x
    using https_lookup_only [of x cfg env] that by (force simp: transfer_call_def)
  have mt: "\<not> transfer_call fd (Https_metric_set m v)" for m v by (simp add: transfer_call_def)
  have cl: "\<not> transfer_call fd x" if "https_clean_up f l fd' res t = (t', cu)" "x \<in> set cu"
    for f l fd' res t t' cu x
    using that by (auto simp: https_clean_up_def Let_def transfer_call_def free_calls_def
        split: option.splits if_splits)
  from rdy assms(1) show ?thesis
  proof (cases rule: send_http_request_cases)
    case (lookup_failed err res c2 cu)
    then show ?thesis using assms(2,3) lk [OF lookup_failed(1)] cl [OF lookup_failed(3)] mt by auto
  next
    case (transferred r c2 failed line fd' buf c3 cu)
    then have c3: "c \<in> set c3" using assms(2,3) lk [OF transferred(1)] cl [OF transferred(3)] mt by auto
    from https_transfer_tls [OF transferred(2) c3 assms(3)] obtain io where
      io: "c3 = [Https_socket (hc_tfm_mbedtls cfg), Https_set_timeouts fd 30] @ snd (tls_setup cfg env fd) @ Https_connect fd r # io"
      and ok: "fst (tls_setup cfg env fd) = 0" "he_connect env = 0" by blast
    then have "cs = (Https_metric_set App_https_req_total_count (https_req_total s + 1) # c2 @
        [Https_socket (hc_tfm_mbedtls cfg), Https_set_timeouts fd 30]) @
        [Https_setsockopt fd (Tls_peer_verify 2),
         Https_setsockopt fd (Tls_sec_tag_list [TLS_SEC_TAG]),
         Https_setsockopt fd (Tls_hostname (hc_hostname cfg)), Https_connect fd r] @ io @ cu"
      using transferred(4) io tls_setup_calls [OF ok(1)] by simp
    then show ?thesis
      using ok tls_setup_ok [of cfg env fd] lk [OF transferred(1)]
      by (intro exI conjI) (assumption | auto simp: transfer_call_def)+
  qed
qed

theorem https_request_tls_first_witness:
  "\<exists>s' cs pre r post. send_http_request https_default_cfg https_broken_pipe_env https_ready_state =
       Some (s', cs) \<and>
     cs = pre @ [Https_setsockopt 3 (Tls_peer_verify 2),
      Https_setsockopt 3 (Tls_sec_tag_list [TLS_SEC_TAG]),
      Https_setsockopt 3 (Tls_hostname ''example.com''), Https_connect 3 r] @ post"
proof -
  obtain s' cs where r: "send_http_request https_default_cfg https_broken_pipe_env https_ready_state =
      Some (s', cs)" and m: "Https_send 3 (HTTP_HEAD https_default_cfg) \<in> set cs"
    using https_broken_pipe_run by blast
  have "transfer_call 3 (Https_send 3 (HTTP_HEAD https_default_cfg))" by (simp add: transfer_call_def)
  moreover have "hc_hostname https_default_cfg = ''example.com''" by (simp add: https_default_cfg_def)
  ultimately show ?thesis using r https_request_tls_first [OF r m, of 3] by force
qed

text \<open>
  C35: no handle leaks. A request ends by shutting down and closing its socket exactly when one
  was opened, then freeing the lookup result exactly when it holds one; nothing before that
  closes or frees anything, and data only moves on the socket that was opened.
\<close>

theorem https_request_releases:
  assumes "he_socket env \<ge> - 1"
    and "ht_network_ready s" and "send_http_request cfg env s = Some (s', cs)"
    and "https_lookup cfg env = (err, res, lc)"
  shows "\<exists>pre. cs = pre @
      (if err = 0 \<and> he_socket env \<noteq> - 1
       then [Https_shutdown (he_socket env), Https_close (he_socket env), Https_sleep_msec 100]
       else []) @ (case res of Some r \<Rightarrow> [Https_freeaddrinfo r] | None \<Rightarrow> []) \<and>
    (\<forall>c \<in> set pre. \<not> release_call c \<and>
       (transfer_call fd c \<longrightarrow> err = 0 \<and> fd = he_socket env \<and> fd \<noteq> - 1))"
  using assms(2,3)
proof (cases rule: send_http_request_cases)
  case (lookup_failed e r c2 cu)
  obtain log where cu: "cu = log @ free_calls res" and
    log: "\<forall>c \<in> set log. \<not> release_call c \<and> \<not> transfer_call fd c"
    using https_clean_up_result(3) [OF lookup_failed(3)] lookup_failed(1) assms(4)
    by (auto simp: release_call_def transfer_call_def)
  have "\<forall>c \<in> set c2. \<not> release_call c \<and> \<not> transfer_call fd c"
    using https_lookup_only [of _ cfg env] lookup_failed(1) by (force simp: release_call_def transfer_call_def)
  then show ?thesis
    using lookup_failed assms(4) cu log
    by (intro exI [of _ "Https_metric_set App_https_req_total_count (https_req_total s + 1) # c2 @ log"])
      (auto simp: free_calls_def release_call_def transfer_call_def)
next
  case (transferred r c2 failed line fd' buf c3 cu)
  have fd': "fd' = he_socket env" using https_transfer_calls [OF transferred(2)] by simp
  have err: "err = 0" "res = Some r" using transferred(1) assms(4) by auto
  obtain log where cu: "cu = log @ (if fd' \<ge> 0
      then [Https_shutdown fd', Https_close fd', Https_sleep_msec 100] else []) @ free_calls res"
    and log: "\<forall>c \<in> set log. \<not> release_call c \<and> \<not> transfer_call fd c"
    using https_clean_up_result(3) [OF transferred(3)] err
    by (auto simp: release_call_def transfer_call_def)
  have op: "fd' \<ge> 0 \<longleftrightarrow> he_socket env \<noteq> - 1" using fd' assms(1) by auto
  have "\<forall>c \<in> set c2. \<not> release_call c \<and> \<not> transfer_call fd c"
    using https_lookup_only [of _ cfg env] transferred(1) by (force simp: release_call_def transfer_call_def)
  moreover have "\<not> release_call (Https_metric_set m v) \<and> \<not> transfer_call fd (Https_metric_set m v)" for m v
    by (simp add: release_call_def transfer_call_def)
  ultimately show ?thesis
    using transferred(4) cu log err op fd' https_transfer_no_release [OF transferred(2)]
    by (intro exI [of _ "Https_metric_set App_https_req_total_count (https_req_total s + 1) # c2 @ c3 @ log"])
      (auto simp: free_calls_def split: if_splits)
qed

theorem https_request_releases_witness:
  "\<exists>s' cs pre. send_http_request https_default_cfg (https_server_env []) https_ready_state = Some (s', cs) \<and>
     cs = pre @ [Https_shutdown 3, Https_close 3, Https_sleep_msec 100, Https_freeaddrinfo 7]"
proof -
  obtain s' cs where r: "send_http_request https_default_cfg (https_server_env []) https_ready_state =
      Some (s', cs)" using https_sample_returns by blast
  have l: "https_lookup https_default_cfg (https_server_env []) =
      (0, Some 7, [Https_getaddrinfo ''example.com'' ''443''])"
    by (simp add: https_lookup_def https_server_env_def https_default_cfg_def HTTPS_PORT_def)
  have "he_socket (https_server_env []) = 3" by (simp add: https_server_env_def)
  then show ?thesis
    using r https_request_releases [OF https_sample_ok(4,3) r l] by auto
qed

text \<open>
  What a request that the peer refuses with an error status counts as: the transfer of any
  response is a pass, the status line is only logged. A \<^verbatim>\<open>500\<close> answer and an empty answer both
  leave the failure counter alone and log \<^verbatim>\<open>Test: OK\<close>.
\<close>

theorem https_error_status_passes:
  "(case send_http_request https_default_cfg (https_server_env (''HTTP/1.1 500 Oops'' @ crlf @ crlf))
      https_ready_state of
      Some (s', cs) \<Rightarrow> https_req_failures s' = 0 \<and>
        Https_log_result ''HTTP/1.1 500 Oops'' 1 0 \<in> set cs \<and> Https_log_test True 1 1 \<in> set cs
    | None \<Rightarrow> False) \<and>
   (case send_http_request https_default_cfg (https_server_env []) https_ready_state of
      Some (s', cs) \<Rightarrow> https_req_failures s' = 0 \<and> Https_log_test True 1 1 \<in> set cs
    | None \<Rightarrow> False)"
  by code_simp

end
