(* ===== verification/Https_Client.thy ===== *)
theory Https_Client
  imports Https_Request
begin

text \<open>
  The thread and the listeners of the HTTPS client, the second half of
  \<^verbatim>\<open>src/src/modules/app_https_client/app_https_client.c\<close>. The thread function is a machine over
  program points (\<open>https_pc\<close>), one transition per loop head or blocking call, interleaved with the
  connectivity messages (\<open>https_handle\<close>). A request is one transition: between its first test of
  the ready flag and its end it touches only variables that no other context uses.
\<close>

subsection \<open>Initialisation and connectivity messages\<close>

definition app_https_client_init :: "https_state \<Rightarrow> int \<times> https_state" where
  "app_https_client_init s = (0, s\<lparr>https_client_running := True\<rparr>)"

definition app_https_client_notify_connected :: "https_state \<Rightarrow> https_state \<times> https_call list" where
  "app_https_client_notify_connected s =
     (if https_client_running s \<and> \<not> ht_network_ready s
      then (s\<lparr>ht_has_seen_network_connection := True, ht_network_ready := True\<rparr>, [Https_sem_give])
      else (s, []))"

definition app_https_client_notify_disconnected :: "https_state \<Rightarrow> https_state \<times> https_call list" where
  "app_https_client_notify_disconnected s = (s\<lparr>ht_network_ready := False\<rparr>, [])"

definition app_https_wifi_listener :: "(wifi_msg_type, https_state, https_call) machine" where
  "app_https_wifi_listener m s =
     (if m = WIFI_STA_CONNECTED then app_https_client_notify_connected s
      else if m = WIFI_STA_DISCONNECTED then app_https_client_notify_disconnected s
      else (s, []))"

subsection \<open>The client thread\<close>

definition HTTPS_DNS_CHECK_INTERVAL_SEC :: int where "HTTPS_DNS_CHECK_INTERVAL_SEC = 10"
definition https_dns_timeout :: int where "https_dns_timeout = 300"

datatype https_pc =
    HC_while_running
  | HC_sem_take
  | HC_after_sem
  | HC_provision
  | HC_dns_while int
  | HC_dns_check int
  | HC_dns_sleep int
  | HC_after_dns
  | HC_initial_sleep
  | HC_after_delay
  | HC_request_while
  | HC_request
  | HC_request_sleep
  | HC_request_done
  | HC_exit
  | HC_hung

text \<open>
  \<open>cert\<close> is the local \<^verbatim>\<open>cert_provisioned\<close>. \<open>HC_hung\<close> is a request that does not return: the
  thread stays in it for ever, and what it had done by then (the first line of the request counts it) is not followed further.
\<close>

fun app_https_client_thread ::
  "https_cfg \<Rightarrow> https_env \<Rightarrow> https_pc \<Rightarrow> bool \<Rightarrow> https_state \<Rightarrow>
     https_pc \<times> bool \<times> https_state \<times> https_call list" where
  "app_https_client_thread cfg env HC_while_running cert s =
     (if https_client_running s
      then (HC_sem_take, cert, s, [Https_sem_take (hc_request_interval_sec cfg)])
      else (HC_exit, cert, s, []))"
| "app_https_client_thread cfg env HC_sem_take cert s = (HC_after_sem, cert, s, [])"
| "app_https_client_thread cfg env HC_after_sem cert s =
     (if \<not> https_client_running s then (HC_exit, cert, s, [])
      else if \<not> ht_network_ready s
      then (if ht_has_seen_network_connection s
            then let (s', cs) = https_record_failed_attempt s in (HC_while_running, cert, s', cs)
            else (HC_while_running, cert, s, []))
      else if \<not> cert then (HC_provision, cert, s, [])
      else (HC_dns_while 0, cert, s, []))"
| "app_https_client_thread cfg env HC_provision cert s =
     (let (err, cs) = cert_provision cfg env
      in if err \<noteq> 0 then (HC_while_running, cert, s\<lparr>ht_network_ready := False\<rparr>, cs)
         else (HC_dns_while 0, True, s, cs))"
| "app_https_client_thread cfg env (HC_dns_while t) cert s =
     (if ht_network_ready s then (HC_dns_check t, cert, s, []) else (HC_after_dns, cert, s, []))"
| "app_https_client_thread cfg env (HC_dns_check t) cert s =
     (let (ready, cs) = https_check_dns_ready cfg env
      in if ready then (HC_after_dns, cert, s, cs)
         else if t \<ge> https_dns_timeout then (HC_after_dns, cert, s, cs)
         else (HC_dns_sleep t, cert, s, cs @ [Https_sleep_sec (of_int HTTPS_DNS_CHECK_INTERVAL_SEC)]))"
| "app_https_client_thread cfg env (HC_dns_sleep t) cert s =
     (HC_dns_while (t + HTTPS_DNS_CHECK_INTERVAL_SEC), cert, s, [])"
| "app_https_client_thread cfg env HC_after_dns cert s =
     (if \<not> ht_network_ready s then (HC_while_running, cert, s, [])
      else let initial_delay =
                 https_random_initial_delay_sec (he_rand32 env) (hc_request_interval_sec cfg)
           in if initial_delay > 0 then (HC_initial_sleep, cert, s, [Https_sleep_sec initial_delay])
              else (HC_after_delay, cert, s, []))"
| "app_https_client_thread cfg env HC_initial_sleep cert s = (HC_after_delay, cert, s, [])"
| "app_https_client_thread cfg env HC_after_delay cert s =
     (if \<not> ht_network_ready s then (HC_while_running, cert, s, [])
      else (HC_request_while, cert, s, []))"
| "app_https_client_thread cfg env HC_request_while cert s =
     (if https_client_running s \<and> ht_network_ready s then (HC_request, cert, s, [])
      else (HC_request_done, cert, s, []))"
| "app_https_client_thread cfg env HC_request cert s =
     (case send_http_request cfg env s of
        None \<Rightarrow> (HC_hung, cert, s, [])
      | Some (s', cs) \<Rightarrow>
          (HC_request_sleep, cert, s', cs @ [Https_sleep_sec (hc_request_interval_sec cfg)]))"
| "app_https_client_thread cfg env HC_request_sleep cert s = (HC_request_while, cert, s, [])"
| "app_https_client_thread cfg env HC_request_done cert s =
     (if ht_has_seen_network_connection s
      then let (s', cs) = https_record_failed_attempt s in (HC_while_running, cert, s', cs)
      else (HC_while_running, cert, s, []))"
| "app_https_client_thread cfg env HC_exit cert s = (HC_exit, cert, s, [])"
| "app_https_client_thread cfg env HC_hung cert s = (HC_hung, cert, s, [])"

subsection \<open>Interleaving with the connectivity messages\<close>

datatype https_input = Https_thread https_env | Https_wifi wifi_msg_type

record https_system =
  hs_pc :: https_pc
  hs_cert :: bool
  hs_state :: https_state

definition https_handle :: "https_cfg \<Rightarrow> (https_input, https_system, https_call) machine" where
  "https_handle cfg i x =
     (case i of
        Https_thread env \<Rightarrow>
          (let (pc, cert, s, cs) = app_https_client_thread cfg env (hs_pc x) (hs_cert x) (hs_state x)
           in (x\<lparr>hs_pc := pc, hs_cert := cert, hs_state := s\<rparr>, cs))
      | Https_wifi m \<Rightarrow>
          (let (s, cs) = app_https_wifi_listener m (hs_state x) in (x\<lparr>hs_state := s\<rparr>, cs)))"

definition https_initial :: https_system where
  "https_initial = \<lparr>hs_pc = HC_while_running, hs_cert = False,
     hs_state = snd (app_https_client_init https_boot_state)\<rparr>"

inductive https_reachable :: "https_cfg \<Rightarrow> https_system \<Rightarrow> https_call list \<Rightarrow> bool" for cfg where
  https_reach_init: "https_reachable cfg https_initial []"
| https_reach_step: "https_reachable cfg x cs \<Longrightarrow> https_handle cfg i x = (y, ds) \<Longrightarrow>
    https_reachable cfg y (cs @ ds)"

subsection \<open>The client as a connectivity-driven client\<close>

lemmas https_listener_defs = app_https_wifi_listener_def app_https_client_notify_connected_def
  app_https_client_notify_disconnected_def

interpretation https_link: wifi_client app_https_wifi_listener https_client_running
  ht_network_ready ht_has_seen_network_connection "\<lambda>c. c = Https_sem_give"
  by unfold_locales (auto simp: https_listener_defs)

subsection \<open>Verdicts and counters\<close>

fun is_test :: "https_call \<Rightarrow> bool" where
  "is_test (Https_log_test v a b) = True"
| "is_test _ = False"

fun is_ok_test :: "https_call \<Rightarrow> bool" where
  "is_ok_test (Https_log_test v a b) = v"
| "is_ok_test _ = False"

fun https_metric_of :: "https_call \<Rightarrow> (https_metric \<times> u32) option" where
  "https_metric_of (Https_metric_set k v) = Some (k, v)"
| "https_metric_of _ = None"

fun https_counter :: "https_metric \<Rightarrow> https_state \<Rightarrow> u32" where
  "https_counter App_https_req_total_count s = https_req_total s"
| "https_counter App_https_req_fail_count s = https_req_failures s"

text \<open>Calls that neither log a verdict nor set a metric.\<close>

definition neutral_call :: "https_call \<Rightarrow> bool" where
  "neutral_call c \<longleftrightarrow> \<not> is_test c \<and> \<not> is_ok_test c \<and> https_metric_of c = None"

lemma neutral_filter:
  "list_all neutral_call cs \<Longrightarrow> filter is_test cs = [] \<and> filter is_ok_test cs = []"
  by (induction cs) (auto simp: neutral_call_def)

lemma neutral_metric: "list_all neutral_call cs \<Longrightarrow> last_metric https_metric_of k cs = None"
  by (induction cs) (auto simp: neutral_call_def)

lemma neutral_transfer: "transfer_call fd c \<Longrightarrow> neutral_call c"
  by (auto simp: transfer_call_def neutral_call_def)

lemma neutral_lookup: "list_all neutral_call (snd (snd (https_lookup cfg env)))"
  using https_lookup_only [of _ cfg env] by (auto simp: list_all_iff neutral_call_def dest!: https_lookup_only)

lemma neutral_https_transfer:
  assumes "https_transfer cfg env r buf = Some (failed, line, fd, buf', c3)"
  shows "list_all neutral_call c3"
proof -
  obtain io where c3: "c3 = Https_socket (hc_tfm_mbedtls cfg) # (if fd = - 1 then []
       else Https_set_timeouts fd 30 # snd (tls_setup cfg env fd) @
         (if fst (tls_setup cfg env fd) \<noteq> 0 then [] else Https_connect fd r # io))"
    and io: "list_all (transfer_call fd) io" using https_transfer_calls [OF assms] by blast
  have "list_all neutral_call io" using io neutral_transfer by (auto simp: list_all_iff)
  moreover have "list_all neutral_call (snd (tls_setup cfg env fd))"
    using tls_setup_only [of _ cfg env fd] by (fastforce simp: list_all_iff neutral_call_def)
  ultimately show ?thesis using c3 by (simp add: neutral_call_def)
qed

text \<open>A request's verdicts and metrics, however it went.\<close>

lemma send_http_request_effects:
  assumes "send_http_request cfg env s = Some (s', cs)"
  shows "https_req_total s' = https_req_total s + of_nat (length (filter is_test cs)) \<and>
    https_req_total s' - https_req_failures s' =
      https_req_total s - https_req_failures s + of_nat (length (filter is_ok_test cs)) \<and>
    (\<forall>k. (case last_metric https_metric_of k cs of None \<Rightarrow> https_counter k s | Some v \<Rightarrow> v) =
       https_counter k s') \<and>
    https_client_running s' = https_client_running s \<and> ht_network_ready s' = ht_network_ready s \<and>
    ht_has_seen_network_connection s' = ht_has_seen_network_connection s"
proof (cases "ht_network_ready s")
  case False
  then show ?thesis using assms by (simp add: send_http_request_def)
next
  case True
  have cu: "filter is_test (pre @ cu) = [Https_log_test (\<not> failed) (https_req_total t' - https_req_failures t')
          (https_req_total t')] \<and>
      length (filter is_ok_test (pre @ cu)) = (if failed then 0 else 1) \<and>
      (\<forall>k. last_metric https_metric_of k (pre @ cu) =
        (case k of App_https_req_fail_count \<Rightarrow> (if failed then Some (https_req_failures t') else None)
         | _ \<Rightarrow> None))"
    if "https_clean_up failed line fd res t = (t', cu)" "list_all neutral_call pre"
    for failed line fd res t t' cu pre
  proof -
    have fr: "list_all neutral_call (free_calls res)"
      by (auto simp: free_calls_def neutral_call_def split: option.splits)
    show ?thesis
      using https_clean_up_result(3) [OF that(1)] neutral_filter [OF that(2)] neutral_metric [OF that(2)]
        neutral_filter [OF fr] neutral_metric [OF fr]
      by (auto simp: last_metric_append split: https_metric.splits)
  qed
  from True assms show ?thesis
  proof (cases rule: send_http_request_cases)
    case (lookup_failed err res c2 cu')
    have "list_all neutral_call c2" using neutral_lookup [of cfg env] lookup_failed(1) by simp
    from cu [OF lookup_failed(3) this] show ?thesis
      using lookup_failed(4) https_clean_up_result(1) [OF lookup_failed(3)]
      by (auto simp: https_counted_def split: https_metric.splits)
  next
    case (transferred r c2 failed line fd buf c3 cu')
    have "list_all neutral_call (c2 @ c3)"
      using neutral_lookup [of cfg env] transferred(1) neutral_https_transfer [OF transferred(2)] by simp
    from cu [OF transferred(3) this] show ?thesis
      using transferred(4) https_clean_up_result(1) [OF transferred(3)]
      by (auto simp: https_counted_def split: https_metric.splits)
  qed
qed

subsection \<open>One step\<close>

definition https_effects_ok :: "https_state \<Rightarrow> https_call list \<Rightarrow> https_state \<Rightarrow> bool" where
  "https_effects_ok s cs s' \<longleftrightarrow>
    https_req_total s' = https_req_total s + of_nat (length (filter is_test cs)) \<and>
    https_req_total s' - https_req_failures s' =
      https_req_total s - https_req_failures s + of_nat (length (filter is_ok_test cs)) \<and>
    (\<forall>k. (case last_metric https_metric_of k cs of None \<Rightarrow> https_counter k s | Some v \<Rightarrow> v) =
       https_counter k s')"

lemma https_effects_neutral:
  "list_all neutral_call cs \<Longrightarrow> https_req_total s' = https_req_total s \<Longrightarrow>
   https_req_failures s' = https_req_failures s \<Longrightarrow> https_effects_ok s cs s'"
proof -
  assume a: "list_all neutral_call cs" "https_req_total s' = https_req_total s"
    "https_req_failures s' = https_req_failures s"
  then have "https_counter k s' = https_counter k s" for k by (cases k) simp_all
  then show ?thesis using a neutral_filter [of cs] neutral_metric [of cs] by (simp add: https_effects_ok_def)
qed

lemma https_record_effects:
  assumes "https_record_failed_attempt s = (s', cs)"
  shows "https_effects_ok s cs s'"
proof -
  have "(case last_metric https_metric_of k cs of None \<Rightarrow> https_counter k s | Some v \<Rightarrow> v) =
      https_counter k s'" for k
    using assms by (cases k) (auto simp: https_record_failed_attempt_def Let_def)
  then show ?thesis
    using assms by (auto simp: https_record_failed_attempt_def https_effects_ok_def Let_def)
qed

lemma https_request_effects:
  assumes "send_http_request cfg env s = Some (s', cs)"
  shows "https_effects_ok s (cs @ [Https_sleep_sec n]) s'"
  using send_http_request_effects [OF assms]
  by (auto simp: https_effects_ok_def last_metric_append)

lemma neutral_provision: "list_all neutral_call (snd (cert_provision cfg env))"
  by (auto simp: cert_provision_def neutral_call_def Let_def split: prod.splits)

lemma neutral_dns: "list_all neutral_call (snd (https_check_dns_ready cfg env))"
  by (auto simp: https_check_dns_ready_def neutral_call_def Let_def free_calls_def split: prod.splits option.splits)

lemma https_thread_effects:
  assumes "app_https_client_thread cfg env pc cert s = (pc', cert', s', cs)"
  shows "https_effects_ok s cs s'"
proof -
  have n: "neutral_call (Https_sleep_sec k)" "neutral_call (Https_sem_take k)" for k
    by (simp_all add: neutral_call_def)
  note nn = n neutral_provision [of cfg env] neutral_dns [of cfg env]
  have id: "https_effects_ok s [] s" by (rule https_effects_neutral) simp_all
  consider "pc = HC_request" | "pc = HC_after_sem \<or> pc = HC_request_done"
    | "pc \<noteq> HC_request" "pc \<noteq> HC_after_sem" "pc \<noteq> HC_request_done" by blast
  then show ?thesis
  proof cases
    case 1
    then show ?thesis using assms id https_request_effects [of cfg env s]
      by (auto split: option.splits)
  next
    case 2
    then show ?thesis using assms id
      by (auto simp: Let_def split: prod.splits if_splits dest: https_record_effects)
  next
    case 3
    then show ?thesis using assms nn
      by (cases pc) (auto simp: Let_def split: prod.splits if_splits intro!: https_effects_neutral)
  qed
qed

lemma https_handle_effects:
  assumes "https_handle cfg i x = (y, cs)"
  shows "https_effects_ok (hs_state x) cs (hs_state y)"
proof (cases i)
  case (Https_thread env)
  obtain pc cert s' ds where "app_https_client_thread cfg env (hs_pc x) (hs_cert x) (hs_state x) =
      (pc, cert, s', ds)" by (metis prod.collapse)
  then show ?thesis
    using assms Https_thread https_thread_effects [of cfg env "hs_pc x"] by (auto simp: https_handle_def)
next
  case (Https_wifi m)
  then show ?thesis using assms
    by (intro https_effects_neutral)
      (auto simp: https_handle_def https_listener_defs neutral_call_def split: if_splits)
qed

interpretation https_meter: metered_machine "https_handle cfg" https_metric_of
  "\<lambda>k x. https_counter k (hs_state x)" for cfg
proof
  fix k i and x :: https_system
  show "(case last_metric https_metric_of k (snd (https_handle cfg i x)) of
      None \<Rightarrow> https_counter k (hs_state x) | Some v \<Rightarrow> v) =
    https_counter k (hs_state (fst (https_handle cfg i x)))"
    using https_handle_effects [of cfg i x] unfolding https_effects_ok_def
    by (metis prod.collapse)
qed

subsection \<open>Invariants of the thread\<close>

fun https_pc_ok :: "https_pc \<Rightarrow> bool \<Rightarrow> bool" where
  "https_pc_ok HC_while_running cert = True"
| "https_pc_ok HC_sem_take cert = True"
| "https_pc_ok HC_after_sem cert = True"
| "https_pc_ok HC_provision cert = (\<not> cert)"
| "https_pc_ok (HC_dns_while t) cert = (cert \<and> 0 \<le> t \<and> t \<le> 300 \<and> 10 dvd t)"
| "https_pc_ok (HC_dns_check t) cert = (cert \<and> 0 \<le> t \<and> t \<le> 300 \<and> 10 dvd t)"
| "https_pc_ok (HC_dns_sleep t) cert = (cert \<and> 0 \<le> t \<and> t < 300 \<and> 10 dvd t)"
| "https_pc_ok HC_exit cert = True"
| "https_pc_ok _ cert = cert"

fun cert_call :: "https_call \<Rightarrow> bool" where
  "cert_call (Tls_credential_add n) = True"
| "cert_call (Modem_key_mgmt_exists n) = True"
| "cert_call _ = False"

definition https_inv :: "https_system \<Rightarrow> https_call list \<Rightarrow> bool" where
  "https_inv x cs \<longleftrightarrow> https_pc_ok (hs_pc x) (hs_cert x) \<and> https_client_running (hs_state x) \<and>
     (ht_network_ready (hs_state x) \<longrightarrow> ht_has_seen_network_connection (hs_state x)) \<and>
     (hs_cert x \<longrightarrow> (\<exists>c \<in> set cs. cert_call c))"

lemma cert_provision_calls: "\<exists>c \<in> set (snd (cert_provision cfg env)). cert_call c"
  by (auto simp: cert_provision_def Let_def split: prod.splits)

lemma dvd10_bound: "10 dvd (t :: int) \<Longrightarrow> t < 300 \<Longrightarrow> t + 10 \<le> 300"
  by presburger

lemma https_inv_step:
  assumes "https_inv x cs" "https_handle cfg i x = (y, ds)"
  shows "https_inv y (cs @ ds)"
proof (cases i)
  case (Https_wifi m)
  then show ?thesis using assms
    by (auto simp: https_inv_def https_handle_def https_listener_defs split: if_splits)
next
  case (Https_thread env)
  show ?thesis
    using assms Https_thread cert_provision_calls [of cfg env] send_http_request_effects [of cfg env "hs_state x"]
    by (cases "hs_pc x") (auto simp: https_inv_def https_handle_def https_record_failed_attempt_def Let_def
        https_dns_timeout_def HTTPS_DNS_CHECK_INTERVAL_SEC_def dvd10_bound
        split: prod.splits if_splits option.splits)
qed

lemma https_reachable_inv: "https_reachable cfg x cs \<Longrightarrow> https_inv x cs"
proof (induction rule: https_reachable.induct)
  case https_reach_init
  show ?case by (simp add: https_inv_def https_initial_def app_https_client_init_def https_boot_state_def)
qed (rule https_inv_step)

subsection \<open>Properties\<close>

text \<open>
  Over any sequence of connectivity messages the HTTPS client's ready flag is the state of the
  link, the thread is woken once per link that comes up (repeated connected messages wake it only
  once), and it remembers that it has ever been connected.
\<close>

theorem https_listener_tracks_link:
  assumes "https_client_running s" and "ht_network_ready s \<longrightarrow> ht_has_seen_network_connection s"
    and "run_machine app_https_wifi_listener ms s = (s', cs)"
  shows "ht_network_ready s' = link_after (ht_network_ready s) ms \<and>
    length (filter (\<lambda>c. c = Https_sem_give) cs) = rising_edges (ht_network_ready s) ms \<and>
    ht_has_seen_network_connection s' =
      (ht_has_seen_network_connection s \<or> WIFI_STA_CONNECTED \<in> set ms)"
  using https_link.ready_run [OF assms(1), of ms] https_link.wakes_run [OF assms(1), of ms]
    https_link.seen_run [OF assms(1,2), of ms] assms(3)
  by simp

theorem https_listener_tracks_link_witness:
  "\<exists>s' cs. run_machine app_https_wifi_listener
      [WIFI_STA_CONNECTED, WIFI_STA_CONNECTED, WIFI_STA_DISCONNECTED, WIFI_STA_CONNECTED]
      (hs_state https_initial) = (s', cs) \<and> ht_network_ready s' \<and>
    length (filter (\<lambda>c. c = Https_sem_give) cs) = 2"
proof -
  let ?ms = "[WIFI_STA_CONNECTED, WIFI_STA_CONNECTED, WIFI_STA_DISCONNECTED, WIFI_STA_CONNECTED]"
  obtain s' cs where r: "run_machine app_https_wifi_listener ?ms (hs_state https_initial) = (s', cs)"
    by (metis prod.collapse)
  have i: "https_client_running (hs_state https_initial)" "\<not> ht_network_ready (hs_state https_initial)"
    by (simp_all add: https_initial_def app_https_client_init_def https_boot_state_def)
  show ?thesis using r https_listener_tracks_link [OF i(1) _ r] i(2) by simp
qed

text \<open>
  C34: in every execution of the client, from boot and under any interleaving of its thread with
  connectivity messages, the number of verdicts logged so far is the total counter and the number
  of \<^verbatim>\<open>Test: OK\<close> verdicts is the total minus the failures (both modulo \<open>2 ^ 32\<close>, the width of the
  counters), so the ratio in the log line and in Memfault is the true one.
\<close>

theorem https_verdicts_counted:
  assumes "https_reachable cfg x cs"
  shows "https_req_total (hs_state x) = of_nat (length (filter is_test cs)) \<and>
    https_req_total (hs_state x) - https_req_failures (hs_state x) =
      of_nat (length (filter is_ok_test cs))"
  using assms
proof (induction rule: https_reachable.induct)
  case https_reach_init
  show ?case by (simp add: https_initial_def app_https_client_init_def https_boot_state_def)
next
  case (https_reach_step x cs i y ds)
  have "https_effects_ok (hs_state x) ds (hs_state y)" using https_handle_effects https_reach_step(2) .
  then have t: "https_req_total (hs_state y) =
      https_req_total (hs_state x) + of_nat (length (filter is_test ds))"
    and o: "https_req_total (hs_state y) - https_req_failures (hs_state y) =
      https_req_total (hs_state x) - https_req_failures (hs_state x) + of_nat (length (filter is_ok_test ds))"
    unfolding https_effects_ok_def by blast+
  show ?case
    unfolding o filter_append length_append of_nat_add using https_reach_step.IH
    by (intro conjI) (metis t, metis)
qed

lemma https_run_reachable:
  "https_reachable cfg x cs \<Longrightarrow> run_machine (https_handle cfg) is x = (y, ds) \<Longrightarrow>
   https_reachable cfg y (cs @ ds)"
proof (induction "is" arbitrary: x cs ds)
  case (Cons i js)
  obtain x1 d1 where s: "https_handle cfg i x = (x1, d1)" by (metis prod.collapse)
  obtain y2 d2 where r: "run_machine (https_handle cfg) js x1 = (y2, d2)" by (metis prod.collapse)
  have e: "y2 = y" and ds: "ds = d1 @ d2" using Cons.prems(2) s r by (simp_all add: run_machine.simps(2))
  have "https_reachable cfg x1 (cs @ d1)" using https_reach_step [OF Cons.prems(1) s] .
  from Cons.IH [OF this] r show ?case using e ds by simp
qed simp

text \<open>A run in which the link comes up, goes down before the thread looks, and an interval passes.\<close>

definition https_flap :: "https_input list" where
  "https_flap = [Https_thread https_broken_pipe_env, Https_wifi WIFI_STA_CONNECTED,
     Https_wifi WIFI_STA_DISCONNECTED, Https_thread https_broken_pipe_env,
     Https_thread https_broken_pipe_env]"

definition https_flap_end :: "https_system \<times> https_call list" where
  "https_flap_end = run_machine (https_handle https_default_cfg) https_flap https_initial"

lemma https_flap_reachable: "https_reachable https_default_cfg (fst https_flap_end) (snd https_flap_end)"
  using https_run_reachable [OF https_reach_init, of https_default_cfg https_flap]
  by (simp add: https_flap_end_def)

lemma https_flap_total: "https_req_total (hs_state (fst https_flap_end)) = 1"
  by (simp add: https_flap_end_def https_flap_def https_handle_def https_initial_def Let_def
      app_https_client_init_def https_boot_state_def https_listener_defs https_record_failed_attempt_def)

theorem https_verdicts_counted_witness:
  "of_nat (length (filter is_test (snd https_flap_end))) = (1 :: u32)"
  using https_verdicts_counted [OF https_flap_reachable] https_flap_total by simp

lemma https_socket_only_request:
  assumes "https_handle cfg i x = (y, ds)" "Https_socket b \<in> set ds"
  shows "hs_pc x = HC_request"
proof (cases i)
  case (Https_wifi m)
  then show ?thesis using assms by (auto simp: https_handle_def https_listener_defs split: if_splits)
next
  case (Https_thread env)
  have "Https_socket b \<notin> set (snd (cert_provision cfg env))"
    "Https_socket b \<notin> set (snd (https_check_dns_ready cfg env))"
    "Https_socket b \<notin> set (snd (https_record_failed_attempt s))" for s
    by (auto simp: cert_provision_def https_check_dns_ready_def https_record_failed_attempt_def
        free_calls_def Let_def split: prod.splits option.splits)
  then show ?thesis using assms Https_thread
    by (cases "hs_pc x") (auto simp: https_handle_def Let_def split_beta split: if_splits)
qed

text \<open>
  In every execution a socket is only opened after a CA certificate call was made and
  provisioning succeeded, and the wait for the resolver is bounded: its counter stays within the
  multiples of ten from 0 to 300, and it only sleeps again below 300, so at most 30 times.
\<close>

theorem https_thread_discipline:
  assumes "https_reachable cfg x cs"
  shows "(\<forall>pre b post. cs = pre @ Https_socket b # post \<longrightarrow> (\<exists>c \<in> set pre. cert_call c)) \<and>
    (hs_pc x = HC_request \<longrightarrow> hs_cert x) \<and>
    (hs_pc x = HC_dns_sleep t \<longrightarrow> 0 \<le> t \<and> t < 300 \<and> 10 dvd t)"
proof -
  have "(\<exists>c \<in> set pre. cert_call c)" if "cs = pre @ Https_socket b # post" for pre b post
    using assms that
  proof (induction arbitrary: pre post rule: https_reachable.induct)
    case (https_reach_step x cs i y ds)
    show ?case
    proof (cases "length pre < length cs")
      case True
      then obtain p where "cs = pre @ Https_socket b # p"
        using https_reach_step.prems by (auto simp: append_eq_append_conv2 append_eq_Cons_conv)
      then show ?thesis using https_reach_step.IH by blast
    next
      case False
      then obtain p where p: "pre = cs @ p" "ds = p @ Https_socket b # post"
        using https_reach_step.prems by (auto simp: append_eq_append_conv2 append_eq_Cons_conv)
      then have "Https_socket b \<in> set ds" by simp
      then have "hs_pc x = HC_request" using https_socket_only_request https_reach_step.hyps(2) by blast
      moreover have "https_inv x cs" using https_reachable_inv https_reach_step.hyps(1) .
      ultimately show ?thesis using p(1) by (auto simp: https_inv_def)
    qed
  qed simp
  then show ?thesis using https_reachable_inv [OF assms] by (auto simp: https_inv_def)
qed

theorem https_thread_discipline_witness:
  "\<not> (\<exists>pre b post. snd https_flap_end = pre @ Https_socket b # post)"
proof
  assume "\<exists>pre b post. snd https_flap_end = pre @ Https_socket b # post"
  then obtain pre b post where e: "snd https_flap_end = pre @ Https_socket b # post" by blast
  then have "\<exists>c \<in> set (snd https_flap_end). cert_call c"
    using https_thread_discipline [OF https_flap_reachable] by fastforce
  then show False
    by (auto simp: https_flap_end_def https_flap_def https_handle_def https_initial_def Let_def
      app_https_client_init_def https_boot_state_def https_listener_defs https_record_failed_attempt_def)
qed

lemma https_paused_step:
  assumes "\<not> ht_network_ready (hs_state x)" "hs_pc x \<in> {HC_while_running, HC_sem_take, HC_after_sem, HC_exit}"
    "https_handle cfg (Https_thread env) x = (y, ds)"
  shows "\<not> ht_network_ready (hs_state y) \<and> hs_pc y \<in> {HC_while_running, HC_sem_take, HC_after_sem, HC_exit} \<and>
    (\<forall>c \<in> set ds. \<not> cert_call c \<and> (\<forall>h p. c \<noteq> Https_getaddrinfo h p))"
  using assms by (auto simp: https_handle_def https_record_failed_attempt_def Let_def split: if_splits)

lemma https_paused_run:
  assumes "\<not> ht_network_ready (hs_state x)" "hs_pc x \<in> {HC_while_running, HC_sem_take, HC_after_sem, HC_exit}"
  shows "\<not> ht_network_ready (hs_state (fst (run_machine (https_handle cfg) (map Https_thread envs) x))) \<and>
    (\<forall>c \<in> set (snd (run_machine (https_handle cfg) (map Https_thread envs) x)).
       \<not> cert_call c \<and> (\<forall>h p. c \<noteq> Https_getaddrinfo h p))"
  using assms
proof (induction envs arbitrary: x)
  case (Cons env envs)
  obtain x1 d1 where s: "https_handle cfg (Https_thread env) x = (x1, d1)" by (metis prod.collapse)
  note st = https_paused_step [OF Cons.prems s]
  then show ?case using Cons.IH [of x1] s by auto
qed simp

text \<open>
  A failed certificate provisioning pauses the client until the link is lost and comes back:
  while it stays up (no further connectivity message) the thread never provisions again and never
  looks a host up again, whatever the libraries would answer; each interval is counted as a
  failed attempt instead.
\<close>

theorem https_provision_failure_pauses:
  assumes "hs_pc x = HC_provision" and "fst (cert_provision cfg env) \<noteq> 0"
    and "https_handle cfg (Https_thread env) x = (x1, cs1)"
    and "run_machine (https_handle cfg) (map Https_thread envs) x1 = (y, cs)"
  shows "\<not> ht_network_ready (hs_state y) \<and>
    (\<forall>c \<in> set cs. \<not> cert_call c \<and> (\<forall>h p. c \<noteq> Https_getaddrinfo h p))"
proof -
  have "\<not> ht_network_ready (hs_state x1)" "hs_pc x1 = HC_while_running"
    using assms(1-3) by (auto simp: https_handle_def Let_def split: prod.splits if_splits)
  then show ?thesis using https_paused_run [of x1 cfg envs] assms(4) by simp
qed

theorem https_provision_failure_pauses_witness:
  "\<exists>x1 cs1 y cs. https_handle https_default_cfg
      (Https_thread ((https_server_env [])\<lparr>he_credential_add := - EIO\<rparr>))
      (https_initial\<lparr>hs_pc := HC_provision, hs_state := https_ready_state\<rparr>) = (x1, cs1) \<and>
    run_machine (https_handle https_default_cfg)
      (map Https_thread (replicate 100 (https_server_env []))) x1 = (y, cs) \<and>
    \<not> ht_network_ready (hs_state y)"
proof -
  let ?x = "https_initial\<lparr>hs_pc := HC_provision, hs_state := https_ready_state\<rparr>"
  let ?env = "(https_server_env [])\<lparr>he_credential_add := - EIO\<rparr>"
  obtain x1 cs1 where s: "https_handle https_default_cfg (Https_thread ?env) ?x = (x1, cs1)"
    by (metis prod.collapse)
  obtain y cs where r: "run_machine (https_handle https_default_cfg)
      (map Https_thread (replicate 100 (https_server_env []))) x1 = (y, cs)" by (metis prod.collapse)
  have "hs_pc ?x = HC_provision" "fst (cert_provision https_default_cfg ?env) \<noteq> 0"
    by (simp_all add: cert_provision_def https_default_cfg_def Let_def)
  then show ?thesis using s r https_provision_failure_pauses [OF _ _ s r] by blast
qed

end
