(* ===== verification/Mqtt_Client.thy ===== *)
theory Mqtt_Client
  imports Zbus_Messages
begin

text \<open>
  The MQTT echo client, \<^verbatim>\<open>src/src/modules/app_mqtt_client/app_mqtt_client.c\<close>.

  The file-scope variables are the record \<open>mqtt_state\<close>; each function is one definition that
  returns the new state and the calls it makes to other code, in order (\<open>mqtt_call\<close>): metric
  updates, kernel calls, calls into the \<^verbatim>\<open>mqtt_helper\<close> library and the test-result log line
  (the other log lines, which only describe the step, are left out). What the called code
  answers is an argument, the record \<open>mqtt_env\<close>. The thread function is a machine over
  program points (\<open>mqtt_pc\<close>), one transition per loop head or blocking call, so that callbacks
  and connectivity messages can run between any two of them; \<open>mqtt_step\<close> is that interleaving.
  Kconfig values are the record \<open>mqtt_cfg\<close>.
\<close>

subsection \<open>Data\<close>

datatype app_mqtt_client_state =
  APP_MQTT_STATE_DISCONNECTED | APP_MQTT_STATE_CONNECTING | APP_MQTT_STATE_CONNECTED

record mqtt_cfg =
  cfg_hostname :: string
  cfg_publish_topic :: string
  cfg_publish_interval_sec :: u32
  cfg_id_buffer_size :: nat

record mqtt_state =
  current_state :: app_mqtt_client_state
  mqtt_client_running :: bool
  mq_network_ready :: bool
  mq_has_seen_network_connection :: bool
  message_count :: u32
  mqtt_echo_total :: u32
  mqtt_echo_failures :: u32
  last_published_count :: u32
  last_echo_at_msg :: u32
  client_id :: "char list"
  pub_topic :: "char list"

datatype mqtt_metric = App_mqtt_echo_total_count | App_mqtt_echo_fail_count

datatype mqtt_call =
    Mqtt_metric_set mqtt_metric u32
  | Mqtt_log_test bool u32 u32
  | Mqtt_sem_give
  | Mqtt_sem_take u32
  | Mqtt_sleep_sec u32
  | Mqtt_sleep_msec u32
  | Mqtt_getaddrinfo string
  | Mqtt_helper_init
  | Mqtt_helper_msg_id_get
  | Mqtt_helper_connect string string
  | Mqtt_helper_subscribe nat string
  | Mqtt_helper_publish nat string string
  | Mqtt_helper_disconnect

text \<open>What the libraries answer in one step.\<close>

record mqtt_env =
  env_helper_init :: int
  env_getaddrinfo :: int
  env_rand32 :: u32
  env_hw_id_get :: "char list \<Rightarrow> int \<times> char list"
  env_helper_connect :: int
  env_helper_publish :: int

subsection \<open>Back-off and initial delay\<close>

definition MQTT_BACKOFF_BASE_SEC :: u32 where "MQTT_BACKOFF_BASE_SEC = 30"
definition MQTT_BACKOFF_MAX_SEC :: u32 where "MQTT_BACKOFF_MAX_SEC = 300"
definition APP_MQTT_ECHO_TIMEOUT_THRESHOLD :: u32 where "APP_MQTT_ECHO_TIMEOUT_THRESHOLD = 3"
definition DNS_CHECK_INTERVAL_SEC :: int where "DNS_CHECK_INTERVAL_SEC = 10"
definition dns_timeout :: int where "dns_timeout = 300"

text \<open>
  A left shift of a 32-bit value by 32 or more is undefined in C; \<open>None\<close> is that case.
\<close>

definition mqtt_backoff_sec :: "int \<Rightarrow> u32 option" where
  "mqtt_backoff_sec retry_count =
     (if retry_count \<le> 3 then Some 5
      else if retry_count - 4 \<ge> 32 then None
      else let b = push_bit (nat (retry_count - 4)) MQTT_BACKOFF_BASE_SEC
           in Some (min b MQTT_BACKOFF_MAX_SEC))"

definition random_initial_delay_sec :: "u32 \<Rightarrow> u32 \<Rightarrow> u32" where
  "random_initial_delay_sec rand interval_sec =
     (if interval_sec = 0 then 0 else rand mod (interval_sec + 1))"

subsection \<open>Counters and callbacks\<close>

definition mqtt_record_failed_attempt :: "mqtt_state \<Rightarrow> mqtt_state \<times> mqtt_call list" where
  "mqtt_record_failed_attempt s =
     (let s' = s\<lparr>mqtt_echo_total := mqtt_echo_total s + 1,
                 mqtt_echo_failures := mqtt_echo_failures s + 1\<rparr>
      in (s', [Mqtt_metric_set App_mqtt_echo_total_count (mqtt_echo_total s'),
               Mqtt_metric_set App_mqtt_echo_fail_count (mqtt_echo_failures s'),
               Mqtt_log_test False (mqtt_echo_total s' - mqtt_echo_failures s')
                 (mqtt_echo_total s')]))"

definition on_mqtt_connack :: "int \<Rightarrow> bool \<Rightarrow> mqtt_state \<Rightarrow> mqtt_state \<times> mqtt_call list" where
  "on_mqtt_connack return_code session_present s =
     (if return_code \<noteq> 0 then (s\<lparr>current_state := APP_MQTT_STATE_DISCONNECTED\<rparr>, [])
      else (s\<lparr>current_state := APP_MQTT_STATE_CONNECTED\<rparr>,
            if c_str (pub_topic s) \<noteq> []
            then [Mqtt_helper_msg_id_get, Mqtt_helper_subscribe 0 (c_str (pub_topic s))]
            else []))"

definition on_mqtt_disconnect :: "int \<Rightarrow> mqtt_state \<Rightarrow> mqtt_state \<times> mqtt_call list" where
  "on_mqtt_disconnect result s = (s\<lparr>current_state := APP_MQTT_STATE_DISCONNECTED\<rparr>, [])"

definition on_mqtt_publish :: "string \<Rightarrow> char list \<Rightarrow> mqtt_state \<Rightarrow> mqtt_state \<times> mqtt_call list" where
  "on_mqtt_publish topic payload s =
     (let copy_len = min (length payload) 15;
          num_buf = take copy_len payload @ [NUL];
          received_count = strtoul10 (c_str num_buf);
          s1 = s\<lparr>mqtt_echo_total := mqtt_echo_total s + 1, last_echo_at_msg := message_count s\<rparr>;
          c1 = [Mqtt_metric_set App_mqtt_echo_total_count (mqtt_echo_total s1)]
      in if last_published_count s1 \<noteq> 0 \<and> received_count \<noteq> last_published_count s1
         then let s2 = s1\<lparr>mqtt_echo_failures := mqtt_echo_failures s1 + 1\<rparr>
              in (s2, c1 @ [Mqtt_metric_set App_mqtt_echo_fail_count (mqtt_echo_failures s2)])
         else (s1, c1 @ [Mqtt_log_test True (mqtt_echo_total s1 - mqtt_echo_failures s1)
                           (mqtt_echo_total s1)]))"

definition on_mqtt_suback :: "u16 \<Rightarrow> int \<Rightarrow> mqtt_state \<Rightarrow> mqtt_state \<times> mqtt_call list" where
  "on_mqtt_suback message_id result s =
     (if result = 0 then (s, [])
      else let s' = s\<lparr>mqtt_echo_failures := mqtt_echo_failures s + 1\<rparr>
           in (s', [Mqtt_metric_set App_mqtt_echo_fail_count (mqtt_echo_failures s')]))"

subsection \<open>Connecting\<close>

definition setup_topics :: "mqtt_cfg \<Rightarrow> mqtt_state \<Rightarrow> int \<times> mqtt_state" where
  "setup_topics cfg s =
     (let (len, buf) = snprintk (pub_topic s)
            (''Memfault/'' @ c_str (client_id s) @ ''/'' @ cfg_publish_topic cfg);
          s' = s\<lparr>pub_topic := buf\<rparr>
      in if len < 0 \<or> len \<ge> int (length (pub_topic s)) then (- EMSGSIZE, s') else (0, s'))"

definition mqtt_check_dns_ready :: "int \<Rightarrow> bool" where
  "mqtt_check_dns_ready getaddrinfo_err = (getaddrinfo_err = 0)"

text \<open>
  \<^verbatim>\<open>mqtt_do_connect\<close> up to the call of \<^verbatim>\<open>mqtt_helper_connect\<close> (first component \<open>Some err\<close>
  when it returns before that call), and from that call's return to the end.
\<close>

definition mqtt_do_connect_begin ::
  "mqtt_cfg \<Rightarrow> mqtt_env \<Rightarrow> mqtt_state \<Rightarrow> int option \<times> mqtt_state \<times> mqtt_call list" where
  "mqtt_do_connect_begin cfg env s =
     (if current_state s = APP_MQTT_STATE_CONNECTED then (Some 0, s, [])
      else if current_state s = APP_MQTT_STATE_CONNECTING then (Some (- EINPROGRESS), s, [])
      else let s1 = s\<lparr>current_state := APP_MQTT_STATE_CONNECTING\<rparr>;
               (err, buf) = env_hw_id_get env (client_id s1);
               s2 = s1\<lparr>client_id := buf\<rparr>
           in if err \<noteq> 0
              then (Some err, s2\<lparr>current_state := APP_MQTT_STATE_DISCONNECTED\<rparr>, [])
              else let (err2, s3) = setup_topics cfg s2
                   in if err2 \<noteq> 0
                      then (Some err2, s3\<lparr>current_state := APP_MQTT_STATE_DISCONNECTED\<rparr>, [])
                      else (None, s3,
                            [Mqtt_helper_connect (cfg_hostname cfg) (c_str (client_id s3))]))"

definition mqtt_do_connect_end :: "int \<Rightarrow> mqtt_state \<Rightarrow> int \<times> mqtt_state" where
  "mqtt_do_connect_end err s =
     (if err \<noteq> 0 then (err, s\<lparr>current_state := APP_MQTT_STATE_DISCONNECTED\<rparr>) else (0, s))"

definition mqtt_do_connect ::
  "mqtt_cfg \<Rightarrow> mqtt_env \<Rightarrow> mqtt_state \<Rightarrow> int \<times> mqtt_state \<times> mqtt_call list" where
  "mqtt_do_connect cfg env s =
     (case mqtt_do_connect_begin cfg env s of
        (Some err, s', cs) \<Rightarrow> (err, s', cs)
      | (None, s', cs) \<Rightarrow>
          let (err, s'') = mqtt_do_connect_end (env_helper_connect env) s' in (err, s'', cs))"

subsection \<open>Publishing\<close>

text \<open>
  \<^verbatim>\<open>mqtt_publish_message\<close>, split in the same way around \<^verbatim>\<open>mqtt_helper_publish\<close>.
\<close>

definition mqtt_publish_begin ::
  "mqtt_state \<Rightarrow> int option \<times> mqtt_state \<times> mqtt_call list" where
  "mqtt_publish_begin s =
     (if \<not> mq_network_ready s then (Some (- ENETDOWN), s, [])
      else if current_state s \<noteq> APP_MQTT_STATE_CONNECTED then (Some (- ENOTCONN), s, [])
      else let s' = s\<lparr>message_count := message_count s + 1\<rparr>;
               payload = c_str (snd (snprintk (replicate 128 NUL) (fmt_u (message_count s'))))
           in (None, s', [Mqtt_helper_msg_id_get,
                          Mqtt_helper_publish 1 payload (c_str (pub_topic s'))]))"

definition mqtt_publish_end :: "int \<Rightarrow> mqtt_state \<Rightarrow> int \<times> mqtt_state \<times> mqtt_call list" where
  "mqtt_publish_end err s =
     (if err \<noteq> 0
      then let s' = s\<lparr>mqtt_echo_failures := mqtt_echo_failures s + 1\<rparr>
           in (err, s', [Mqtt_metric_set App_mqtt_echo_fail_count (mqtt_echo_failures s')])
      else let s1 = s\<lparr>last_published_count := message_count s\<rparr>
           in if message_count s1 > APP_MQTT_ECHO_TIMEOUT_THRESHOLD \<and>
                 message_count s1 - last_echo_at_msg s1 = APP_MQTT_ECHO_TIMEOUT_THRESHOLD
              then let s2 = s1\<lparr>mqtt_echo_failures := mqtt_echo_failures s1 + 1\<rparr>
                   in (0, s2, [Mqtt_metric_set App_mqtt_echo_fail_count (mqtt_echo_failures s2)])
              else (0, s1, []))"

definition mqtt_publish_message :: "int \<Rightarrow> mqtt_state \<Rightarrow> int \<times> mqtt_state \<times> mqtt_call list" where
  "mqtt_publish_message helper_err s =
     (case mqtt_publish_begin s of
        (Some err, s', cs) \<Rightarrow> (err, s', cs)
      | (None, s', cs) \<Rightarrow>
          let (err, s'', cs') = mqtt_publish_end helper_err s' in (err, s'', cs @ cs'))"

definition app_mqtt_client_publish ::
  "int \<Rightarrow> string option \<Rightarrow> mqtt_state \<Rightarrow> int \<times> mqtt_call list" where
  "app_mqtt_client_publish helper_err payload s =
     (if current_state s \<noteq> APP_MQTT_STATE_CONNECTED then (- ENOTCONN, [])
      else case payload of
        None \<Rightarrow> (- EINVAL, [])
      | Some p \<Rightarrow>
          (if helper_err \<noteq> 0 then helper_err else 0,
           [Mqtt_helper_msg_id_get, Mqtt_helper_publish 1 p (c_str (pub_topic s))]))"

subsection \<open>Initialisation and connectivity messages\<close>

definition mqtt_boot_state :: "mqtt_cfg \<Rightarrow> mqtt_state" where
  "mqtt_boot_state cfg =
     \<lparr>current_state = APP_MQTT_STATE_DISCONNECTED, mqtt_client_running = False,
      mq_network_ready = False, mq_has_seen_network_connection = False,
      message_count = 0, mqtt_echo_total = 0, mqtt_echo_failures = 0,
      last_published_count = 0, last_echo_at_msg = 0,
      client_id = replicate (cfg_id_buffer_size cfg) NUL,
      pub_topic = replicate (cfg_id_buffer_size cfg + (length (cfg_publish_topic cfg) + 1)) NUL\<rparr>"

definition app_mqtt_client_init :: "mqtt_state \<Rightarrow> int \<times> mqtt_state" where
  "app_mqtt_client_init s = (0, s\<lparr>mqtt_client_running := True\<rparr>)"

definition app_mqtt_client_notify_connected :: "mqtt_state \<Rightarrow> mqtt_state \<times> mqtt_call list" where
  "app_mqtt_client_notify_connected s =
     (if mqtt_client_running s \<and> \<not> mq_network_ready s
      then (s\<lparr>mq_has_seen_network_connection := True, mq_network_ready := True\<rparr>, [Mqtt_sem_give])
      else (s, []))"

definition app_mqtt_client_notify_disconnected :: "mqtt_state \<Rightarrow> mqtt_state \<times> mqtt_call list" where
  "app_mqtt_client_notify_disconnected s =
     (let s1 = s\<lparr>mq_network_ready := False\<rparr>
      in if current_state s1 = APP_MQTT_STATE_CONNECTED
         then (s1\<lparr>current_state := APP_MQTT_STATE_DISCONNECTED\<rparr>, [Mqtt_helper_disconnect])
         else (s1, []))"

definition app_mqtt_wifi_listener :: "wifi_msg_type \<Rightarrow> mqtt_state \<Rightarrow> mqtt_state \<times> mqtt_call list" where
  "app_mqtt_wifi_listener m s =
     (if m = WIFI_STA_CONNECTED then app_mqtt_client_notify_connected s
      else if m = WIFI_STA_DISCONNECTED then app_mqtt_client_notify_disconnected s
      else (s, []))"

subsection \<open>The client thread\<close>

datatype mqtt_pc =
    PC_helper_init
  | PC_while_running
  | PC_sem_take
  | PC_after_sem
  | PC_settle_sleep
  | PC_dns_while int
  | PC_getaddrinfo int
  | PC_dns_sleep int
  | PC_after_dns
  | PC_initial_sleep
  | PC_after_delay
  | PC_operation_while
  | PC_connect_while int
  | PC_helper_connect int
  | PC_connect_sleep int
  | PC_publish_while
  | PC_helper_publish
  | PC_publish_sleep
  | PC_after_publish
  | PC_drop_sleep
  | PC_operation_done
  | PC_exit
  | PC_undefined

text \<open>The thread's reaction to the result of \<^verbatim>\<open>mqtt_do_connect()\<close> in its connect loop.\<close>

definition mqtt_connect_result :: "int \<Rightarrow> int \<Rightarrow> mqtt_pc \<times> mqtt_call list" where
  "mqtt_connect_result retry_count err =
     (if err = - EINPROGRESS then (PC_connect_sleep retry_count, [Mqtt_sleep_msec 500])
      else if err \<noteq> 0
      then (case mqtt_backoff_sec (retry_count + 1) of
              None \<Rightarrow> (PC_undefined, [])
            | Some delay \<Rightarrow> (PC_connect_sleep (retry_count + 1), [Mqtt_sleep_sec delay]))
      else (PC_connect_sleep 0, [Mqtt_sleep_msec 500]))"

fun app_mqtt_client_thread ::
  "mqtt_cfg \<Rightarrow> mqtt_env \<Rightarrow> mqtt_pc \<Rightarrow> mqtt_state \<Rightarrow> mqtt_pc \<times> mqtt_state \<times> mqtt_call list" where
  "app_mqtt_client_thread cfg env PC_helper_init s =
     (if env_helper_init env \<noteq> 0 then (PC_exit, s, [Mqtt_helper_init])
      else (PC_while_running, s, [Mqtt_helper_init]))"
| "app_mqtt_client_thread cfg env PC_while_running s =
     (if mqtt_client_running s
      then (PC_sem_take, s, [Mqtt_sem_take (cfg_publish_interval_sec cfg)])
      else (PC_exit, s, []))"
| "app_mqtt_client_thread cfg env PC_sem_take s = (PC_after_sem, s, [])"
| "app_mqtt_client_thread cfg env PC_after_sem s =
     (if \<not> mqtt_client_running s then (PC_exit, s, [])
      else if \<not> mq_network_ready s
      then (if mq_has_seen_network_connection s
            then let (s', cs) = mqtt_record_failed_attempt s in (PC_while_running, s', cs)
            else (PC_while_running, s, []))
      else (PC_settle_sleep, s, [Mqtt_sleep_sec 2]))"
| "app_mqtt_client_thread cfg env PC_settle_sleep s = (PC_dns_while 2, s, [])"
| "app_mqtt_client_thread cfg env (PC_dns_while t) s =
     (if mq_network_ready s then (PC_getaddrinfo t, s, [Mqtt_getaddrinfo (cfg_hostname cfg)])
      else (PC_after_dns, s, []))"
| "app_mqtt_client_thread cfg env (PC_getaddrinfo t) s =
     (if mqtt_check_dns_ready (env_getaddrinfo env) then (PC_after_dns, s, [])
      else if t \<ge> dns_timeout then (PC_after_dns, s, [])
      else (PC_dns_sleep t, s, [Mqtt_sleep_sec (of_int DNS_CHECK_INTERVAL_SEC)]))"
| "app_mqtt_client_thread cfg env (PC_dns_sleep t) s =
     (PC_dns_while (t + DNS_CHECK_INTERVAL_SEC), s, [])"
| "app_mqtt_client_thread cfg env PC_after_dns s =
     (if \<not> mq_network_ready s then (PC_while_running, s, [])
      else let initial_delay =
                 random_initial_delay_sec (env_rand32 env) (cfg_publish_interval_sec cfg)
           in if initial_delay > 0 then (PC_initial_sleep, s, [Mqtt_sleep_sec initial_delay])
              else (PC_after_delay, s, []))"
| "app_mqtt_client_thread cfg env PC_initial_sleep s = (PC_after_delay, s, [])"
| "app_mqtt_client_thread cfg env PC_after_delay s =
     (if \<not> mq_network_ready s then (PC_while_running, s, []) else (PC_operation_while, s, []))"
| "app_mqtt_client_thread cfg env PC_operation_while s =
     (if mqtt_client_running s \<and> mq_network_ready s then (PC_connect_while 0, s, [])
      else (PC_operation_done, s, []))"
| "app_mqtt_client_thread cfg env (PC_connect_while retry_count) s =
     (if mqtt_client_running s \<and> mq_network_ready s \<and>
         current_state s \<noteq> APP_MQTT_STATE_CONNECTED
      then (case mqtt_do_connect_begin cfg env s of
              (None, s', cs) \<Rightarrow> (PC_helper_connect retry_count, s', cs)
            | (Some err, s', cs) \<Rightarrow>
                let (pc, cs') = mqtt_connect_result retry_count err in (pc, s', cs @ cs'))
      else (PC_publish_while, s, []))"
| "app_mqtt_client_thread cfg env (PC_helper_connect retry_count) s =
     (let (err, s') = mqtt_do_connect_end (env_helper_connect env) s;
          (pc, cs) = mqtt_connect_result retry_count err
      in (pc, s', cs))"
| "app_mqtt_client_thread cfg env (PC_connect_sleep retry_count) s =
     (PC_connect_while retry_count, s, [])"
| "app_mqtt_client_thread cfg env PC_publish_while s =
     (if mqtt_client_running s \<and> mq_network_ready s \<and>
         current_state s = APP_MQTT_STATE_CONNECTED
      then (case mqtt_publish_begin s of
              (None, s', cs) \<Rightarrow> (PC_helper_publish, s', cs)
            | (Some err, s', cs) \<Rightarrow>
                (PC_publish_sleep, s', cs @ [Mqtt_sleep_sec (cfg_publish_interval_sec cfg)]))
      else (PC_after_publish, s, []))"
| "app_mqtt_client_thread cfg env PC_helper_publish s =
     (let (err, s', cs) = mqtt_publish_end (env_helper_publish env) s
      in (PC_publish_sleep, s', cs @ [Mqtt_sleep_sec (cfg_publish_interval_sec cfg)]))"
| "app_mqtt_client_thread cfg env PC_publish_sleep s = (PC_publish_while, s, [])"
| "app_mqtt_client_thread cfg env PC_after_publish s =
     (if mqtt_client_running s \<and> mq_network_ready s \<and>
         current_state s = APP_MQTT_STATE_DISCONNECTED
      then (PC_drop_sleep, s, [Mqtt_sleep_sec MQTT_BACKOFF_BASE_SEC])
      else (PC_operation_while, s, []))"
| "app_mqtt_client_thread cfg env PC_drop_sleep s = (PC_operation_while, s, [])"
| "app_mqtt_client_thread cfg env PC_operation_done s =
     (if mq_has_seen_network_connection s
      then let (s', cs) = mqtt_record_failed_attempt s in (PC_while_running, s', cs)
      else (PC_while_running, s, []))"
| "app_mqtt_client_thread cfg env PC_exit s = (PC_exit, s, [])"
| "app_mqtt_client_thread cfg env PC_undefined s = (PC_undefined, s, [])"

subsection \<open>Interleaving of the thread with callbacks and messages\<close>

datatype mqtt_input =
    Mqtt_thread mqtt_env
  | Mqtt_connack int bool
  | Mqtt_disconnect int
  | Mqtt_publish string "char list"
  | Mqtt_suback u16 int
  | Mqtt_wifi wifi_msg_type

record mqtt_system =
  ms_pc :: mqtt_pc
  ms_state :: mqtt_state

definition mqtt_handle :: "mqtt_cfg \<Rightarrow> (mqtt_input, mqtt_system, mqtt_call) machine" where
  "mqtt_handle cfg i x =
     (case i of
        Mqtt_thread env \<Rightarrow>
          (let (pc, s, cs) = app_mqtt_client_thread cfg env (ms_pc x) (ms_state x)
           in (x\<lparr>ms_pc := pc, ms_state := s\<rparr>, cs))
      | Mqtt_connack rc sp \<Rightarrow>
          (let (s, cs) = on_mqtt_connack rc sp (ms_state x) in (x\<lparr>ms_state := s\<rparr>, cs))
      | Mqtt_disconnect r \<Rightarrow>
          (let (s, cs) = on_mqtt_disconnect r (ms_state x) in (x\<lparr>ms_state := s\<rparr>, cs))
      | Mqtt_publish topic payload \<Rightarrow>
          (let (s, cs) = on_mqtt_publish topic payload (ms_state x) in (x\<lparr>ms_state := s\<rparr>, cs))
      | Mqtt_suback mid r \<Rightarrow>
          (let (s, cs) = on_mqtt_suback mid r (ms_state x) in (x\<lparr>ms_state := s\<rparr>, cs))
      | Mqtt_wifi m \<Rightarrow>
          (let (s, cs) = app_mqtt_wifi_listener m (ms_state x) in (x\<lparr>ms_state := s\<rparr>, cs)))"

definition mqtt_initial :: "mqtt_cfg \<Rightarrow> mqtt_system" where
  "mqtt_initial cfg =
     \<lparr>ms_pc = PC_helper_init, ms_state = snd (app_mqtt_client_init (mqtt_boot_state cfg))\<rparr>"

inductive mqtt_step :: "mqtt_cfg \<Rightarrow> mqtt_system \<Rightarrow> mqtt_call list \<Rightarrow> mqtt_system \<Rightarrow> bool" for cfg where
  mqtt_stepI: "mqtt_handle cfg i x = (y, cs) \<Longrightarrow> mqtt_step cfg x cs y"

inductive mqtt_reachable :: "mqtt_cfg \<Rightarrow> mqtt_system \<Rightarrow> bool" for cfg where
  mqtt_reach_init: "mqtt_reachable cfg (mqtt_initial cfg)"
| mqtt_reach_step: "mqtt_reachable cfg x \<Longrightarrow> mqtt_step cfg x cs y \<Longrightarrow> mqtt_reachable cfg y"


inductive_cases mqtt_stepE [elim!]: "mqtt_step cfg x cs y"

text \<open>
  The configuration \<^verbatim>\<open>prj.conf\<close> and \<^verbatim>\<open>Kconfig.defaults\<close> select, an environment in which every
  call succeeds, and a connected client: concrete values for the instances below.
\<close>

definition prj_mqtt_cfg :: mqtt_cfg where
  "prj_mqtt_cfg =
     \<lparr>cfg_hostname = ''broker.emqx.io'', cfg_publish_topic = ''Count'',
      cfg_publish_interval_sec = 900, cfg_id_buffer_size = 50\<rparr>"

definition mqtt_env_ok :: mqtt_env where
  "mqtt_env_ok =
     \<lparr>env_helper_init = 0, env_getaddrinfo = 0, env_rand32 = 0,
      env_hw_id_get = (\<lambda>_. (0, ''F4CE36000001'' @ replicate 38 NUL)),
      env_helper_connect = 0, env_helper_publish = 0\<rparr>"

definition mqtt_connected_state :: mqtt_state where
  "mqtt_connected_state =
     (mqtt_boot_state prj_mqtt_cfg)\<lparr>mqtt_client_running := True, mq_network_ready := True,
        mq_has_seen_network_connection := True, current_state := APP_MQTT_STATE_CONNECTED\<rparr>"

lemma mqtt_connected_state_fields [simp]:
  "current_state mqtt_connected_state = APP_MQTT_STATE_CONNECTED"
  "mqtt_client_running mqtt_connected_state" "mq_network_ready mqtt_connected_state"
  "message_count mqtt_connected_state = 0" "mqtt_echo_total mqtt_connected_state = 0"
  "mqtt_echo_failures mqtt_connected_state = 0" "last_published_count mqtt_connected_state = 0"
  "last_echo_at_msg mqtt_connected_state = 0" "length (pub_topic mqtt_connected_state) = 56"
  "c_str (pub_topic mqtt_connected_state) = []"
  by (simp_all add: mqtt_connected_state_def mqtt_boot_state_def prj_mqtt_cfg_def c_str_def)

lemmas mqtt_const_defs =
  MQTT_BACKOFF_BASE_SEC_def MQTT_BACKOFF_MAX_SEC_def APP_MQTT_ECHO_TIMEOUT_THRESHOLD_def
  DNS_CHECK_INTERVAL_SEC_def dns_timeout_def

lemmas mqtt_callback_defs =
  mqtt_record_failed_attempt_def on_mqtt_connack_def on_mqtt_disconnect_def on_mqtt_publish_def
  on_mqtt_suback_def app_mqtt_wifi_listener_def app_mqtt_client_notify_connected_def
  app_mqtt_client_notify_disconnected_def

lemmas mqtt_phase_defs =
  mqtt_do_connect_begin_def mqtt_do_connect_end_def mqtt_publish_begin_def mqtt_publish_end_def
  mqtt_connect_result_def setup_topics_def

lemmas mqtt_splits = prod.splits option.splits if_splits

text \<open>One case per kind of input; for a thread step one case per program point.\<close>

lemma mqtt_handle_cases:
  assumes "\<And>env pc s cs. app_mqtt_client_thread cfg env (ms_pc x) (ms_state x) = (pc, s, cs) \<Longrightarrow>
      P (x\<lparr>ms_pc := pc, ms_state := s\<rparr>) cs"
    and "\<And>rc sp s cs. on_mqtt_connack rc sp (ms_state x) = (s, cs) \<Longrightarrow> P (x\<lparr>ms_state := s\<rparr>) cs"
    and "\<And>r s cs. on_mqtt_disconnect r (ms_state x) = (s, cs) \<Longrightarrow> P (x\<lparr>ms_state := s\<rparr>) cs"
    and "\<And>t p s cs. on_mqtt_publish t p (ms_state x) = (s, cs) \<Longrightarrow> P (x\<lparr>ms_state := s\<rparr>) cs"
    and "\<And>m r s cs. on_mqtt_suback m r (ms_state x) = (s, cs) \<Longrightarrow> P (x\<lparr>ms_state := s\<rparr>) cs"
    and "\<And>m s cs. app_mqtt_wifi_listener m (ms_state x) = (s, cs) \<Longrightarrow> P (x\<lparr>ms_state := s\<rparr>) cs"
  shows "P (fst (mqtt_handle cfg i x)) (snd (mqtt_handle cfg i x))"
  using assms by (cases i) (auto simp: mqtt_handle_def split: prod.splits)

subsection \<open>Connectivity interface\<close>

interpretation mqtt_link: wifi_client app_mqtt_wifi_listener mqtt_client_running mq_network_ready
  mq_has_seen_network_connection "\<lambda>c. c = Mqtt_sem_give"
  by unfold_locales (auto simp: mqtt_callback_defs Let_def)

subsection \<open>Metric mirroring\<close>

fun mqtt_metric_of :: "mqtt_call \<Rightarrow> (mqtt_metric \<times> u32) option" where
  "mqtt_metric_of (Mqtt_metric_set k v) = Some (k, v)"
| "mqtt_metric_of _ = None"

definition mqtt_counter :: "mqtt_metric \<Rightarrow> mqtt_system \<Rightarrow> u32" where
  "mqtt_counter k x =
     (case k of App_mqtt_echo_total_count \<Rightarrow> mqtt_echo_total (ms_state x)
      | App_mqtt_echo_fail_count \<Rightarrow> mqtt_echo_failures (ms_state x))"

lemma mqtt_thread_reports:
  assumes "app_mqtt_client_thread cfg env pc s = (pc', s', cs)"
  shows "(case last_metric mqtt_metric_of k cs of
            None \<Rightarrow> mqtt_counter k \<lparr>ms_pc = pc, ms_state = s\<rparr> | Some v \<Rightarrow> v) =
         mqtt_counter k \<lparr>ms_pc = pc', ms_state = s'\<rparr>"
  using assms
  by (cases pc; cases k)
     (auto simp: mqtt_counter_def mqtt_phase_defs mqtt_record_failed_attempt_def Let_def
        split: mqtt_splits)

interpretation mqtt_meter: metered_machine "mqtt_handle cfg" mqtt_metric_of mqtt_counter for cfg
proof
  fix k i and x :: mqtt_system
  show "(case last_metric mqtt_metric_of k (snd (mqtt_handle cfg i x)) of
           None \<Rightarrow> mqtt_counter k x | Some v \<Rightarrow> v) = mqtt_counter k (fst (mqtt_handle cfg i x))"
  proof (rule mqtt_handle_cases [where P = "\<lambda>y cs. (case last_metric mqtt_metric_of k cs of
           None \<Rightarrow> mqtt_counter k x | Some v \<Rightarrow> v) = mqtt_counter k y"], goal_cases)
    case (1 env pc s cs)
    then show ?case
      using mqtt_thread_reports [OF 1, of k]
      by (cases k) (auto simp: mqtt_counter_def split: option.splits)
  qed (cases k; auto simp: mqtt_counter_def mqtt_callback_defs Let_def split: mqtt_splits)+
qed

subsection \<open>Back-off\<close>

lemma mqtt_backoff_shift:
  "m < 31 \<Longrightarrow> 4 \<le> m \<Longrightarrow> min (push_bit m (30::u32)) 300 = 300"
proof -
  have "list_all (\<lambda>m. min (push_bit m (30::u32)) 300 = 300) [4..<31]" by code_simp
  then have "\<forall>m \<in> {4..<31}. min (push_bit m (30::u32)) 300 = 300"
    by (simp only: list_all_iff set_upt)
  then show "m < 31 \<Longrightarrow> 4 \<le> m \<Longrightarrow> min (push_bit m (30::u32)) 300 = 300"
    by auto
qed



subsection \<open>Publishing and echoes\<close>

lemma snprintk_fmt_u [simp]: "c_str (snd (snprintk (replicate 128 NUL) (fmt_u w))) = fmt_u w"
  by (rule snprintk_fits) (use fmt_u_length [of w] in simp_all)

lemma echo_text [simp]: "strtoul10 (c_str (take (min (length (fmt_u w)) 15) (fmt_u w) @ [NUL])) = w"
  using fmt_u_length [of w] by (simp add: min_def)

lemma mqtt_publish_begin_ok:
  assumes "mq_network_ready s" "current_state s = APP_MQTT_STATE_CONNECTED"
  shows "mqtt_publish_begin s = (None, s\<lparr>message_count := message_count s + 1\<rparr>,
    [Mqtt_helper_msg_id_get,
     Mqtt_helper_publish 1 (fmt_u (message_count s + 1)) (c_str (pub_topic s))])"
  using assms unfolding mqtt_publish_begin_def Let_def by simp

lemma mqtt_publish_begin_None:
  "mqtt_publish_begin s = (None, s', cs) \<longleftrightarrow>
     mq_network_ready s \<and> current_state s = APP_MQTT_STATE_CONNECTED \<and>
     s' = s\<lparr>message_count := message_count s + 1\<rparr> \<and>
     cs = [Mqtt_helper_msg_id_get,
           Mqtt_helper_publish 1 (fmt_u (message_count s + 1)) (c_str (pub_topic s))]"
  by (auto simp: mqtt_publish_begin_def Let_def split: if_splits)

text \<open>
  C9: a message is handed to the MQTT library only while the client runs, the network is ready and
  the broker session is established; it carries the decimal text of the just incremented message
  counter, at QoS 1, on the configured topic. Whatever callbacks and messages ran before.
\<close>

theorem mqtt_publish_gate:
  assumes "mqtt_handle cfg i x = (y, cs)" and "Mqtt_helper_publish qos payload topic \<in> set cs"
  shows "mqtt_client_running (ms_state x) \<and> mq_network_ready (ms_state x) \<and>
    current_state (ms_state x) = APP_MQTT_STATE_CONNECTED \<and>
    message_count (ms_state y) = message_count (ms_state x) + 1 \<and>
    qos = 1 \<and> payload = fmt_u (message_count (ms_state y)) \<and> topic = c_str (pub_topic (ms_state x))"
proof -
  have "(\<lambda>y cs. Mqtt_helper_publish qos payload topic \<in> set cs \<longrightarrow>
     mqtt_client_running (ms_state x) \<and> mq_network_ready (ms_state x) \<and>
     current_state (ms_state x) = APP_MQTT_STATE_CONNECTED \<and>
     message_count (ms_state y) = message_count (ms_state x) + 1 \<and>
     qos = 1 \<and> payload = fmt_u (message_count (ms_state y)) \<and>
     topic = c_str (pub_topic (ms_state x))) (fst (mqtt_handle cfg i x)) (snd (mqtt_handle cfg i x))"
  proof (rule mqtt_handle_cases, goal_cases)
    case (1 env pc s cs)
    then show ?case
      by (cases "ms_pc x")
         (auto simp: mqtt_publish_begin_None mqtt_do_connect_begin_def mqtt_do_connect_end_def
            mqtt_publish_end_def mqtt_publish_begin_def
            mqtt_connect_result_def mqtt_record_failed_attempt_def Let_def split: mqtt_splits)
  qed (auto simp: mqtt_callback_defs Let_def split: mqtt_splits)
  then show ?thesis using assms by simp
qed

theorem mqtt_publish_gate_witness:
  "\<exists>y cs. mqtt_handle prj_mqtt_cfg (Mqtt_thread mqtt_env_ok)
      \<lparr>ms_pc = PC_publish_while, ms_state = mqtt_connected_state\<rparr> = (y, cs) \<and>
    Mqtt_helper_publish 1 (fmt_u 1) [] \<in> set cs \<and> message_count (ms_state y) = 1"
proof -
  let ?x = "\<lparr>ms_pc = PC_publish_while, ms_state = mqtt_connected_state\<rparr>"
  obtain y cs where h: "mqtt_handle prj_mqtt_cfg (Mqtt_thread mqtt_env_ok) ?x = (y, cs)"
    by fastforce
  have m: "Mqtt_helper_publish 1 (fmt_u 1) [] \<in> set cs"
    using h by (auto simp: mqtt_handle_def mqtt_publish_begin_ok)
  from mqtt_publish_gate [OF h m]
  have "message_count (ms_state y) = message_count (ms_state ?x) + 1" by blast
  then show ?thesis using h m by auto
qed

lemma mqtt_publish_message_ok:
  "mqtt_publish_message 0 s = (0, s1, cs) \<longleftrightarrow>
     (\<exists>s'. mqtt_publish_begin s = (None, s',
        [Mqtt_helper_msg_id_get,
         Mqtt_helper_publish 1 (fmt_u (message_count s + 1)) (c_str (pub_topic s))]) \<and>
      (\<exists>cs'. mqtt_publish_end 0 s' = (0, s1, cs') \<and>
         cs = [Mqtt_helper_msg_id_get,
         Mqtt_helper_publish 1 (fmt_u (message_count s + 1)) (c_str (pub_topic s))] @ cs'))"
  by (auto simp: mqtt_publish_message_def mqtt_publish_begin_def Let_def split: mqtt_splits)

lemma mqtt_publish_end_ok:
  "mqtt_publish_end 0 s = (e, s1, cs) \<Longrightarrow>
     e = 0 \<and> last_published_count s1 = message_count s \<and> message_count s1 = message_count s \<and>
     mqtt_echo_total s1 = mqtt_echo_total s \<and>
     (\<forall>q p t. Mqtt_helper_publish q p t \<notin> set cs)"
  by (auto simp: mqtt_publish_end_def Let_def split: if_splits)

lemma on_mqtt_publish_match:
  "last_published_count s = n \<Longrightarrow>
   on_mqtt_publish topic (fmt_u n) s =
     (s\<lparr>mqtt_echo_total := mqtt_echo_total s + 1, last_echo_at_msg := message_count s\<rparr>,
      [Mqtt_metric_set App_mqtt_echo_total_count (mqtt_echo_total s + 1),
       Mqtt_log_test True (mqtt_echo_total s + 1 - mqtt_echo_failures s) (mqtt_echo_total s + 1)])"
  by (simp add: on_mqtt_publish_def Let_def)

text \<open>
  C15: a published counter survives the round trip through the broker: when the payload of a
  successful publish comes back as the next echo, it parses to the published value, the echo is
  counted, no failure is counted, and the echo is recorded at the current message.
\<close>

theorem mqtt_echo_roundtrip:
  assumes "mqtt_publish_message 0 s = (0, s1, cs)"
    and "Mqtt_helper_publish qos payload topic \<in> set cs"
  shows "on_mqtt_publish topic payload s1 =
     (s1\<lparr>mqtt_echo_total := mqtt_echo_total s1 + 1, last_echo_at_msg := message_count s1\<rparr>,
      [Mqtt_metric_set App_mqtt_echo_total_count (mqtt_echo_total s1 + 1),
       Mqtt_log_test True (mqtt_echo_total s1 + 1 - mqtt_echo_failures s1) (mqtt_echo_total s1 + 1)])"
proof -
  from assms(1) obtain s' cs' where
    b: "mqtt_publish_begin s = (None, s', [Mqtt_helper_msg_id_get,
         Mqtt_helper_publish 1 (fmt_u (message_count s + 1)) (c_str (pub_topic s))])"
    and e: "mqtt_publish_end 0 s' = (0, s1, cs')"
    and cs: "cs = [Mqtt_helper_msg_id_get,
         Mqtt_helper_publish 1 (fmt_u (message_count s + 1)) (c_str (pub_topic s))] @ cs'"
    by (auto simp: mqtt_publish_message_ok)
  have "payload = fmt_u (message_count s + 1)"
    using assms(2) cs mqtt_publish_end_ok [OF e] by auto
  moreover have "last_published_count s1 = message_count s + 1"
    using mqtt_publish_end_ok [OF e] b by (auto simp: mqtt_publish_begin_None)
  ultimately show ?thesis by (simp add: on_mqtt_publish_match)
qed

theorem mqtt_echo_roundtrip_witness:
  "\<exists>s1 cs. mqtt_publish_message 0 mqtt_connected_state = (0, s1, cs) \<and>
    mqtt_echo_total (fst (on_mqtt_publish [] (fmt_u 1) s1)) = 1 \<and>
    mqtt_echo_failures (fst (on_mqtt_publish [] (fmt_u 1) s1)) = 0"
proof -
  obtain s1 cs where h: "mqtt_publish_message 0 mqtt_connected_state = (0, s1, cs)"
    and m: "Mqtt_helper_publish 1 (fmt_u 1) [] \<in> set cs"
    and s1: "mqtt_echo_total s1 = 0" "mqtt_echo_failures s1 = 0"
    by (auto simp: mqtt_publish_message_def mqtt_publish_begin_ok mqtt_publish_end_def
        mqtt_const_defs Let_def)
  show ?thesis using h mqtt_echo_roundtrip [OF h m] s1 by simp
qed

text \<open>
  An echo that is delivered while \<^verbatim>\<open>mqtt_helper_publish\<close> has not returned yet is compared with
  the previous published counter and counted as a failure, although its value is the right one.
\<close>

theorem mqtt_echo_early:
  assumes "mqtt_publish_begin s = (None, s1, cs)"
    and "Mqtt_helper_publish qos payload topic \<in> set cs"
    and "last_published_count s1 \<noteq> 0" and "last_published_count s1 \<noteq> message_count s1"
  shows "mqtt_echo_failures (fst (on_mqtt_publish topic payload s1)) = mqtt_echo_failures s1 + 1"
  using assms by (auto simp: mqtt_publish_begin_None on_mqtt_publish_def Let_def)

theorem mqtt_echo_early_witness:
  "\<exists>s1 cs. mqtt_publish_begin (mqtt_connected_state\<lparr>message_count := 1, last_published_count := 1\<rparr>)
      = (None, s1, cs) \<and>
    mqtt_echo_failures (fst (on_mqtt_publish [] (fmt_u 2) s1)) = 1"
proof -
  let ?s = "mqtt_connected_state\<lparr>message_count := 1, last_published_count := 1\<rparr>"
  obtain s1 cs where h: "mqtt_publish_begin ?s = (None, s1, cs)"
    and m: "Mqtt_helper_publish 1 (fmt_u 2) [] \<in> set cs"
    and s1: "last_published_count s1 = 1" "message_count s1 = 2" "mqtt_echo_failures s1 = 0"
    by (auto simp: mqtt_publish_begin_ok)
  show ?thesis using h mqtt_echo_early [OF h m] s1 by simp
qed

subsection \<open>Silent publishes\<close>

definition silent_publish :: "mqtt_state \<Rightarrow> mqtt_state" where
  "silent_publish s = fst (snd (mqtt_publish_message 0 s))"

lemma silent_publish_fields:
  assumes "mq_network_ready s" "current_state s = APP_MQTT_STATE_CONNECTED"
  shows "mq_network_ready (silent_publish s) \<and>
    current_state (silent_publish s) = APP_MQTT_STATE_CONNECTED \<and>
    message_count (silent_publish s) = message_count s + 1 \<and>
    last_echo_at_msg (silent_publish s) = last_echo_at_msg s \<and>
    mqtt_echo_failures (silent_publish s) = mqtt_echo_failures s +
      (if message_count s + 1 > 3 \<and> message_count s + 1 - last_echo_at_msg s = 3 then 1 else 0)"
  using assms
  by (auto simp: silent_publish_def mqtt_publish_message_def mqtt_publish_begin_def
      mqtt_publish_end_def mqtt_const_defs Let_def)

lemma silent_publishes:
  assumes "mq_network_ready s" "current_state s = APP_MQTT_STATE_CONNECTED"
    and "last_echo_at_msg s = of_nat c" "message_count s = of_nat c" "c + n < 2 ^ 32"
  shows "mq_network_ready ((silent_publish ^^ n) s) \<and>
    current_state ((silent_publish ^^ n) s) = APP_MQTT_STATE_CONNECTED \<and>
    message_count ((silent_publish ^^ n) s) = of_nat (c + n) \<and>
    last_echo_at_msg ((silent_publish ^^ n) s) = of_nat c \<and>
    mqtt_echo_failures ((silent_publish ^^ n) s) =
      mqtt_echo_failures s + (if 1 \<le> c \<and> 3 \<le> n then 1 else 0)"
  using assms(5)
proof (induction n)
  case 0
  then show ?case using assms by simp
next
  case (Suc n)
  let ?t = "(silent_publish ^^ n) s"
  have IH: "mq_network_ready ?t" "current_state ?t = APP_MQTT_STATE_CONNECTED"
    "message_count ?t = of_nat (c + n)" "last_echo_at_msg ?t = of_nat c"
    "mqtt_echo_failures ?t = mqtt_echo_failures s + (if 1 \<le> c \<and> 3 \<le> n then 1 else 0)"
    using Suc by simp_all
  have big: "(3 < (of_nat (c + n) + 1 :: u32)) = (3 < c + n + 1)"
  proof -
    have u: "unat (of_nat (c + n) + 1 :: u32) = c + n + 1"
      using Suc.prems unat_of_nat_u32 [of "c + n + 1"] by (simp add: ac_simps)
    have u3: "unat (3 :: u32) = 3" by simp
    show ?thesis unfolding word_less_nat_alt u u3 ..
  qed
  have diff: "(of_nat (c + n) + 1 - of_nat c = (3 :: u32)) = (n = 2)"
  proof -
    have "(of_nat (c + n) + 1 - of_nat c :: u32) = of_nat (Suc n)" by simp
    moreover have "(of_nat (Suc n) = (of_nat 3 :: u32)) = (Suc n = 3)"
      by (rule of_nat_u32_eq_iff) (use Suc.prems in simp_all)
    ultimately show ?thesis by auto
  qed
  show ?case
    using silent_publish_fields [OF IH(1,2)] big diff by (auto simp: IH)
qed

text \<open>
  After an echo at message \<open>c > 0\<close>, a run of successful publishes without an echo counts exactly
  one timeout failure, at the third silent publish, however long the silence lasts.
\<close>

theorem mqtt_echo_timeout_once:
  assumes "mq_network_ready s" "current_state s = APP_MQTT_STATE_CONNECTED"
    and "last_echo_at_msg s = message_count s" "message_count s \<noteq> 0"
    and "unat (message_count s) + n < 2 ^ 32"
  shows "mqtt_echo_failures ((silent_publish ^^ n) s) =
    mqtt_echo_failures s + (if n < 3 then 0 else 1)"
proof -
  have "1 \<le> unat (message_count s)" using assms(4) by (simp add: unat_gt_0 Suc_le_eq)
  then show ?thesis using silent_publishes [of s "unat (message_count s)" n] assms by auto
qed

theorem mqtt_echo_timeout_once_witness:
  "mqtt_echo_failures ((silent_publish ^^ 10)
     (mqtt_connected_state\<lparr>message_count := 5, last_echo_at_msg := 5\<rparr>)) = 1"
  using mqtt_echo_timeout_once
    [of "mqtt_connected_state\<lparr>message_count := 5, last_echo_at_msg := 5\<rparr>" 10]
  by simp

text \<open>
  When no echo ever arrives after boot, no timeout failure is counted at all: the third publish
  is excluded by the test \<^verbatim>\<open>message_count > 3\<close> and every later one is past the crossing.
\<close>

theorem mqtt_echo_timeout_missed:
  assumes "mq_network_ready s" "current_state s = APP_MQTT_STATE_CONNECTED"
    and "last_echo_at_msg s = 0" "message_count s = 0" "n < 2 ^ 32"
  shows "mqtt_echo_failures ((silent_publish ^^ n) s) = mqtt_echo_failures s"
  using silent_publishes [of s 0 n] assms by simp
subsection \<open>Topics and connecting\<close>

theorem mqtt_echo_timeout_missed_witness:
  "mqtt_echo_failures ((silent_publish ^^ 1000) mqtt_connected_state) = 0"
  using mqtt_echo_timeout_missed [of mqtt_connected_state 1000] by simp

text \<open>
  \<^verbatim>\<open>setup_topics\<close> succeeds exactly when the client id leaves ten characters of its buffer free;
  then the topic is the text \<^verbatim>\<open>Memfault/<id>/<suffix>\<close>, terminated inside the buffer; otherwise it
  returns \<^verbatim>\<open>-EMSGSIZE\<close>.
\<close>

theorem setup_topics_spec:
  assumes "is_c_str (cfg_publish_topic cfg)"
    and "length (pub_topic s) = cfg_id_buffer_size cfg + (length (cfg_publish_topic cfg) + 1)"
  shows "if length (c_str (client_id s)) + 10 \<le> cfg_id_buffer_size cfg
    then \<exists>s'. setup_topics cfg s = (0, s') \<and>
      c_str (pub_topic s') = ''Memfault/'' @ c_str (client_id s) @ ''/'' @ cfg_publish_topic cfg \<and>
      length (pub_topic s') = length (pub_topic s)
    else fst (setup_topics cfg s) = - EMSGSIZE"
proof -
  let ?t = "''Memfault/'' @ c_str (client_id s) @ ''/'' @ cfg_publish_topic cfg"
  have fit: "(length ?t < length (pub_topic s)) =
      (length (c_str (client_id s)) + 10 \<le> cfg_id_buffer_size cfg)"
    using assms(2) by auto
  have len: "fst (snprintk (pub_topic s) ?t) = int (length ?t)" by (simp add: snprintk_def)
  have "is_c_str ?t"
    using assms(1) is_c_str_c_str [of "client_id s"] by (simp add: is_c_str_def)
  then have text_eq: "length ?t < length (pub_topic s) \<Longrightarrow>
      c_str (snd (snprintk (pub_topic s) ?t)) = ?t"
    by (rule snprintk_fits [rotated])
  show ?thesis
    using fit len text_eq
    by (cases "snprintk (pub_topic s) ?t")
       (auto simp: setup_topics_def Let_def not_less dest: snprintkD)
qed

theorem setup_topics_spec_witness:
  "fst (setup_topics prj_mqtt_cfg
     (mqtt_connected_state\<lparr>client_id := ''F4CE36000001'' @ replicate 38 NUL\<rparr>)) = 0"
proof -
  let ?s = "mqtt_connected_state\<lparr>client_id := ''F4CE36000001'' @ replicate 38 NUL\<rparr>"
  have "is_c_str (cfg_publish_topic prj_mqtt_cfg)" by (simp add: is_c_str_def prj_mqtt_cfg_def)
  moreover have "length (pub_topic ?s) =
      cfg_id_buffer_size prj_mqtt_cfg + (length (cfg_publish_topic prj_mqtt_cfg) + 1)"
    by (simp add: prj_mqtt_cfg_def)
  moreover have "c_str (client_id ?s) = ''F4CE36000001''" by (simp add: c_str_def)
  ultimately show ?thesis using setup_topics_spec [of prj_mqtt_cfg ?s]
    by (auto simp: prj_mqtt_cfg_def)
qed

lemma setup_topics_frame:
  assumes "setup_topics cfg s = (e, s')"
  shows "length (pub_topic s') = length (pub_topic s) \<and>
    (NUL \<in> set (pub_topic s) \<longrightarrow> NUL \<in> set (pub_topic s')) \<and>
    mq_network_ready s' = mq_network_ready s \<and>
    mqtt_client_running s' = mqtt_client_running s \<and>
    mq_has_seen_network_connection s' = mq_has_seen_network_connection s"
  using assms by (auto simp: setup_topics_def Let_def dest!: snprintkD split: mqtt_splits)

text \<open>
  \<^verbatim>\<open>mqtt_do_connect\<close> on every branch: nothing when connected, \<^verbatim>\<open>-EINPROGRESS\<close> while connecting,
  otherwise each failing sub-step returns its own error with the state back at disconnected, and a
  successful start leaves the state connecting with exactly one connect request sent.
\<close>

theorem mqtt_do_connect_branches:
  "mqtt_do_connect cfg env s =
    (case current_state s of
       APP_MQTT_STATE_CONNECTED \<Rightarrow> (0, s, [])
     | APP_MQTT_STATE_CONNECTING \<Rightarrow> (- EINPROGRESS, s, [])
     | APP_MQTT_STATE_DISCONNECTED \<Rightarrow>
         (let (hw_err, cid) = env_hw_id_get env (client_id s);
              (t_err, s') = setup_topics cfg (s\<lparr>current_state := APP_MQTT_STATE_CONNECTING, client_id := cid\<rparr>);
              c_err = env_helper_connect env
          in if hw_err \<noteq> 0 then (hw_err, s\<lparr>client_id := cid\<rparr>, [])
             else if t_err \<noteq> 0 then (t_err, s'\<lparr>current_state := APP_MQTT_STATE_DISCONNECTED\<rparr>, [])
             else (c_err,
                   s'\<lparr>current_state := (if c_err \<noteq> 0 then APP_MQTT_STATE_DISCONNECTED
                                        else APP_MQTT_STATE_CONNECTING)\<rparr>,
                   [Mqtt_helper_connect (cfg_hostname cfg) (c_str cid)])))"
  by (cases s; cases "current_state s")
     (auto simp: mqtt_do_connect_def mqtt_do_connect_begin_def mqtt_do_connect_end_def
       setup_topics_def Let_def split: prod.splits)

subsection \<open>Reachable states\<close>

text \<open>Terminated topic buffer of the declared size, bounded DNS wait.\<close>

fun mqtt_pc_ok :: "mqtt_pc \<Rightarrow> bool" where
  "mqtt_pc_ok (PC_dns_while t) = (2 \<le> t \<and> t \<le> 302 \<and> t mod 10 = 2)"
| "mqtt_pc_ok (PC_getaddrinfo t) = (2 \<le> t \<and> t \<le> 302 \<and> t mod 10 = 2)"
| "mqtt_pc_ok (PC_dns_sleep t) = (2 \<le> t \<and> t < 300 \<and> t mod 10 = 2)"
| "mqtt_pc_ok (PC_connect_while r) = (0 \<le> r \<and> r \<le> 35)"
| "mqtt_pc_ok (PC_helper_connect r) = (0 \<le> r \<and> r \<le> 35)"
| "mqtt_pc_ok (PC_connect_sleep r) = (0 \<le> r \<and> r \<le> 35)"
| "mqtt_pc_ok _ = True"

definition mqtt_inv :: "mqtt_cfg \<Rightarrow> mqtt_system \<Rightarrow> bool" where
  "mqtt_inv cfg x \<longleftrightarrow> mqtt_pc_ok (ms_pc x) \<and> mqtt_client_running (ms_state x) \<and>
     (mq_network_ready (ms_state x) \<longrightarrow> mq_has_seen_network_connection (ms_state x)) \<and>
     length (pub_topic (ms_state x)) =
       cfg_id_buffer_size cfg + (length (cfg_publish_topic cfg) + 1) \<and>
     NUL \<in> set (pub_topic (ms_state x))"

lemma mqtt_do_connect_begin_frame:
  assumes "mqtt_do_connect_begin cfg env s = (r, s', cs)"
  shows "mq_network_ready s' = mq_network_ready s \<and>
    mqtt_client_running s' = mqtt_client_running s \<and>
    mq_has_seen_network_connection s' = mq_has_seen_network_connection s \<and>
    length (pub_topic s') = length (pub_topic s) \<and>
    (NUL \<in> set (pub_topic s) \<longrightarrow> NUL \<in> set (pub_topic s'))"
  using assms
  by (auto simp: mqtt_do_connect_begin_def Let_def dest!: setup_topics_frame split: mqtt_splits)

lemma mqtt_connect_result_pc:
  "0 \<le> r \<Longrightarrow> r \<le> 35 \<Longrightarrow> mqtt_pc_ok (fst (mqtt_connect_result r err))"
  by (auto simp: mqtt_connect_result_def mqtt_backoff_sec_def Let_def split: option.splits if_splits)

lemma mqtt_thread_inv:
  assumes "app_mqtt_client_thread cfg env (ms_pc x) (ms_state x) = (pc, s, cs)" and "mqtt_inv cfg x"
  shows "mqtt_inv cfg (x\<lparr>ms_pc := pc, ms_state := s\<rparr>)"
  using assms
proof (cases "ms_pc x")
  case (PC_connect_while r)
  obtain q s' cs' where b: "mqtt_do_connect_begin cfg env (ms_state x) = (q, s', cs')"
    by (cases "mqtt_do_connect_begin cfg env (ms_state x)")
  show ?thesis
    using assms PC_connect_while b mqtt_do_connect_begin_frame [OF b]
      mqtt_connect_result_pc [of r "the q"]
    by (auto simp: mqtt_inv_def split: mqtt_splits)
next
  case (PC_helper_connect r)
  then show ?thesis
    using assms mqtt_connect_result_pc [of r "env_helper_connect env"]
      mqtt_connect_result_pc [of r 0]
    by (auto simp: mqtt_inv_def mqtt_do_connect_end_def Let_def split: mqtt_splits)
next
  case (PC_dns_sleep t)
  then have "2 \<le> t" "t < 300" "t mod 10 = 2" using assms(2) by (simp_all add: mqtt_inv_def)
  then have "2 \<le> t + 10 \<and> t + 10 \<le> 302 \<and> (t + 10) mod 10 = 2" by presburger
  then show ?thesis using assms PC_dns_sleep by (auto simp: mqtt_inv_def mqtt_const_defs)
qed (auto simp: mqtt_inv_def mqtt_const_defs mqtt_record_failed_attempt_def mqtt_publish_begin_def
       mqtt_publish_end_def Let_def split: mqtt_splits)

lemma mqtt_handle_inv: "mqtt_inv cfg x \<Longrightarrow> mqtt_inv cfg (fst (mqtt_handle cfg i x))"
proof -
  assume inv: "mqtt_inv cfg x"
  have "(\<lambda>y cs. mqtt_inv cfg y) (fst (mqtt_handle cfg i x)) (snd (mqtt_handle cfg i x))"
  proof (rule mqtt_handle_cases, goal_cases)
    case (1 env pc s cs)
    then show ?case using inv by (rule mqtt_thread_inv)
  qed (use inv in \<open>auto simp: mqtt_inv_def mqtt_callback_defs Let_def split: mqtt_splits\<close>)
  then show ?thesis .
qed

lemma mqtt_initial_inv: "mqtt_inv cfg (mqtt_initial cfg)"
  by (simp add: mqtt_inv_def mqtt_initial_def app_mqtt_client_init_def mqtt_boot_state_def)

text \<open>
  In every reachable state, under any interleaving and any library answers: the client is
  running, a ready network has been seen, the topic buffer keeps its declared size and a terminator,
  the DNS wait is at one of its 31 steps (at most 302 s), and the retry counter never exceeds 35.
\<close>

theorem mqtt_reachable_inv: "mqtt_reachable cfg x \<Longrightarrow> mqtt_inv cfg x"
proof (induction rule: mqtt_reachable.induct)
  case mqtt_reach_init
  show ?case by (rule mqtt_initial_inv)
next
  case (mqtt_reach_step x cs y)
  then show ?case using mqtt_handle_inv [of cfg x] by (metis fst_conv mqtt_step.cases)
qed

theorem mqtt_reachable_inv_witness:
  "mqtt_reachable prj_mqtt_cfg (mqtt_initial prj_mqtt_cfg) \<and>
   length (pub_topic (ms_state (mqtt_initial prj_mqtt_cfg))) = 56"
  using mqtt_reachable_inv [OF mqtt_reach_init, of prj_mqtt_cfg] mqtt_reach_init
  by (simp add: mqtt_inv_def prj_mqtt_cfg_def)

subsection \<open>A broker that keeps refusing\<close>

fun mqtt_sleep_of :: "mqtt_call \<Rightarrow> u32 list" where
  "mqtt_sleep_of (Mqtt_sleep_sec d) = [d]"
| "mqtt_sleep_of _ = []"

definition mqtt_sleeps :: "mqtt_call list \<Rightarrow> u32 list" where
  "mqtt_sleeps cs = concat (map mqtt_sleep_of cs)"

lemma mqtt_sleeps_append [simp]: "mqtt_sleeps (cs @ ds) = mqtt_sleeps cs @ mqtt_sleeps ds"
  by (simp add: mqtt_sleeps_def)

text \<open>
  One round of the connect loop: loop test and \<^verbatim>\<open>mqtt_helper_connect\<close> entered, its return, the
  end of the back-off sleep.
\<close>

definition mqtt_round :: "mqtt_env \<Rightarrow> mqtt_input list" where
  "mqtt_round env = [Mqtt_thread env, Mqtt_thread env, Mqtt_thread env]"

definition mqtt_retrying :: "mqtt_cfg \<Rightarrow> mqtt_env \<Rightarrow> int \<Rightarrow> mqtt_system \<Rightarrow> bool" where
  "mqtt_retrying cfg env r x \<longleftrightarrow>
     ms_pc x = PC_connect_while r \<and> mqtt_client_running (ms_state x) \<and>
     mq_network_ready (ms_state x) \<and>
     current_state (ms_state x) = APP_MQTT_STATE_DISCONNECTED \<and>
     length (pub_topic (ms_state x)) =
       cfg_id_buffer_size cfg + (length (cfg_publish_topic cfg) + 1)"

definition mqtt_refusing :: "mqtt_cfg \<Rightarrow> mqtt_env \<Rightarrow> bool" where
  "mqtt_refusing cfg env \<longleftrightarrow>
     is_c_str (cfg_publish_topic cfg) \<and>
     (\<exists>buf. env_hw_id_get env = (\<lambda>_. (0, buf)) \<and>
        length (c_str buf) + 10 \<le> cfg_id_buffer_size cfg) \<and>
     env_helper_connect env \<noteq> 0 \<and> env_helper_connect env \<noteq> - EINPROGRESS"

lemma mqtt_refused_begin:
  assumes "mqtt_refusing cfg env" and "mqtt_retrying cfg env r x"
  shows "\<exists>s' d. mqtt_do_connect_begin cfg env (ms_state x) =
      (None, s', [Mqtt_helper_connect (cfg_hostname cfg) d]) \<and>
    mq_network_ready s' \<and> mqtt_client_running s' \<and>
    length (pub_topic s') = length (pub_topic (ms_state x))"
proof -
  obtain buf where h: "env_hw_id_get env = (\<lambda>_. (0, buf))"
    "length (c_str buf) + 10 \<le> cfg_id_buffer_size cfg"
    using assms(1) by (auto simp: mqtt_refusing_def)
  let ?s = "(ms_state x)\<lparr>current_state := APP_MQTT_STATE_CONNECTING, client_id := buf\<rparr>"
  obtain s' where t: "setup_topics cfg ?s = (0, s')"
    using setup_topics_spec [of cfg ?s] assms h by (auto simp: mqtt_refusing_def mqtt_retrying_def)
  show ?thesis
    using assms(2) h t setup_topics_frame [OF t]
    by (auto simp: mqtt_do_connect_begin_def mqtt_retrying_def)
qed

lemma mqtt_refused_round:
  assumes "mqtt_refusing cfg env" and "mqtt_retrying cfg env r x"
    and "mqtt_backoff_sec (r + 1) = Some d"
  shows "mqtt_retrying cfg env (r + 1) (fst (run_machine (mqtt_handle cfg) (mqtt_round env) x)) \<and>
    mqtt_sleeps (snd (run_machine (mqtt_handle cfg) (mqtt_round env) x)) = [d]"
  using mqtt_refused_begin [OF assms(1,2)] assms
  by (auto simp: mqtt_round_def mqtt_handle_def mqtt_retrying_def mqtt_refusing_def
      mqtt_do_connect_end_def mqtt_connect_result_def mqtt_sleeps_def)

lemma mqtt_refused_rounds:
  assumes "mqtt_refusing cfg env" and "mqtt_retrying cfg env 0 x" and "n \<le> 35"
  shows "mqtt_retrying cfg env (int n)
      (fst (run_machine (mqtt_handle cfg) (concat (replicate n (mqtt_round env))) x)) \<and>
    mqtt_sleeps (snd (run_machine (mqtt_handle cfg) (concat (replicate n (mqtt_round env))) x)) =
      map (\<lambda>k. the (mqtt_backoff_sec (int k))) [1..<Suc n]"
  using assms(3)
proof (induction n)
  case 0
  then show ?case using assms(2) by (simp add: mqtt_sleeps_def)
next
  case (Suc n)
  let ?is = "concat (replicate n (mqtt_round env))"
  let ?y = "fst (run_machine (mqtt_handle cfg) ?is x)"
  have IH: "mqtt_retrying cfg env (int n) ?y"
    "mqtt_sleeps (snd (run_machine (mqtt_handle cfg) ?is x)) =
      map (\<lambda>k. the (mqtt_backoff_sec (int k))) [1..<Suc n]"
    using Suc by auto
  have eq: "concat (replicate (Suc n) (mqtt_round env)) = ?is @ mqtt_round env"
    by (rule concat_replicate_Suc)
  obtain d where d: "mqtt_backoff_sec (int n + 1) = Some d"
    using Suc.prems
    by (cases "mqtt_backoff_sec (int n + 1)") (auto simp: mqtt_backoff_sec_def Let_def split: if_splits)
  show ?case
    unfolding eq fst_run_machine_append snd_run_machine_append
    using mqtt_refused_round [OF assms(1) IH(1) d] IH(2) d by (simp add: add.commute)
qed

text \<open>
  A broker that keeps refusing: the first 34 retries wait 5, 5, 5, 30, 60, 120, 240 and then
  300 s, the 35th waits 0 s (the 32-bit shift has lost every bit), and the 36th computes a shift
  by 32 that C leaves undefined.
\<close>

theorem mqtt_refused_thirty_five_times:
  assumes "mqtt_refusing cfg env" and "mqtt_retrying cfg env 0 x"
  shows "mqtt_sleeps (snd (run_machine (mqtt_handle cfg) (concat (replicate 35 (mqtt_round env))) x)) =
      [5, 5, 5, 30, 60, 120, 240] @ replicate 27 300 @ [0] \<and>
    ms_pc (fst (run_machine (mqtt_handle cfg)
      (concat (replicate 36 (mqtt_round env))) x)) = PC_undefined"
proof -
  let ?y = "fst (run_machine (mqtt_handle cfg) (concat (replicate 35 (mqtt_round env))) x)"
  have "mqtt_retrying cfg env 35 ?y" using mqtt_refused_rounds [OF assms, of 35] by simp
  then have "ms_pc (fst (run_machine (mqtt_handle cfg) (mqtt_round env) ?y)) = PC_undefined"
    using mqtt_refused_begin [OF assms(1), of 35 ?y] assms(1)
    by (auto simp: mqtt_round_def mqtt_handle_def mqtt_retrying_def mqtt_refusing_def
        mqtt_do_connect_end_def mqtt_connect_result_def mqtt_backoff_sec_def)
  moreover have "concat (replicate 36 (mqtt_round env)) =
      concat (replicate 35 (mqtt_round env)) @ mqtt_round env"
    using concat_replicate_Suc [of 35 "mqtt_round env"] by (simp del: replicate.simps)
  moreover have "map (\<lambda>k. the (mqtt_backoff_sec (int k))) [1..<Suc 35] =
      [5, 5, 5, 30, 60, 120, 240] @ replicate 27 300 @ [0]"
    by code_simp
  ultimately show ?thesis
    using mqtt_refused_rounds [OF assms, of 35] by (simp add: fst_run_machine_append)
qed

theorem mqtt_refused_thirty_five_times_witness:
  "ms_pc (fst (run_machine (mqtt_handle prj_mqtt_cfg)
     (concat (replicate 36 (mqtt_round (mqtt_env_ok\<lparr>env_helper_connect := - 111\<rparr>))))
     \<lparr>ms_pc = PC_connect_while 0,
      ms_state = mqtt_connected_state\<lparr>current_state := APP_MQTT_STATE_DISCONNECTED\<rparr>\<rparr>)) = PC_undefined"
proof -
  let ?env = "mqtt_env_ok\<lparr>env_helper_connect := - 111\<rparr>"
  let ?x = "\<lparr>ms_pc = PC_connect_while 0,
      ms_state = mqtt_connected_state\<lparr>current_state := APP_MQTT_STATE_DISCONNECTED\<rparr>\<rparr>"
  have "c_str (''F4CE36000001'' @ replicate 38 NUL) = ''F4CE36000001''" by (simp add: c_str_def)
  then have r: "mqtt_refusing prj_mqtt_cfg ?env"
    by (auto simp: mqtt_refusing_def prj_mqtt_cfg_def mqtt_env_ok_def is_c_str_def)
  have t: "mqtt_retrying prj_mqtt_cfg ?env 0 ?x"
    by (simp add: mqtt_retrying_def prj_mqtt_cfg_def)
  show ?thesis using mqtt_refused_thirty_five_times [OF r t] by blast
qed

subsection \<open>Connectivity, metrics and the session state\<close>

text \<open>
  Over any sequence of Wi-Fi messages the client's ready flag is the state of the link, the
  worker thread is woken exactly once per transition to connected (repeated notifications are
  absorbed), and the has-seen flag records whether the link was ever up.
\<close>

theorem mqtt_link_tracking:
  assumes "mqtt_client_running s" and "mq_network_ready s \<longrightarrow> mq_has_seen_network_connection s"
  shows "mq_network_ready (fst (run_machine app_mqtt_wifi_listener ms s)) =
      link_after (mq_network_ready s) ms \<and>
    length (filter (\<lambda>c. c = Mqtt_sem_give) (snd (run_machine app_mqtt_wifi_listener ms s))) =
      rising_edges (mq_network_ready s) ms \<and>
    mq_has_seen_network_connection (fst (run_machine app_mqtt_wifi_listener ms s)) =
      (mq_has_seen_network_connection s \<or> WIFI_STA_CONNECTED \<in> set ms)"
  using mqtt_link.ready_run mqtt_link.wakes_run mqtt_link.seen_run assms by blast

theorem mqtt_link_tracking_witness:
  "\<not> mq_network_ready (fst (run_machine app_mqtt_wifi_listener
      [WIFI_STA_CONNECTED, WIFI_STA_CONNECTED, WIFI_STA_DISCONNECTED]
      (snd (app_mqtt_client_init (mqtt_boot_state prj_mqtt_cfg)))))"
  using mqtt_link_tracking [of "snd (app_mqtt_client_init (mqtt_boot_state prj_mqtt_cfg))"
      "[WIFI_STA_CONNECTED, WIFI_STA_CONNECTED, WIFI_STA_DISCONNECTED]"]
  by (simp add: app_mqtt_client_init_def mqtt_boot_state_def)

text \<open>
  A pending connection attempt is left only by the library's CONNACK or disconnect callback or
  by an error return of \<^verbatim>\<open>mqtt_helper_connect\<close>; in particular losing the network does not reset
  it, so after a reconnect the thread keeps waiting for that attempt.
\<close>

theorem mqtt_connecting_left:
  assumes "mqtt_handle cfg i x = (y, cs)"
    and "current_state (ms_state x) = APP_MQTT_STATE_CONNECTING"
    and "current_state (ms_state y) \<noteq> APP_MQTT_STATE_CONNECTING"
  shows "(\<exists>rc sp. i = Mqtt_connack rc sp) \<or> (\<exists>r. i = Mqtt_disconnect r) \<or>
    (\<exists>env r. i = Mqtt_thread env \<and> ms_pc x = PC_helper_connect r \<and> env_helper_connect env \<noteq> 0)"
proof (cases i)
  case (Mqtt_thread env)
  then show ?thesis
    using assms
    by (cases "ms_pc x")
       (auto simp: mqtt_handle_def mqtt_do_connect_begin_def mqtt_do_connect_end_def
          mqtt_publish_begin_def mqtt_publish_end_def mqtt_record_failed_attempt_def Let_def
          split: mqtt_splits)
qed (use assms in \<open>auto simp: mqtt_handle_def mqtt_callback_defs Let_def split: mqtt_splits\<close>)

theorem mqtt_connecting_left_witness:
  "\<exists>y cs. mqtt_handle prj_mqtt_cfg (Mqtt_disconnect (- 128))
     \<lparr>ms_pc = PC_connect_sleep 0,
      ms_state = mqtt_connected_state\<lparr>current_state := APP_MQTT_STATE_CONNECTING\<rparr>\<rparr> = (y, cs) \<and>
   current_state (ms_state y) = APP_MQTT_STATE_DISCONNECTED \<and>
   (\<exists>r. Mqtt_disconnect (- 128) = Mqtt_disconnect r)"
proof -
  let ?x = "\<lparr>ms_pc = PC_connect_sleep 0,
      ms_state = mqtt_connected_state\<lparr>current_state := APP_MQTT_STATE_CONNECTING\<rparr>\<rparr>"
  obtain y cs where h: "mqtt_handle prj_mqtt_cfg (Mqtt_disconnect (- 128)) ?x = (y, cs)"
    by fastforce
  then have "current_state (ms_state y) = APP_MQTT_STATE_DISCONNECTED"
    by (auto simp: mqtt_handle_def on_mqtt_disconnect_def)
  then show ?thesis using h mqtt_connecting_left [OF h] by auto
qed

text \<open>
  The success count printed with a passed test, total minus failures in 32 bits, can wrap
  around: publish errors count failures without counting a test, so after two of them the first
  good echo is reported as 4294967295 passed out of 1.
\<close>

theorem mqtt_success_count_wraps:
  "\<exists>s1 cs1 s2 cs2 s3 cs3 s4 cs4.
     mqtt_publish_message (- 5) mqtt_connected_state = (- 5, s1, cs1) \<and>
     mqtt_publish_message (- 5) s1 = (- 5, s2, cs2) \<and>
     mqtt_publish_message 0 s2 = (0, s3, cs3) \<and>
     on_mqtt_publish [] (fmt_u 3) s3 = (s4, cs4) \<and>
     Mqtt_log_test True 4294967295 1 \<in> set cs4"
  by (simp add: mqtt_publish_message_def mqtt_publish_begin_ok mqtt_publish_end_def
      mqtt_const_defs on_mqtt_publish_match)

end
