(* ===== verification/Flash_Area.thy ===== *)
theory Flash_Area
  imports Nwm_Prelude
begin

text \<open>
  The flash-area driver of Zephyr, which the log-state and the CDR-state modules use, is not part
  of the application: it is the record \<open>flash_area\<close> of its operations over an arbitrary driver
  state, an argument of every definition that uses it. What its documentation promises is the
  predicate \<open>flash_ok\<close>, stated through the byte image of the partition: reads return the image,
  a write to erased bytes stores the data, a write never touches bytes outside its range whether
  it succeeds or fails, an erase sets its range to \<^verbatim>\<open>0xff\<close>. \<open>flash_reliable\<close> says in addition that
  operations inside the partition succeed. \<open>ram_flash\<close> is a concrete driver that meets both.
  \<open>flash_progressive\<close> is for the other case: an operation that fails, because of the hardware or because
  the power is cut, has done its work up to some address and not beyond; \<open>cut_flash\<close> is a driver whose
  power goes after a number of bytes.

  The locale \<open>one_shot_store\<close> is the contract that the two users of a partition implement:
  a payload that was persisted is what the next restore returns, once. \<open>crash_safe_store\<close> adds that an
  operation that is interrupted leaves the old snapshot, none, or the new one.
\<close>

record 'f flash_area =
  fa_size :: u32
  fa_open :: "'f \<Rightarrow> int \<times> 'f"
  fa_read :: "u32 \<Rightarrow> byte list \<Rightarrow> 'f \<Rightarrow> int \<times> byte list \<times> 'f"
  fa_write :: "u32 \<Rightarrow> byte list \<Rightarrow> 'f \<Rightarrow> int \<times> 'f"
  fa_erase :: "u32 \<Rightarrow> u32 \<Rightarrow> 'f \<Rightarrow> int \<times> 'f"
  fa_close :: "'f \<Rightarrow> 'f"

abbreviation erased_byte :: byte where "erased_byte \<equiv> 255"

definition flash_ok :: "('f \<Rightarrow> byte list) \<Rightarrow> 'f flash_area \<Rightarrow> bool" where
  "flash_ok img fa \<longleftrightarrow>
     (\<forall>f. length (img f) = unat (fa_size fa)) \<and>
     (\<forall>f. img (snd (fa_open fa f)) = img f) \<and>
     (\<forall>f. img (fa_close fa f) = img f) \<and>
     (\<forall>off buf f e buf' f'. fa_read fa off buf f = (e, buf', f') \<longrightarrow>
        img f' = img f \<and> length buf' = length buf \<and>
        (e = 0 \<longrightarrow> unat off + length buf \<le> unat (fa_size fa) \<and>
           buf' = take (length buf) (drop (unat off) (img f)))) \<and>
     (\<forall>off data f e f'. fa_write fa off data f = (e, f') \<longrightarrow>
        take (unat off) (img f') = take (unat off) (img f) \<and>
        drop (unat off + length data) (img f') = drop (unat off + length data) (img f) \<and>
        (e = 0 \<longrightarrow> unat off + length data \<le> unat (fa_size fa) \<and>
           (take (length data) (drop (unat off) (img f)) = replicate (length data) erased_byte \<longrightarrow>
              take (length data) (drop (unat off) (img f')) = data))) \<and>
     (\<forall>off n f f'. fa_erase fa off n f = (0, f') \<longrightarrow>
        unat off + unat n \<le> unat (fa_size fa) \<and>
        img f' = splice (unat off) (replicate (unat n) erased_byte) (img f))"

definition flash_reliable :: "'f flash_area \<Rightarrow> bool" where
  "flash_reliable fa \<longleftrightarrow>
     (\<forall>f. fst (fa_open fa f) = 0) \<and>
     (\<forall>off buf f. unat off + length buf \<le> unat (fa_size fa) \<longrightarrow> fst (fa_read fa off buf f) = 0) \<and>
     (\<forall>off data f. unat off + length data \<le> unat (fa_size fa) \<longrightarrow> fst (fa_write fa off data f) = 0) \<and>
     (\<forall>off n f. unat off + unat n \<le> unat (fa_size fa) \<longrightarrow> fst (fa_erase fa off n f) = 0)"

text \<open>What a failed operation leaves behind when the driver works in the order of the addresses.\<close>

definition flash_progressive :: "('f \<Rightarrow> byte list) \<Rightarrow> 'f flash_area \<Rightarrow> bool" where
  "flash_progressive img fa \<longleftrightarrow>
     (\<forall>off data f e f'. fa_write fa off data f = (e, f') \<longrightarrow> e \<noteq> 0 \<longrightarrow>
        take (length data) (drop (unat off) (img f)) = replicate (length data) erased_byte \<longrightarrow>
        (\<exists>m \<le> length data. img f' = splice (unat off) (take m data) (img f))) \<and>
     (\<forall>off n f e f'. fa_erase fa off n f = (e, f') \<longrightarrow> e \<noteq> 0 \<longrightarrow>
        (\<exists>m \<le> unat n. img f' = splice (unat off) (replicate m erased_byte) (img f)))"

subsection \<open>Consequences of the driver contract\<close>

lemma flash_ok_length: "flash_ok img fa \<Longrightarrow> length (img f) = unat (fa_size fa)"
  by (simp add: flash_ok_def)

lemma flash_ok_open: "flash_ok img fa \<Longrightarrow> fa_open fa f = (e, f') \<Longrightarrow> img f' = img f"
  unfolding flash_ok_def by (metis snd_conv)

lemma flash_ok_close: "flash_ok img fa \<Longrightarrow> img (fa_close fa f) = img f"
  by (simp add: flash_ok_def)

lemma flash_ok_read:
  assumes "flash_ok img fa" "fa_read fa off buf f = (e, buf', f')"
  shows "img f' = img f" "length buf' = length buf"
    "e = 0 \<Longrightarrow> unat off + length buf \<le> unat (fa_size fa)"
    "e = 0 \<Longrightarrow> buf' = take (length buf) (drop (unat off) (img f))"
proof -
  have "img f' = img f \<and> length buf' = length buf \<and>
      (e = 0 \<longrightarrow> unat off + length buf \<le> unat (fa_size fa) \<and>
         buf' = take (length buf) (drop (unat off) (img f)))"
    using assms unfolding flash_ok_def by blast
  then show "img f' = img f" "length buf' = length buf"
    "e = 0 \<Longrightarrow> unat off + length buf \<le> unat (fa_size fa)"
    "e = 0 \<Longrightarrow> buf' = take (length buf) (drop (unat off) (img f))" by auto
qed

lemma flash_ok_write:
  assumes "flash_ok img fa" "fa_write fa off data f = (e, f')"
  shows "take (unat off) (img f') = take (unat off) (img f)"
    "drop (unat off + length data) (img f') = drop (unat off + length data) (img f)"
    "e = 0 \<Longrightarrow> unat off + length data \<le> unat (fa_size fa)"
    "e = 0 \<Longrightarrow> take (length data) (drop (unat off) (img f)) = replicate (length data) erased_byte \<Longrightarrow>
       take (length data) (drop (unat off) (img f')) = data"
proof -
  have "take (unat off) (img f') = take (unat off) (img f) \<and>
      drop (unat off + length data) (img f') = drop (unat off + length data) (img f) \<and>
      (e = 0 \<longrightarrow> unat off + length data \<le> unat (fa_size fa) \<and>
         (take (length data) (drop (unat off) (img f)) = replicate (length data) erased_byte \<longrightarrow>
            take (length data) (drop (unat off) (img f')) = data))"
    using assms unfolding flash_ok_def by blast
  then show "take (unat off) (img f') = take (unat off) (img f)"
    "drop (unat off + length data) (img f') = drop (unat off + length data) (img f)"
    "e = 0 \<Longrightarrow> unat off + length data \<le> unat (fa_size fa)"
    "e = 0 \<Longrightarrow> take (length data) (drop (unat off) (img f)) = replicate (length data) erased_byte \<Longrightarrow>
       take (length data) (drop (unat off) (img f')) = data" by auto
qed

lemma flash_ok_write_erased:
  assumes "flash_ok img fa" "fa_write fa off data f = (0, f')"
    and "take (length data) (drop (unat off) (img f)) = replicate (length data) erased_byte"
  shows "img f' = splice (unat off) data (img f)"
proof -
  note w = flash_ok_write [OF assms(1,2)]
  have "img f' = take (unat off) (img f') @ take (length data) (drop (unat off) (img f')) @
      drop (unat off + length data) (img f')"
    by (metis append.assoc append_take_drop_id take_add)
  then show ?thesis using w(1,2) w(4) [OF refl assms(3)] by (simp add: splice_def)
qed

lemma flash_ok_erase_all:
  assumes "flash_ok img fa" "fa_erase fa 0 (fa_size fa) f = (0, f')"
  shows "img f' = replicate (unat (fa_size fa)) erased_byte"
proof -
  have "img f' = splice 0 (replicate (unat (fa_size fa)) erased_byte) (img f)"
    using assms unfolding flash_ok_def by (metis unsigned_0)
  then show ?thesis using flash_ok_length [OF assms(1), of f] by (simp add: splice_def)
qed

lemma flash_progressive_write:
  assumes "flash_progressive img fa" "fa_write fa off data f = (e, f')" "e \<noteq> 0"
    "take (length data) (drop (unat off) (img f)) = replicate (length data) erased_byte"
  obtains m where "m \<le> length data" "img f' = splice (unat off) (take m data) (img f)"
  using assms unfolding flash_progressive_def by blast

text \<open>An erase of the whole partition, interrupted or not, did nothing, or the first byte is gone.\<close>

lemma flash_progressive_erase:
  assumes "flash_ok img fa" "flash_progressive img fa" "fa_erase fa 0 (fa_size fa) f = (e, f')"
  shows "img f' = img f \<or> take 1 (img f') = [erased_byte]"
proof (cases "e = 0")
  case True
  then have "img f' = replicate (unat (fa_size fa)) erased_byte"
    using flash_ok_erase_all [OF assms(1)] assms(3) by simp
  then show ?thesis using flash_ok_length [OF assms(1), of f] by (cases "unat (fa_size fa)") simp_all
next
  case False
  then obtain m where m: "img f' = splice 0 (replicate m erased_byte) (img f)"
    using assms(2,3) unfolding flash_progressive_def by (metis unsigned_0)
  then show ?thesis by (cases m) (simp_all add: splice_def)
qed

subsection \<open>A driver over a byte array\<close>

definition ram_flash :: "u32 \<Rightarrow> byte list flash_area" where
  "ram_flash n =
     \<lparr>fa_size = n,
      fa_open = (\<lambda>f. (0, f)),
      fa_read = (\<lambda>off buf f.
        if unat off + length buf \<le> unat n
        then (0, take (length buf) (drop (unat off) (take (unat n) (f @ replicate (unat n) 0))), f)
        else (- EINVAL, buf, f)),
      fa_write = (\<lambda>off data f.
        if unat off + length data \<le> unat n
        then (0, splice (unat off) data (take (unat n) (f @ replicate (unat n) 0)))
        else (- EINVAL, f)),
      fa_erase = (\<lambda>off k f.
        if unat off + unat k \<le> unat n
        then (0, splice (unat off) (replicate (unat k) erased_byte)
                (take (unat n) (f @ replicate (unat n) 0)))
        else (- EINVAL, f)),
      fa_close = (\<lambda>f. f)\<rparr>"

definition ram_image :: "u32 \<Rightarrow> byte list \<Rightarrow> byte list" where
  "ram_image n f = take (unat n) (f @ replicate (unat n) 0)"

lemma length_ram_image [simp]: "length (ram_image n f) = unat n"
  by (simp add: ram_image_def)

lemma ram_image_id: "length f = unat n \<Longrightarrow> ram_image n f = f"
  by (simp add: ram_image_def)

lemma ram_flash_ok: "flash_ok (ram_image n) (ram_flash n)"
proof -
  have w: "ram_image n (splice off ys (ram_image n f)) = splice off ys (ram_image n f)"
    if "off + length ys \<le> unat n" for off ys f
    using that by (intro ram_image_id) simp
  show ?thesis
    unfolding flash_ok_def ram_flash_def ram_image_def [symmetric]
    by (auto simp: w take_splice_before drop_splice_after take_drop_splice_same split: if_splits)
qed

lemma ram_flash_reliable: "flash_reliable (ram_flash n)"
  by (auto simp: flash_reliable_def ram_flash_def)

lemma ram_flash_progressive: "flash_progressive (ram_image n) (ram_flash n)"
proof -
  have 0: "splice off (take 0 data) xs = xs" "splice off (replicate 0 b) xs = xs" for off data b and xs :: "byte list"
    by (simp_all add: splice_def)
  have w: "f' = f" if "fa_write (ram_flash n) off data f = (e, f')" "e \<noteq> 0" for off data f e f'
    using that by (auto simp: ram_flash_def split: if_splits)
  have e: "f' = f" if "fa_erase (ram_flash n) off k f = (e, f')" "e \<noteq> 0" for off k f e f'
    using that by (auto simp: ram_flash_def split: if_splits)
  show ?thesis
    unfolding flash_progressive_def by (metis 0 w e zero_le)
qed

text \<open>
  The same array with a limited supply: the state is the array and the number of bytes that can still be
  erased or programmed before the power goes. The operation that runs out of it fails half-way, in the
  order of the addresses; everything after it fails without effect.
\<close>

definition cut_bytes :: "byte list \<Rightarrow> nat \<Rightarrow> byte list \<times> nat \<Rightarrow> u32 \<Rightarrow> int \<times> byte list \<times> nat" where
  "cut_bytes data off x n =
     (if off + length data \<le> unat n
      then (if length data \<le> snd x then 0 else - EIO,
            splice off (take (snd x) data) (ram_image n (fst x)), snd x - length data)
      else (- EINVAL, x))"

definition cut_flash :: "u32 \<Rightarrow> (byte list \<times> nat) flash_area" where
  "cut_flash n =
     \<lparr>fa_size = n,
      fa_open = (\<lambda>x. (0, x)),
      fa_read = (\<lambda>off buf x.
        if unat off + length buf \<le> unat n
        then (0, take (length buf) (drop (unat off) (ram_image n (fst x))), x)
        else (- EINVAL, buf, x)),
      fa_write = (\<lambda>off data x. cut_bytes data (unat off) x n),
      fa_erase = (\<lambda>off k x. cut_bytes (replicate (unat k) erased_byte) (unat off) x n),
      fa_close = (\<lambda>x. x)\<rparr>"

lemma cut_bytes_image:
  assumes "cut_bytes data off x n = (e, x')"
  shows "ram_image n (fst x') = (if off + length data \<le> unat n then splice off (take (snd x) data) (ram_image n (fst x))
      else ram_image n (fst x))"
    and "e = 0 \<longleftrightarrow> off + length data \<le> unat n \<and> length data \<le> snd x"
proof -
  have "length (splice off (take (snd x) data) (ram_image n (fst x))) = unat n" if "off + length data \<le> unat n"
    using that by (subst length_splice) auto
  then show "ram_image n (fst x') = (if off + length data \<le> unat n then splice off (take (snd x) data) (ram_image n (fst x))
      else ram_image n (fst x))"
    using assms by (auto simp: cut_bytes_def ram_image_id split: if_splits)
  show "e = 0 \<longleftrightarrow> off + length data \<le> unat n \<and> length data \<le> snd x"
    using assms by (auto simp: cut_bytes_def split: if_splits)
qed

lemma cut_flash_ok: "flash_ok (\<lambda>x. ram_image n (fst x)) (cut_flash n)"
proof -
  have w: "take off (ram_image n (fst x')) = take off (ram_image n (fst x)) \<and>
      drop (off + length data) (ram_image n (fst x')) = drop (off + length data) (ram_image n (fst x)) \<and>
      (e = 0 \<longrightarrow> off + length data \<le> unat n \<and> ram_image n (fst x') = splice off data (ram_image n (fst x)))"
    if "cut_bytes data off x n = (e, x')" for data off x e x'
    using cut_bytes_image [OF that] by (auto simp: take_splice_before drop_splice_after)
  show ?thesis
    unfolding flash_ok_def cut_flash_def
    by (auto dest!: w simp: take_drop_splice_same split: if_splits)
qed

lemma cut_flash_progressive: "flash_progressive (\<lambda>x. ram_image n (fst x)) (cut_flash n)"
proof -
  have w: "\<exists>m \<le> length data. ram_image n (fst x') = splice off (take m data) (ram_image n (fst x))"
    if "cut_bytes data off x n = (e, x')" for data off x e x'
  proof (cases "off + length data \<le> unat n")
    case True
    have "take (snd x) data = take (min (snd x) (length data)) data" by (simp add: min_def)
    then show ?thesis using True cut_bytes_image(1) [OF that] by (metis min.cobounded2)
  next
    case False
    then show ?thesis using cut_bytes_image(1) [OF that] by (intro exI [of _ 0]) (simp add: splice_def)
  qed
  have "\<exists>m \<le> k. ram_image n (fst x') = splice off (replicate m erased_byte) (ram_image n (fst x))"
    if "cut_bytes (replicate k erased_byte) off x n = (e, x')" for k off x e x'
    using w [OF that] by (metis length_replicate min.absorb2 take_replicate min.commute)
  then show ?thesis using w unfolding flash_progressive_def cut_flash_def by auto
qed

subsection \<open>The contract of a one-shot store\<close>

text \<open>
  \<open>stored k img\<close> is the payload that a partition image holds for a reader of shape \<open>k\<close> (the buffer
  sizes of the reading firmware), \<open>fits\<close> says that a payload has that shape and a legal size.
\<close>

locale one_shot_store =
  fixes persist :: "'f flash_area \<Rightarrow> 'p \<Rightarrow> 'f \<Rightarrow> int \<times> 'f"
    and restore :: "'f flash_area \<Rightarrow> 'k \<Rightarrow> 'f \<Rightarrow> int \<times> 'p option \<times> 'f"
    and stored :: "'k \<Rightarrow> byte list \<Rightarrow> 'p option"
    and fits :: "'k \<Rightarrow> 'p \<Rightarrow> bool"
  assumes erased_empty: "stored k (replicate n erased_byte) = None"
    and persist_stores:
      "flash_ok img fa \<Longrightarrow> fits k p \<Longrightarrow> persist fa p f = (0, f') \<Longrightarrow> stored k (img f') = Some p"
    and persist_fails_empty:
      "flash_ok img fa \<Longrightarrow> fits k p \<Longrightarrow> persist fa p f = (e, f') \<Longrightarrow> e \<noteq> 0 \<Longrightarrow>
       (\<And>data g. fst (fa_write fa 0 data g) = 0) \<Longrightarrow>
       (\<And>g. fst (fa_erase fa 0 (fa_size fa) g) = 0) \<Longrightarrow>
       img f' = img f \<or> stored k (img f') = None"
    and restore_reads:
      "flash_ok img fa \<Longrightarrow> restore fa k f = (0, r, f') \<Longrightarrow> r \<noteq> None \<and> r = stored k (img f)"
    and restore_reliable:
      "flash_ok img fa \<Longrightarrow> flash_reliable fa \<Longrightarrow> stored k (img f) = Some p \<Longrightarrow> fits k p \<Longrightarrow>
       fst (restore fa k f) = 0"
    and restore_erases:
      "flash_ok img fa \<Longrightarrow> restore fa k f = (0, r, f') \<Longrightarrow>
       (\<And>g. fst (fa_erase fa 0 (fa_size fa) g) = 0) \<Longrightarrow>
       img f' = replicate (unat (fa_size fa)) erased_byte"
begin

text \<open>Whatever a restore after a successful persist returns, it is the persisted payload.\<close>

lemma persist_restore_same:
  assumes "flash_ok img fa" "fits k p" "persist fa p f = (0, f1)" "restore fa k f1 = (0, r, f2)"
  shows "r = Some p"
  using persist_stores [OF assms(1-3)] restore_reads [OF assms(1,4)] by simp

text \<open>With a working driver the restore succeeds, once.\<close>

lemma persist_restore_roundtrip:
  assumes "flash_ok img fa" "flash_reliable fa" "fits k p" "persist fa p f = (0, f1)"
  shows "\<exists>f2. restore fa k f1 = (0, Some p, f2) \<and> fst (restore fa k f2) \<noteq> 0"
proof -
  have s: "stored k (img f1) = Some p" using assms persist_stores by blast
  have "fst (restore fa k f1) = 0" using restore_reliable [OF assms(1,2) s assms(3)] .
  then obtain r f2 where r: "restore fa k f1 = (0, r, f2)" by (metis prod.collapse)
  have "r = Some p" using persist_restore_same assms r by blast
  have er: "fst (fa_erase fa 0 (fa_size fa) g) = 0" for g
    using assms(2) by (simp add: flash_reliable_def)
  have "stored k (img f2) = None" using restore_erases [OF assms(1) r er] erased_empty by simp
  then have "fst (restore fa k f2) \<noteq> 0"
    using restore_reads [OF assms(1), of k f2] by (cases "restore fa k f2") auto
  with r \<open>r = Some p\<close> show ?thesis by blast
qed

text \<open>A failed persist leaves nothing that a restore would take for a snapshot.\<close>

lemma persist_failed_restore:
  assumes "flash_ok img fa" "fits k p" "persist fa p f = (e, f1)" "e \<noteq> 0"
    "\<And>data g. fst (fa_write fa 0 data g) = 0" "\<And>g. fst (fa_erase fa 0 (fa_size fa) g) = 0"
    "stored k (img f) = None"
  shows "fst (restore fa k f1) \<noteq> 0"
proof -
  have "stored k (img f1) = None" using persist_fails_empty [OF assms(1-6)] assms(7) by auto
  then show ?thesis using restore_reads [OF assms(1), of k f1] by (cases "restore fa k f1") auto
qed

end

text \<open>
  A store whose interrupted operations are harmless: whatever operation of the driver fails, and wherever
  in it, a persist leaves the snapshot that was there, none, or the new one, and a restore that fails
  leaves the snapshot or none.
\<close>

locale crash_safe_store = one_shot_store +
  assumes persist_interrupted:
      "flash_ok img fa \<Longrightarrow> flash_progressive img fa \<Longrightarrow> fits k p \<Longrightarrow> persist fa p f = (e, f') \<Longrightarrow> e \<noteq> 0 \<Longrightarrow>
       stored k (img f') = stored k (img f) \<or> stored k (img f') = None \<or> stored k (img f') = Some p"
    and restore_interrupted:
      "flash_ok img fa \<Longrightarrow> flash_progressive img fa \<Longrightarrow> restore fa k f = (e, r, f') \<Longrightarrow>
       stored k (img f') = stored k (img f) \<or> stored k (img f') = None"

end
