(* ===== verification/Log_State.thy ===== *)
theory Log_State
  imports Flash_Area
begin

text \<open>
  Persisting the Memfault log ring buffer across a disconnect,
  \<^verbatim>\<open>src/src/modules/app_memfault/core/app_memfault_log_state_restore.c\<close>.

  \<open>log_save_state\<close> is the SDK's \<^verbatim>\<open>sMfltLogSaveState\<close>: the two live buffers \<^verbatim>\<open>memfault_log_get_state()\<close>
  points at (\<open>None\<close> for a null pointer; the lengths are the lengths of the lists). Restoring writes
  into them in place, so the new contents are part of the result on every path, the failing ones
  included. The flash driver is the parameter \<open>fa\<close> of \<^theory_text>\<open>Flash_Area\<close>; the calls back into the
  SDK and the logger are listed in \<open>log_call\<close>.
\<close>

subsection \<open>Data\<close>

record log_save_state =
  ls_context :: "byte list option"
  ls_storage :: "byte list option"

record log_state_hdr =
  lh_magic :: u32
  lh_version :: u16
  lh_reserved :: u16
  lh_context_len :: u32
  lh_storage_len :: u32

datatype log_call = Memfault_log_data_source_reset | Log_restore_marker | Log_flush

definition LOG_STATE_MAGIC :: u32 where "LOG_STATE_MAGIC = 0x4d4c5352"
definition LOG_STATE_VER :: u16 where "LOG_STATE_VER = 2"

text \<open>The packed header: 16 bytes, as the \<^verbatim>\<open>BUILD_ASSERT\<close> checks.\<close>

definition log_hdr_bytes :: "log_state_hdr \<Rightarrow> byte list" where
  "log_hdr_bytes h = le32 (lh_magic h) @ le16 (lh_version h) @ le16 (lh_reserved h) @
     le32 (lh_context_len h) @ le32 (lh_storage_len h)"

definition log_hdr_of_bytes :: "byte list \<Rightarrow> log_state_hdr" where
  "log_hdr_of_bytes bs =
     \<lparr>lh_magic = of_le32 bs, lh_version = of_le16 (drop 4 bs), lh_reserved = of_le16 (drop 6 bs),
      lh_context_len = of_le32 (drop 8 bs), lh_storage_len = of_le32 (drop 12 bs)\<rparr>"

subsection \<open>Persist\<close>

definition log_persist_payload ::
  "'f flash_area \<Rightarrow> byte list \<times> byte list \<Rightarrow> 'f \<Rightarrow> int \<times> 'f" where
  "log_persist_payload fa p f =
     (let (ctx, sto) = p;
          total_len = 16 + of_nat (length ctx) + of_nat (length sto) :: u32;
          (err, f1) = fa_open fa f
      in if err \<noteq> 0 then (err, f1)
         else if total_len > fa_size fa then (- ENOSPC, fa_close fa f1)
         else let (err, f2) = fa_erase fa 0 (fa_size fa) f1
              in if err \<noteq> 0 then (err, fa_close fa f2)
                 else let (err3, f3) = fa_write fa 16 ctx f2;
                          (err, f4) = (if err3 = 0
                                       then fa_write fa (16 + of_nat (length ctx)) sto f3
                                       else (err3, f3))
                      in if err \<noteq> 0 then (err, fa_close fa f4)
                         else let hdr = \<lparr>lh_magic = LOG_STATE_MAGIC, lh_version = LOG_STATE_VER,
                                         lh_reserved = 0, lh_context_len = of_nat (length ctx),
                                         lh_storage_len = of_nat (length sto)\<rparr>;
                                  (err, f5) = fa_write fa 0 (log_hdr_bytes hdr) f4;
                                  f6 = fa_close fa f5
                              in if err \<noteq> 0 then (err, f6) else (0, f6))"

definition memfault_log_state_persist_now ::
  "'f flash_area \<Rightarrow> log_save_state \<Rightarrow> 'f \<Rightarrow> int \<times> 'f" where
  "memfault_log_state_persist_now fa state f =
     (case (ls_context state, ls_storage state) of
        (Some ctx, Some sto) \<Rightarrow> log_persist_payload fa (ctx, sto) f
      | _ \<Rightarrow> (- EINVAL, f))"

subsection \<open>Restore\<close>

definition log_hdr_valid :: "log_state_hdr \<Rightarrow> bool" where
  "log_hdr_valid hdr \<longleftrightarrow>
     \<not> (lh_magic hdr \<noteq> LOG_STATE_MAGIC \<or> lh_version hdr \<noteq> LOG_STATE_VER \<or>
        lh_context_len hdr = 0 \<or> lh_storage_len hdr = 0)"

text \<open>The in-place overwrite of the live buffers, and the unconditional erase.\<close>

definition log_restore_in_place ::
  "'f flash_area \<Rightarrow> u32 \<Rightarrow> byte list \<Rightarrow> byte list \<Rightarrow> 'f \<Rightarrow> int \<times> byte list \<times> byte list \<times> 'f" where
  "log_restore_in_place fa context_len ctx sto f =
     (let (err1, ctx', f1) = fa_read fa 16 ctx f;
          (err, sto', f2) = (if err1 = 0 then fa_read fa (16 + context_len) sto f1
                             else (err1, sto, f1));
          f3 = snd (fa_erase fa 0 (fa_size fa) f2)
      in (err, ctx', sto', fa_close fa f3))"

definition memfault_log_state_restore_on_connect ::
  "'f flash_area \<Rightarrow> log_save_state \<Rightarrow> 'f \<Rightarrow> int \<times> log_save_state \<times> log_call list \<times> 'f" where
  "memfault_log_state_restore_on_connect fa live f =
     (let (err, f1) = fa_open fa f
      in if err \<noteq> 0 then (- ENOENT, live, [], f1)
         else let (err, hbytes, f2) = fa_read fa 0 (replicate 16 0) f1
              in if err \<noteq> 0 then (- ENOENT, live, [], fa_close fa f2)
                 else let hdr = log_hdr_of_bytes hbytes
                      in if \<not> log_hdr_valid hdr then (- ENOENT, live, [], fa_close fa f2)
                         else (case (ls_context live, ls_storage live) of
                             (Some ctx, Some sto) \<Rightarrow>
                               if lh_context_len hdr \<noteq> of_nat (length ctx) \<or>
                                  lh_storage_len hdr \<noteq> of_nat (length sto)
                               then (- ENOSPC, live, [],
                                     fa_close fa (snd (fa_erase fa 0 (fa_size fa) f2)))
                               else let (err, ctx', sto', f3) =
                                          log_restore_in_place fa (lh_context_len hdr) ctx sto f2;
                                        live' = live\<lparr>ls_context := Some ctx', ls_storage := Some sto'\<rparr>
                                    in if err \<noteq> 0 then (err, live', [], f3)
                                       else (0, live', [Memfault_log_data_source_reset,
                                                        Log_restore_marker, Log_flush], f3)
                           | _ \<Rightarrow> (- EINVAL, live, [],
                                   fa_close fa (snd (fa_erase fa 0 (fa_size fa) f2)))))"

text \<open>The SDK's boot-time hook: always false, the restore happens at connect time.\<close>

definition memfault_log_restore_state :: "log_save_state \<Rightarrow> bool" where
  "memfault_log_restore_state state = False"

subsection \<open>What a partition image holds\<close>

definition log_stored :: "byte list \<times> byte list \<Rightarrow> byte list \<Rightarrow> (byte list \<times> byte list) option" where
  "log_stored k img =
     (let hdr = log_hdr_of_bytes (take 16 img); lc = length (fst k); ls = length (snd k)
      in if 16 + lc + ls \<le> length img \<and> log_hdr_valid hdr \<and>
            lh_context_len hdr = of_nat lc \<and> lh_storage_len hdr = of_nat ls
         then Some (take lc (drop 16 img), take ls (drop (16 + lc) img))
         else None)"

definition log_fits :: "byte list \<times> byte list \<Rightarrow> byte list \<times> byte list \<Rightarrow> bool" where
  "log_fits k p \<longleftrightarrow> length (fst p) = length (fst k) \<and> length (snd p) = length (snd k) \<and>
     0 < length (fst p) \<and> 0 < length (snd p) \<and> 16 + length (fst p) + length (snd p) < 2 ^ 32"

definition log_restore_payload ::
  "'f flash_area \<Rightarrow> byte list \<times> byte list \<Rightarrow> 'f \<Rightarrow> int \<times> (byte list \<times> byte list) option \<times> 'f" where
  "log_restore_payload fa k f =
     (let (err, live', _, f') = memfault_log_state_restore_on_connect fa
            \<lparr>ls_context = Some (fst k), ls_storage = Some (snd k)\<rparr> f
      in (err, if err = 0 then Some (the (ls_context live'), the (ls_storage live')) else None, f'))"

subsection \<open>Headers\<close>

lemma length_log_hdr_bytes [simp]: "length (log_hdr_bytes h) = 16"
  by (simp add: log_hdr_bytes_def)

lemma log_hdr_roundtrip [simp, codec_simps]: "log_hdr_of_bytes (log_hdr_bytes h) = h"
  by (simp add: log_hdr_bytes_def log_hdr_of_bytes_def)

lemma log_hdr_erased [simp]: "\<not> log_hdr_valid (log_hdr_of_bytes (replicate 16 erased_byte))"
proof -
  have "of_le32 (replicate 16 erased_byte) \<noteq> LOG_STATE_MAGIC"
    unfolding LOG_STATE_MAGIC_def by code_simp
  then show ?thesis by (simp add: log_hdr_valid_def log_hdr_of_bytes_def)
qed

lemma log_stored_erased:
  "take 16 img = replicate 16 erased_byte \<Longrightarrow> log_stored k img = None"
  unfolding log_stored_def Let_def by (simp only: log_hdr_erased) simp

lemma log_stored_short: "length img < 16 \<Longrightarrow> log_stored k img = None"
  by (simp add: log_stored_def)

subsection \<open>The persisted image\<close>

lemma log_total_len:
  "16 + length c + length s < 2 ^ 32 \<Longrightarrow>
   unat (16 + of_nat (length c) + of_nat (length s) :: u32) = 16 + length c + length s"
  using unat_of_nat_u32 [of "16 + length c + length s"] by simp

lemma splice_layout:
  assumes "length h = 16" "16 + length c + length s \<le> n"
  shows "splice 0 h (splice (16 + length c) s (splice 16 c (replicate n b))) =
    h @ c @ s @ replicate (n - (16 + length c + length s)) b"
  using assms by (simp add: splice_def min_def)

text \<open>The header a persist writes, and the ways a persist ends.\<close>

abbreviation log_new_hdr :: "byte list \<times> byte list \<Rightarrow> log_state_hdr" where
  "log_new_hdr p \<equiv> \<lparr>lh_magic = LOG_STATE_MAGIC, lh_version = LOG_STATE_VER, lh_reserved = 0,
     lh_context_len = of_nat (length (fst p)), lh_storage_len = of_nat (length (snd p))\<rparr>"

text \<open>The two payload writes leave the header erased, whether they succeed or not; when they do they are in place.\<close>

lemma log_payload_writes:
  assumes ok: "flash_ok img fa" and i2: "img f2 = replicate (unat (fa_size fa)) erased_byte"
    and small: "16 + length ctx + length sto < 2 ^ 32" and bound: "16 + length ctx + length sto \<le> unat (fa_size fa)"
    and w1: "fa_write fa 16 ctx f2 = (e3, f3)" and w2: "fa_write fa (16 + of_nat (length ctx)) sto f3 = (e4, f4)"
  shows "take 16 (img f3) = replicate 16 erased_byte" "take 16 (img f4) = replicate 16 erased_byte"
    "e3 = 0 \<Longrightarrow> e4 = 0 \<Longrightarrow> img f4 = splice (16 + length ctx) sto (splice 16 ctx (replicate (unat (fa_size fa)) erased_byte))"
proof -
  have off: "unat (16 + of_nat (length ctx) :: u32) = 16 + length ctx" using small by (intro unat_hdr_plus) simp
  show t3: "take 16 (img f3) = replicate 16 erased_byte" using flash_ok_write(1) [OF ok w1] i2 bound by simp
  have "take 16 (img f4) = take 16 (take (16 + length ctx) (img f4))" by simp
  also have "\<dots> = replicate 16 erased_byte" using flash_ok_write(1) [OF ok w2] off t3 by simp
  finally show "take 16 (img f4) = replicate 16 erased_byte" .
  assume e: "e3 = 0" "e4 = 0"
  have i3: "img f3 = splice 16 ctx (replicate (unat (fa_size fa)) erased_byte)"
    using flash_ok_write_erased [OF ok] w1 e bound i2 by simp
  then show "img f4 = splice (16 + length ctx) sto (splice 16 ctx (replicate (unat (fa_size fa)) erased_byte))"
    using flash_ok_write_erased [OF ok, of "16 + of_nat (length ctx)" sto f3 f4] w2 e bound off by (simp add: drop_splice_after)
qed

lemma log_persist_cases:
  assumes ok: "flash_ok img fa" and fit: "log_fits k (ctx, sto)"
    and persist: "log_persist_payload fa (ctx, sto) f = (e, f')"
  obtains (untouched) "e \<noteq> 0" "img f' = img f"
  | (not_erased) f1 f2 where "e \<noteq> 0" "img f1 = img f" "fa_erase fa 0 (fa_size fa) f1 = (e, f2)" "img f' = img f2"
  | (no_header) "e \<noteq> 0" "take 16 (img f') = replicate 16 erased_byte"
  | (header) f4 f5 where "16 + length ctx + length sto \<le> unat (fa_size fa)"
      "fa_write fa 0 (log_hdr_bytes (log_new_hdr (ctx, sto))) f4 = (e, f5)" "img f' = img f5"
      "img f4 = splice (16 + length ctx) sto (splice 16 ctx (replicate (unat (fa_size fa)) erased_byte))"
proof -
  let ?n = "unat (fa_size fa)"
  have small: "16 + length ctx + length sto < 2 ^ 32" using fit by (simp add: log_fits_def)
  note close = flash_ok_close [OF ok]
  obtain e1 f1 where o: "fa_open fa f = (e1, f1)" by (cases "fa_open fa f")
  obtain e2 f2 where er: "fa_erase fa 0 (fa_size fa) f1 = (e2, f2)" by (cases "fa_erase fa 0 (fa_size fa) f1")
  obtain e3 f3 where w1: "fa_write fa 16 ctx f2 = (e3, f3)" by (cases "fa_write fa 16 ctx f2")
  obtain e4 f4 where w2: "fa_write fa (16 + of_nat (length ctx)) sto f3 = (e4, f4)"
    by (cases "fa_write fa (16 + of_nat (length ctx)) sto f3")
  obtain e5 f5 where w3: "fa_write fa 0 (log_hdr_bytes (log_new_hdr (ctx, sto))) f4 = (e5, f5)"
    by (cases "fa_write fa 0 (log_hdr_bytes (log_new_hdr (ctx, sto))) f4")
  note steps = persist o er w1 w2 w3
  have i1: "img f1 = img f" by (rule flash_ok_open [OF ok o])
  consider (early) "e1 \<noteq> 0 \<or> 16 + of_nat (length ctx) + of_nat (length sto) > fa_size fa"
    | (erase) "e1 = 0" "\<not> 16 + of_nat (length ctx) + of_nat (length sto) > fa_size fa" "e2 \<noteq> 0"
    | (go) "e1 = 0" "\<not> 16 + of_nat (length ctx) + of_nat (length sto) > fa_size fa" "e2 = 0"
    by blast
  then show ?thesis
  proof cases
    case early
    then show ?thesis using steps i1 close by (intro untouched) (auto simp: log_persist_payload_def Let_def split: if_splits)
  next
    case erase
    then have "e = e2" "f' = fa_close fa f2" using steps by (simp_all add: log_persist_payload_def)
    then show ?thesis using erase er i1 close by (intro not_erased [of f1 f2]) simp_all
  next
    case go
    then have bound: "16 + length ctx + length sto \<le> ?n"
      using log_total_len [OF small] by (simp add: not_less word_le_nat_alt)
    have i2: "img f2 = replicate ?n erased_byte" using flash_ok_erase_all [OF ok] er go(3) by simp
    note w = log_payload_writes [OF ok i2 small bound w1 w2]
    show ?thesis
    proof (cases "e3 = 0 \<and> e4 = 0")
      case False
      then have "e \<noteq> 0" "f' = fa_close fa f3 \<or> f' = fa_close fa f4" using steps go
        by (auto simp: log_persist_payload_def Let_def split: if_splits)
      then show ?thesis using w(1,2) close by (intro no_header) auto
    next
      case True
      then have e: "e = e5" "f' = fa_close fa f5" using steps go
        by (auto simp: log_persist_payload_def Let_def split: if_splits)
      then show ?thesis using bound w3 w(3) True close by (intro header [of f4 f5]) simp_all
    qed
  qed
qed

lemma log_persist_image:
  assumes ok: "flash_ok img fa" and fit: "log_fits k p" and "log_persist_payload fa p f = (0, f')"
  shows "img f' = log_hdr_bytes (log_new_hdr p) @ fst p @ snd p @
    replicate (unat (fa_size fa) - (16 + length (fst p) + length (snd p))) erased_byte"
proof -
  obtain ctx sto where p: "p = (ctx, sto)" by (cases p)
  let ?n = "unat (fa_size fa)" and ?h = "log_hdr_bytes (log_new_hdr (ctx, sto))"
  from ok fit [unfolded p] assms(3) [unfolded p] show ?thesis
  proof (cases rule: log_persist_cases)
    case (header f4 f5)
    have "take 16 (img f4) = replicate 16 erased_byte"
      using header(1) by (simp add: header(4) take_splice_before)
    then have "img f5 = splice 0 ?h (img f4)" using flash_ok_write_erased [OF ok header(2)] by simp
    then show ?thesis
      using splice_layout [OF length_log_hdr_bytes header(1), of "log_new_hdr (ctx, sto)" erased_byte] header(3,4) p by simp
  qed simp_all
qed

lemma log_stored_layout:
  assumes "log_fits k p"
  shows "log_stored k (log_hdr_bytes \<lparr>lh_magic = LOG_STATE_MAGIC, lh_version = LOG_STATE_VER,
      lh_reserved = r, lh_context_len = of_nat (length (fst p)),
      lh_storage_len = of_nat (length (snd p))\<rparr> @ fst p @ snd p @ rest) = Some p"
proof -
  have "of_nat (length (fst p)) \<noteq> (0 :: u32)" "of_nat (length (snd p)) \<noteq> (0 :: u32)"
    using assms of_nat_u32_eq_iff [of "length (fst p)" 0] of_nat_u32_eq_iff [of "length (snd p)" 0]
    by (auto simp: log_fits_def)
  then show ?thesis using assms by (cases p) (auto simp: log_stored_def log_hdr_valid_def log_fits_def)
qed

text \<open>Once the header write was reached, the payload is there, whatever became of the header.\<close>

lemma log_payload_written:
  assumes ok: "flash_ok img fa" and "16 + length ctx + length sto \<le> unat (fa_size fa)"
    and "fa_write fa 0 (log_hdr_bytes h) f4 = (e, f5)"
    and "img f4 = splice (16 + length ctx) sto (splice 16 ctx (replicate (unat (fa_size fa)) erased_byte))"
  shows "take (length ctx) (drop 16 (img f5)) = ctx \<and> take (length sto) (drop (16 + length ctx) (img f5)) = sto"
proof -
  have i5: "drop 16 (img f5) = drop 16 (img f4)" using flash_ok_write(2) [OF ok assms(3)] by simp
  then have "drop (16 + length ctx) (img f5) = drop (16 + length ctx) (img f4)"
    by (metis add.commute drop_drop)
  then show ?thesis using assms(2) by (simp add: i5 assms(4) splice_def)
qed

lemma log_stored_payload:
  assumes "log_fits k (ctx, sto)" "take (length ctx) (drop 16 i) = ctx" "take (length sto) (drop (16 + length ctx) i) = sto"
  shows "log_stored k i = None \<or> log_stored k i = Some (ctx, sto)"
  using assms by (auto simp: log_stored_def log_fits_def Let_def)

lemma log_persist_fails:
  assumes "flash_ok img fa" "log_fits k p" "log_persist_payload fa p f = (e, f')" "e \<noteq> 0"
    "\<And>data g. fst (fa_write fa 0 data g) = 0" "\<And>g. fst (fa_erase fa 0 (fa_size fa) g) = 0"
  shows "img f' = img f \<or> log_stored k (img f') = None"
proof -
  obtain ctx sto where p: "p = (ctx, sto)" by (cases p)
  from assms(1-3) [unfolded p] show ?thesis
    by (cases rule: log_persist_cases) (use assms(4-6) log_stored_erased in \<open>auto dest: arg_cong [of _ _ fst]\<close>)
qed

lemma log_stored_first_byte:
  assumes "take 1 i = [erased_byte]"
  shows "log_stored k i = None"
proof -
  have "of_le32 (take 16 i) \<noteq> LOG_STATE_MAGIC" if "16 \<le> length i"
  proof
    assume "of_le32 (take 16 i) = LOG_STATE_MAGIC"
    then have "take 1 (take 4 (take 16 i)) = take 1 (le32 LOG_STATE_MAGIC)" using of_le32_eqD that by fastforce
    then show False using assms by (simp add: le32_def LOG_STATE_MAGIC_def)
  qed
  then show ?thesis by (auto simp: log_stored_def log_hdr_valid_def log_hdr_of_bytes_def Let_def)
qed

lemma log_persist_interrupted:
  assumes ok: "flash_ok img fa" and pr: "flash_progressive img fa" and fit: "log_fits k p"
    and persist: "log_persist_payload fa p f = (e, f')"
  shows "log_stored k (img f') = log_stored k (img f) \<or> log_stored k (img f') = None \<or> log_stored k (img f') = Some p"
proof -
  obtain ctx sto where p: "p = (ctx, sto)" by (cases p)
  from ok fit [unfolded p] persist [unfolded p] show ?thesis
  proof (cases rule: log_persist_cases)
    case (not_erased f1 f2)
    then show ?thesis using flash_progressive_erase [OF ok pr not_erased(3)] log_stored_first_byte [of "img f2" k] by auto
  next
    case (header f4 f5)
    then show ?thesis
      using log_payload_written [OF ok header(1,2,4)] log_stored_payload [OF fit [unfolded p]] p by simp
  qed (use log_stored_erased in auto)
qed

subsection \<open>Restoring\<close>

lemmas log_restore_defs =
  memfault_log_state_restore_on_connect_def log_restore_in_place_def

lemma log_restore_success:
  assumes ok: "flash_ok img fa"
    and r: "memfault_log_state_restore_on_connect fa
      \<lparr>ls_context = Some c0, ls_storage = Some s0\<rparr> f = (0, live', cs, f')"
  shows "\<exists>c s. live' = \<lparr>ls_context = Some c, ls_storage = Some s\<rparr> \<and>
      log_stored (c0, s0) (img f) = Some (c, s) \<and>
      cs = [Memfault_log_data_source_reset, Log_restore_marker, Log_flush]"
    and "(\<And>g. fst (fa_erase fa 0 (fa_size fa) g) = 0) \<Longrightarrow>
      img f' = replicate (unat (fa_size fa)) erased_byte"
proof -
  obtain f1 hb f2 c f3 s f4 where
    o: "fa_open fa f = (0, f1)" and
    h: "fa_read fa 0 (replicate 16 0) f1 = (0, hb, f2)" and
    v: "log_hdr_valid (log_hdr_of_bytes hb)" and
    m: "lh_context_len (log_hdr_of_bytes hb) = of_nat (length c0)"
       "lh_storage_len (log_hdr_of_bytes hb) = of_nat (length s0)" and
    r1: "fa_read fa 16 c0 f2 = (0, c, f3)" and
    r2: "fa_read fa (16 + of_nat (length c0)) s0 f3 = (0, s, f4)" and
    res: "live' = \<lparr>ls_context = Some c, ls_storage = Some s\<rparr>"
      "cs = [Memfault_log_data_source_reset, Log_restore_marker, Log_flush]"
      "f' = fa_close fa (snd (fa_erase fa 0 (fa_size fa) f4))"
    using r by (auto simp: log_restore_defs Let_def split: prod.splits if_splits)
  note i1 = flash_ok_open [OF ok o] and i2 = flash_ok_read [OF ok h]
    and i3 = flash_ok_read [OF ok r1] and i4 = flash_ok_read [OF ok r2]
  have u16: "unat (16 :: u32) = 16" by simp
  have "unat (fa_size fa) < 2 ^ LENGTH(32)" by (rule unsigned_less)
  then have off: "unat (16 + of_nat (length c0) :: u32) = 16 + length c0"
    using i3(3) u16 by (intro unat_hdr_plus) simp
  have hb: "hb = take 16 (img f)" using i2(4) i1 by simp
  have c: "c = take (length c0) (drop 16 (img f))" using i3(4) i2(1) i1 u16 by simp
  have s: "s = take (length s0) (drop (16 + length c0) (img f))"
    using i4(4) i3(1) i2(1) i1 off by simp
  have b: "16 + length c0 + length s0 \<le> length (img f)"
    using i4(3) off flash_ok_length [OF ok, of f] by simp
  show "\<exists>c s. live' = \<lparr>ls_context = Some c, ls_storage = Some s\<rparr> \<and>
      log_stored (c0, s0) (img f) = Some (c, s) \<and>
      cs = [Memfault_log_data_source_reset, Log_restore_marker, Log_flush]"
    using res hb c s b v m by (simp add: log_stored_def Let_def)
  show "img f' = replicate (unat (fa_size fa)) erased_byte"
    if e0: "\<And>g. fst (fa_erase fa 0 (fa_size fa) g) = 0"
  proof -
    obtain f5 where "fa_erase fa 0 (fa_size fa) f4 = (0, f5)" using e0 by (metis prod.collapse)
    then show ?thesis using flash_ok_erase_all [OF ok] flash_ok_close [OF ok] res(3) by simp
  qed
qed

lemma log_restore_reliable:
  assumes ok: "flash_ok img fa" and rel: "flash_reliable fa"
    and st: "log_stored (c0, s0) (img f) = Some p"
  shows "fst (memfault_log_state_restore_on_connect fa
      \<lparr>ls_context = Some c0, ls_storage = Some s0\<rparr> f) = 0"
proof -
  have b: "16 + length c0 + length s0 \<le> length (img f)"
    and v: "log_hdr_valid (log_hdr_of_bytes (take 16 (img f)))"
    and m: "lh_context_len (log_hdr_of_bytes (take 16 (img f))) = of_nat (length c0)"
      "lh_storage_len (log_hdr_of_bytes (take 16 (img f))) = of_nat (length s0)"
    using st by (auto simp: log_stored_def Let_def split: if_splits)
  have n: "16 + length c0 + length s0 \<le> unat (fa_size fa)"
    using b flash_ok_length [OF ok] by simp
  have u16: "unat (16 :: u32) = 16" by simp
  have "unat (fa_size fa) < 2 ^ LENGTH(32)" by (rule unsigned_less)
  then have off: "unat (16 + of_nat (length c0) :: u32) = 16 + length c0"
    using n by (intro unat_hdr_plus) simp
  obtain f1 where o: "fa_open fa f = (0, f1)"
    using rel unfolding flash_reliable_def by (metis prod.collapse)
  have rd: "fst (fa_read fa off buf g) = 0" if "unat off + length buf \<le> unat (fa_size fa)"
    for off buf g using rel that unfolding flash_reliable_def by blast
  obtain hb f2 where h: "fa_read fa 0 (replicate 16 0) f1 = (0, hb, f2)"
    using rd [of 0 "replicate 16 0" f1] n by (metis (no_types, lifting) add_0 add_leE
        length_replicate prod.collapse unsigned_0)
  have hb: "hb = take 16 (img f)"
    using flash_ok_read(4) [OF ok h] flash_ok_open [OF ok o] by simp
  have e1: "fst (fa_read fa 16 c0 g) = 0" for g using rd n u16 by simp
  have e2: "fst (fa_read fa (16 + of_nat (length c0)) s0 g) = 0" for g using rd n off by simp
  show ?thesis
    using o h v m hb e1 e2 by (auto simp: log_restore_defs Let_def split: prod.splits)
       (metis fst_conv)+
qed

interpretation log_store: one_shot_store log_persist_payload log_restore_payload log_stored log_fits
proof
  fix k :: "byte list \<times> byte list" and n
  show "log_stored k (replicate n erased_byte) = None"
    by (cases "16 \<le> n") (simp_all add: log_stored_erased log_stored_short min_def)
next
  fix img and fa :: "'f flash_area" and k p f f'
  assume "flash_ok img fa" "log_fits k p" "log_persist_payload fa p f = (0, f')"
  then show "log_stored k (img f') = Some p"
    using log_persist_image log_stored_layout by metis
next
  fix img and fa :: "'f flash_area" and k p f e f'
  assume "flash_ok img fa" "log_fits k p" "log_persist_payload fa p f = (e, f')" "e \<noteq> 0"
    "\<And>data g. fst (fa_write fa 0 data g) = 0" "\<And>g. fst (fa_erase fa 0 (fa_size fa) g) = 0"
  then show "img f' = img f \<or> log_stored k (img f') = None" by (rule log_persist_fails)
next
  fix img and fa :: "'f flash_area" and k f r f'
  assume "flash_ok img fa" "log_restore_payload fa k f = (0, r, f')"
  then show "r \<noteq> None \<and> r = log_stored k (img f)"
    using log_restore_success(1) [of img fa "fst k" "snd k" f]
    by (auto simp: log_restore_payload_def Let_def split: prod.splits)
next
  fix img and fa :: "'f flash_area" and k p f
  assume "flash_ok img fa" "flash_reliable fa" "log_stored k (img f) = Some p" "log_fits k p"
  then show "fst (log_restore_payload fa k f) = 0"
    using log_restore_reliable [of img fa "fst k" "snd k" f]
    by (auto simp: log_restore_payload_def Let_def split: prod.splits)
next
  fix img and fa :: "'f flash_area" and k f r f'
  assume "flash_ok img fa" "log_restore_payload fa k f = (0, r, f')"
    "\<And>g. fst (fa_erase fa 0 (fa_size fa) g) = 0"
  then show "img f' = replicate (unat (fa_size fa)) erased_byte"
    using log_restore_success(2) [of img fa "fst k" "snd k" f]
    by (auto simp: log_restore_payload_def Let_def split: prod.splits if_splits)
qed

text \<open>A restore changes the partition only by erasing it.\<close>

lemma log_restore_flash:
  assumes ok: "flash_ok img fa" and "memfault_log_state_restore_on_connect fa live f = (e, live', cs, f')"
  shows "img f' = img f \<or> (\<exists>g. img g = img f \<and> img f' = img (snd (fa_erase fa 0 (fa_size fa) g)))"
proof -
  note kept = flash_ok_open [OF ok] flash_ok_read(1) [OF ok]
  show ?thesis
    using assms(2)
    by (auto simp: log_restore_defs Let_def flash_ok_close [OF ok] split: prod.splits if_splits option.splits)
       (metis kept)+
qed

lemma log_restore_interrupted:
  assumes ok: "flash_ok img fa" and pr: "flash_progressive img fa"
    and "memfault_log_state_restore_on_connect fa live f = (e, live', cs, f')"
  shows "log_stored k (img f') = log_stored k (img f) \<or> log_stored k (img f') = None"
proof -
  have "img f' = img f \<or> take 1 (img f') = [erased_byte]"
    using log_restore_flash [OF ok assms(3)] flash_progressive_erase [OF ok pr] by (metis prod.collapse)
  then show ?thesis using log_stored_first_byte by metis
qed

interpretation log_store: crash_safe_store log_persist_payload log_restore_payload log_stored log_fits
proof (unfold_locales, goal_cases)
  case (1 img fa k p f e f')
  show ?case by (rule log_persist_interrupted [OF 1(1-4)])
next
  case (2 img fa k f e r f')
  let ?r = "memfault_log_state_restore_on_connect fa \<lparr>ls_context = Some (fst k), ls_storage = Some (snd k)\<rparr> f"
  obtain live' cs where "?r = (e, live', cs, f')"
    using 2(3) by (auto simp: log_restore_payload_def Let_def split: prod.splits)
  then show ?case by (rule log_restore_interrupted [OF 2(1,2)])
qed

subsection \<open>Properties\<close>

lemma log_restore_payload_conv:
  "log_restore_payload fa (c0, s0) f = (0, Some (c, s), f') \<Longrightarrow> flash_ok img fa \<Longrightarrow>
   memfault_log_state_restore_on_connect fa \<lparr>ls_context = Some c0, ls_storage = Some s0\<rparr> f =
     (0, \<lparr>ls_context = Some c, ls_storage = Some s\<rparr>,
      [Memfault_log_data_source_reset, Log_restore_marker, Log_flush], f')"
  using log_restore_success(1) [of img fa c0 s0 f]
  by (fastforce simp: log_restore_payload_def Let_def split: prod.splits if_splits)

lemma log_persist_then_restore:
  assumes "flash_ok img fa" and "flash_reliable fa"
    and "log_fits (c0, s0) (c, s)"
    and "memfault_log_state_persist_now fa \<lparr>ls_context = Some c, ls_storage = Some s\<rparr> f = (0, f1)"
  shows "\<exists>f2. memfault_log_state_restore_on_connect fa
      \<lparr>ls_context = Some c0, ls_storage = Some s0\<rparr> f1 =
        (0, \<lparr>ls_context = Some c, ls_storage = Some s\<rparr>,
         [Memfault_log_data_source_reset, Log_restore_marker, Log_flush], f2) \<and>
    fst (memfault_log_state_restore_on_connect fa
      \<lparr>ls_context = Some c0, ls_storage = Some s0\<rparr> f2) \<noteq> 0"
proof -
  have "log_persist_payload fa (c, s) f = (0, f1)"
    using assms(4) by (simp add: memfault_log_state_persist_now_def)
  then obtain f2 where r: "log_restore_payload fa (c0, s0) f1 = (0, Some (c, s), f2)"
    and n: "fst (log_restore_payload fa (c0, s0) f2) \<noteq> 0"
    using log_store.persist_restore_roundtrip [OF assms(1-3)] by blast
  then show ?thesis
    using log_restore_payload_conv [OF r assms(1)]
    by (auto simp: log_restore_payload_def Let_def split: prod.splits)
qed

text \<open>With a working driver and a partition that is large enough, persisting succeeds.\<close>

lemma log_persist_reliable:
  assumes "flash_reliable fa" "16 + length c + length s \<le> unat (fa_size fa)"
  shows "fst (memfault_log_state_persist_now fa \<lparr>ls_context = Some c, ls_storage = Some s\<rparr> f) = 0"
proof -
  have "unat (fa_size fa) < 2 ^ LENGTH(32)" by (rule unsigned_less)
  then have small: "16 + length c + length s < 2 ^ 32" using assms(2) by simp
  have u: "unat (16 + of_nat (length c) + of_nat (length s) :: u32) = 16 + length c + length s"
    "unat (16 + of_nat (length c) :: u32) = 16 + length c"
    using small by (simp_all only: log_total_len unat_hdr_plus)
  then have sz: "\<not> 16 + of_nat (length c) + of_nat (length s) > fa_size fa"
    using assms(2) by (simp add: not_less word_le_nat_alt)
  have "fst (fa_write fa 16 c g) = 0" "fst (fa_write fa (16 + of_nat (length c)) s g) = 0"
    "fst (fa_write fa 0 (log_hdr_bytes h) g) = 0" "fst (fa_open fa g) = 0"
    "fst (fa_erase fa 0 (fa_size fa) g) = 0" for g h
    using assms u(2) by (simp_all add: flash_reliable_def)
  then show ?thesis
    using sz by (simp add: memfault_log_state_persist_now_def log_persist_payload_def Let_def split_beta)
qed

text \<open>
  C6: a log snapshot that was persisted without an error is what the next restore puts into the
  live ring buffer, byte for byte, whatever the live buffers of the same sizes held; the stale
  upload trigger is cleared before the marker line is logged and flushed; and a second restore
  finds nothing.
\<close>

theorem log_persist_restore_roundtrip:
  assumes "flash_ok img fa" and "flash_reliable fa"
    and "log_fits (c0, s0) (c, s)"
    and "memfault_log_state_persist_now fa \<lparr>ls_context = Some c, ls_storage = Some s\<rparr> f = (0, f1)"
  shows "\<exists>f2. memfault_log_state_restore_on_connect fa
      \<lparr>ls_context = Some c0, ls_storage = Some s0\<rparr> f1 =
        (0, \<lparr>ls_context = Some c, ls_storage = Some s\<rparr>,
         [Memfault_log_data_source_reset, Log_restore_marker, Log_flush], f2) \<and>
    fst (memfault_log_state_restore_on_connect fa
      \<lparr>ls_context = Some c0, ls_storage = Some s0\<rparr> f2) \<noteq> 0"
  by (rule log_persist_then_restore [OF assms])

theorem log_persist_restore_roundtrip_witness:
  "\<exists>f1 f2. memfault_log_state_persist_now (ram_flash 64)
       \<lparr>ls_context = Some [1, 2], ls_storage = Some [3, 4, 5]\<rparr> [] = (0, f1) \<and>
     memfault_log_state_restore_on_connect (ram_flash 64)
       \<lparr>ls_context = Some [0, 0], ls_storage = Some [9, 9, 9]\<rparr> f1 =
       (0, \<lparr>ls_context = Some [1, 2], ls_storage = Some [3, 4, 5]\<rparr>,
        [Memfault_log_data_source_reset, Log_restore_marker, Log_flush], f2)"
proof -
  obtain f1 where p: "memfault_log_state_persist_now (ram_flash 64)
      \<lparr>ls_context = Some [1, 2], ls_storage = Some [3, 4, 5]\<rparr> [] = (0, f1)"
    by (simp add: memfault_log_state_persist_now_def log_persist_payload_def ram_flash_def)
  have "log_fits ([0, 0], [9, 9, 9]) ([1, 2], [3, 4, 5])" by (simp add: log_fits_def)
  then show ?thesis
    using p log_persist_restore_roundtrip [OF ram_flash_ok ram_flash_reliable _ p] by blast
qed

text \<open>
  C12: persisting is all-or-nothing, wherever it is interrupted: at the open, within the erase, within any of the
  three writes. A restore into buffers of the same sizes that reports success after it delivers the whole snapshot, or, when the
  persist returned an error, the whole snapshot that was stored before; never a part of one, a mix, or erased flash.
  A persist that returned 0 leaves no other possibility than its own snapshot.
\<close>

theorem log_persist_all_or_nothing:
  assumes "flash_ok img fa" and "flash_progressive img fa" and "log_fits (c0, s0) (c, s)"
    and "memfault_log_state_persist_now fa \<lparr>ls_context = Some c, ls_storage = Some s\<rparr> f = (e, f1)"
    and "memfault_log_state_restore_on_connect fa
      \<lparr>ls_context = Some c0, ls_storage = Some s0\<rparr> f1 = (0, live', cs, f2)"
  shows "live' = \<lparr>ls_context = Some c, ls_storage = Some s\<rparr> \<or>
    e \<noteq> 0 \<and> (\<exists>c1 s1. log_stored (c0, s0) (img f) = Some (c1, s1) \<and> live' = \<lparr>ls_context = Some c1, ls_storage = Some s1\<rparr>)"
proof -
  have p: "log_persist_payload fa (c, s) f = (e, f1)"
    using assms(4) by (simp add: memfault_log_state_persist_now_def)
  obtain c' s' where live': "live' = \<lparr>ls_context = Some c', ls_storage = Some s'\<rparr>"
    and st: "log_stored (c0, s0) (img f1) = Some (c', s')"
    using log_restore_success(1) [OF assms(1,5)] by blast
  show ?thesis
  proof (cases "e = 0")
    case True
    then show ?thesis using log_store.persist_stores [OF assms(1,3)] p st live' by simp
  next
    case False
    then show ?thesis using log_store.persist_interrupted [OF assms(1-3) p] st live' by auto
  qed
qed

text \<open>The power goes before the first byte is erased: the persist fails, the restore delivers the older snapshot.\<close>

theorem log_persist_all_or_nothing_witness:
  "\<exists>e f0 f1 live' cs f2. f0 = snd (memfault_log_state_persist_now (ram_flash 64)
       \<lparr>ls_context = Some [7, 8], ls_storage = Some [6, 5, 4]\<rparr> []) \<and>
     memfault_log_state_persist_now (cut_flash 64)
       \<lparr>ls_context = Some [1, 2], ls_storage = Some [3, 4, 5]\<rparr> (f0, 0) = (e, f1) \<and>
     memfault_log_state_restore_on_connect (cut_flash 64)
       \<lparr>ls_context = Some [0, 0], ls_storage = Some [9, 9, 9]\<rparr> f1 = (0, live', cs, f2) \<and> e \<noteq> 0 \<and>
     log_stored ([0, 0], [9, 9, 9]) (ram_image 64 f0) = Some (the (ls_context live'), the (ls_storage live'))"
proof -
  let ?f0 = "snd (memfault_log_state_persist_now (ram_flash 64) \<lparr>ls_context = Some [7, 8], ls_storage = Some [6, 5, 4]\<rparr> [])"
  let ?p = "memfault_log_state_persist_now (cut_flash 64) \<lparr>ls_context = Some [1, 2], ls_storage = Some [3, 4, 5]\<rparr> (?f0, 0)"
  let ?r = "\<lambda>f1. memfault_log_state_restore_on_connect (cut_flash 64) \<lparr>ls_context = Some [0, 0], ls_storage = Some [9, 9, 9]\<rparr> f1"
  have fit: "log_fits ([0, 0], [9, 9, 9]) ([1, 2], [3, 4, 5])" by (simp add: log_fits_def)
  have run: "fst (?r (snd ?p)) = 0 \<and> ls_context (fst (snd (?r (snd ?p)))) = Some [7, 8]" by code_simp
  obtain e f1 where p: "?p = (e, f1)" by (cases ?p)
  obtain live' cs f2 where r: "?r f1 = (0, live', cs, f2)" using run p by (metis prod.collapse snd_conv)
  have "ls_context live' = Some [7, 8]" using run p r by (metis fst_conv snd_conv)
  then have "live' \<noteq> \<lparr>ls_context = Some [1, 2], ls_storage = Some [3, 4, 5]\<rparr>" by auto
  then obtain c1 s1 where e: "e \<noteq> 0" and "log_stored ([0, 0], [9, 9, 9]) (ram_image 64 (fst (?f0, 0 :: nat))) = Some (c1, s1)"
    and "live' = \<lparr>ls_context = Some c1, ls_storage = Some s1\<rparr>"
    using log_persist_all_or_nothing [OF cut_flash_ok cut_flash_progressive fit p r] by blast
  then have "log_stored ([0, 0], [9, 9, 9]) (ram_image 64 ?f0) = Some (the (ls_context live'), the (ls_storage live'))"
    by (simp only: fst_conv log_save_state.simps option.sel)
  then show ?thesis using p r e by blast
qed

text \<open>
  C39: restoring into a firmware whose buffers have other sizes, or when no valid header is found,
  leaves the live ring buffer alone; a size mismatch returns \<^verbatim>\<open>-ENOSPC\<close> and erases the
  partition, so the blob is not looked at again.
\<close>

theorem log_restore_rejects:
  assumes "flash_ok img fa" and "flash_reliable fa" and "16 \<le> unat (fa_size fa)"
    and "hdr = log_hdr_of_bytes (take 16 (img f))"
    and "\<not> log_hdr_valid hdr \<or> lh_context_len hdr \<noteq> of_nat (length c0) \<or>
      lh_storage_len hdr \<noteq> of_nat (length s0)"
  shows "\<exists>f'. memfault_log_state_restore_on_connect fa
      \<lparr>ls_context = Some c0, ls_storage = Some s0\<rparr> f =
        (if log_hdr_valid hdr then - ENOSPC else - ENOENT,
         \<lparr>ls_context = Some c0, ls_storage = Some s0\<rparr>, [], f') \<and>
      (if log_hdr_valid hdr then img f' = replicate (unat (fa_size fa)) erased_byte
       else img f' = img f)"
proof -
  obtain f1 where o: "fa_open fa f = (0, f1)"
    using assms(2) unfolding flash_reliable_def by (metis prod.collapse)
  have "fst (fa_read fa 0 (replicate 16 0) f1) = 0"
    using assms(2,3) unfolding flash_reliable_def by simp
  then obtain hb f2 where h: "fa_read fa 0 (replicate 16 0) f1 = (0, hb, f2)"
    by (metis prod.collapse)
  have hb: "log_hdr_of_bytes hb = hdr" and i2: "img f2 = img f"
    using flash_ok_read(1,4) [OF assms(1) h] flash_ok_open [OF assms(1) o] assms(4) by simp_all
  have "fst (fa_erase fa 0 (fa_size fa) f2) = 0"
    using assms(2) unfolding flash_reliable_def by simp
  then obtain f3 where er: "fa_erase fa 0 (fa_size fa) f2 = (0, f3)" by (metis prod.collapse)
  show ?thesis
    using o h hb er assms(5) flash_ok_close [OF assms(1)] i2 flash_ok_erase_all [OF assms(1) er]
    by (auto simp: log_restore_defs Let_def)
qed

theorem log_restore_rejects_witness:
  "fst (memfault_log_state_restore_on_connect (ram_flash 64)
     \<lparr>ls_context = Some [0], ls_storage = Some [0]\<rparr> (replicate 64 erased_byte)) = - ENOENT"
proof -
  have "ram_image 64 (replicate 64 erased_byte) = replicate 64 erased_byte"
    by (rule ram_image_id) simp
  then have t: "take 16 (ram_image 64 (replicate 64 erased_byte)) = replicate 16 erased_byte"
    by (simp add: min_def)
  have n: "\<not> log_hdr_valid (log_hdr_of_bytes (take 16 (ram_image 64 (replicate 64 erased_byte))))"
    unfolding t by (rule log_hdr_erased)
  show ?thesis
    using log_restore_rejects [OF ram_flash_ok [of 64] ram_flash_reliable _ refl disjI1 [OF n],
        of "[0]" "[0]"] n
    by (auto simp: ram_flash_def)
qed

definition torn_flash :: "byte list flash_area" where
  "torn_flash = (ram_flash 64)\<lparr>fa_read := (\<lambda>off buf f.
     if 16 < off then (- EIO, buf, f) else fa_read (ram_flash 64) off buf f)\<rparr>"

lemma torn_flash_ok: "flash_ok (ram_image 64) torn_flash"
  using ram_flash_ok [of 64] unfolding flash_ok_def torn_flash_def by (auto split: if_splits)

text \<open>
  A read error between the two halves of a restore leaves the live ring buffer torn: the
  context already holds the old session's bytes while the storage still holds the live ones, and
  the function returns an error without repairing it.
\<close>

theorem log_restore_torn:
  "flash_ok (ram_image 64) torn_flash \<and>
   (let (e1, f1) = memfault_log_state_persist_now torn_flash
          \<lparr>ls_context = Some [1, 2], ls_storage = Some [3, 4, 5]\<rparr> [];
        (e2, live, cs, f2) = memfault_log_state_restore_on_connect torn_flash
          \<lparr>ls_context = Some [7, 8], ls_storage = Some [9, 9, 9]\<rparr> f1
    in e1 = 0 \<and> e2 = - EIO \<and> cs = [] \<and>
       live = \<lparr>ls_context = Some [1, 2], ls_storage = Some [9, 9, 9]\<rparr>)"
  by (rule conjI [OF torn_flash_ok]) code_simp

end
