(* ===== verification/Cdr_Stats.thy ===== *)
theory Cdr_Stats
  imports Flash_Area Zbus_Messages
begin

text \<open>
  The nRF70 firmware-statistics recording for Memfault,
  \<^verbatim>\<open>src/src/modules/app_memfault/cdr/app_memfault_nrf70_fw_stats_cdr.c\<close>.

  \<open>cdr_state\<close> holds the file-scope variables: the 1024-byte blob buffer, its fill level, the ready
  flag, the read offset and the one metadata field that changes. The three callbacks serve the
  Memfault SDK's chunked reader, the collect function reads the Wi-Fi driver (its answers are the
  argument \<open>fmac_env\<close>), and the flash half implements the contract \<open>one_shot_store\<close> of
  \<^theory_text>\<open>Flash_Area\<close> over its own partition.
\<close>

declare take_min_length [simp]

subsection \<open>Data\<close>

definition NRF70_FW_STATS_BLOB_MAX_SIZE :: u32 where "NRF70_FW_STATS_BLOB_MAX_SIZE = 1024"

record cdr_state =
  s_nrf70_fw_stats_blob :: "byte list"
  s_nrf70_fw_stats_blob_size :: u32
  s_cdr_data_ready :: bool
  s_read_offset :: u32
  s_metadata_size_bytes :: u32
  cdr_initialized :: bool

definition cdr_boot_state :: cdr_state where
  "cdr_boot_state =
     \<lparr>s_nrf70_fw_stats_blob = replicate (unat NRF70_FW_STATS_BLOB_MAX_SIZE) 0,
      s_nrf70_fw_stats_blob_size = 0, s_cdr_data_ready = False, s_read_offset = 0,
      s_metadata_size_bytes = 0, cdr_initialized = False\<rparr>"

record fmac_env =
  rpu_ctx_present :: bool
  fmac_stats_success :: bool
  fmac_stats_fw :: "byte list"

datatype cdr_call = Rpu_lock | Rpu_unlock | Fmac_stats_get | Cdr_register_source

subsection \<open>Callbacks of the Memfault SDK\<close>

definition has_cdr_cb :: "cdr_state \<Rightarrow> bool \<times> u32 option \<times> cdr_state" where
  "has_cdr_cb s =
     (if \<not> s_cdr_data_ready s \<or> s_nrf70_fw_stats_blob_size s = 0 then (False, None, s)
      else let s' = s\<lparr>s_metadata_size_bytes := s_nrf70_fw_stats_blob_size s\<rparr>
           in (True, Some (s_metadata_size_bytes s'), s'))"

definition read_data_cb :: "u32 \<Rightarrow> byte list \<Rightarrow> cdr_state \<Rightarrow> bool \<times> byte list \<times> cdr_state" where
  "read_data_cb offset buf s =
     (let s1 = (if offset \<noteq> s_read_offset s then s\<lparr>s_read_offset := offset\<rparr> else s)
      in if offset \<ge> s_nrf70_fw_stats_blob_size s1 then (False, buf, s1)
         else let remaining = s_nrf70_fw_stats_blob_size s1 - offset;
                  buf_len = of_nat (length buf);
                  copy_len = (if buf_len < remaining then buf_len else remaining);
                  data = take (unat copy_len) (drop (unat offset) (s_nrf70_fw_stats_blob s1))
              in (True, splice 0 data buf, s1\<lparr>s_read_offset := s_read_offset s1 + copy_len\<rparr>))"

definition mark_cdr_read_cb :: "cdr_state \<Rightarrow> cdr_state" where
  "mark_cdr_read_cb s =
     s\<lparr>s_cdr_data_ready := False, s_nrf70_fw_stats_blob_size := 0, s_read_offset := 0,
       s_metadata_size_bytes := 0\<rparr>"

subsection \<open>Collecting\<close>

definition collect_nrf70_fw_stats ::
  "fmac_env \<Rightarrow> cdr_state \<Rightarrow> int \<times> cdr_state \<times> cdr_call list" where
  "collect_nrf70_fw_stats env s =
     (if \<not> rpu_ctx_present env then (- ENODEV, s, [Rpu_lock, Rpu_unlock])
      else if \<not> fmac_stats_success env then (- EIO, s, [Rpu_lock, Fmac_stats_get, Rpu_unlock])
      else let fw_stats_size0 = of_nat (length (fmac_stats_fw env)) :: u32;
               fw_stats_size = (if fw_stats_size0 > NRF70_FW_STATS_BLOB_MAX_SIZE
                                then NRF70_FW_STATS_BLOB_MAX_SIZE else fw_stats_size0)
           in (0, s\<lparr>s_nrf70_fw_stats_blob :=
                      splice 0 (take (unat fw_stats_size) (fmac_stats_fw env)) (s_nrf70_fw_stats_blob s),
                    s_nrf70_fw_stats_blob_size := fw_stats_size\<rparr>,
               [Rpu_lock, Fmac_stats_get, Rpu_unlock]))"

definition mflt_nrf70_fw_stats_cdr_init ::
  "bool \<Rightarrow> cdr_state \<Rightarrow> int \<times> cdr_state \<times> cdr_call list" where
  "mflt_nrf70_fw_stats_cdr_init register_ok s =
     (if cdr_initialized s then (- EALREADY, s, [])
      else if \<not> register_ok then (- EIO, s, [Cdr_register_source])
      else (0, s\<lparr>cdr_initialized := True\<rparr>, [Cdr_register_source]))"

definition mflt_nrf70_fw_stats_cdr_collect ::
  "fmac_env \<Rightarrow> cdr_state \<Rightarrow> int \<times> cdr_state \<times> cdr_call list" where
  "mflt_nrf70_fw_stats_cdr_collect env s =
     (let s1 = s\<lparr>s_cdr_data_ready := False, s_nrf70_fw_stats_blob_size := 0, s_read_offset := 0\<rparr>;
          (err, s2, cs) = collect_nrf70_fw_stats env s1
      in if err \<noteq> 0 then (err, s2, cs)
         else if s_nrf70_fw_stats_blob_size s2 = 0 then (- ENODATA, s2, cs)
         else (0, s2\<lparr>s_cdr_data_ready := True\<rparr>, cs))"

definition mflt_nrf70_fw_stats_cdr_get_size :: "cdr_state \<Rightarrow> u32" where
  "mflt_nrf70_fw_stats_cdr_get_size s = s_nrf70_fw_stats_blob_size s"

subsection \<open>Flash persist and restore\<close>

record cdr_state_hdr =
  ch_magic :: u32
  ch_version :: u16
  ch_reserved :: u16
  ch_blob_size :: u32
  ch_reserved2 :: u32

definition CDR_STATE_MAGIC :: u32 where "CDR_STATE_MAGIC = 0x43445253"
definition CDR_STATE_VER :: u16 where "CDR_STATE_VER = 1"

definition cdr_hdr_bytes :: "cdr_state_hdr \<Rightarrow> byte list" where
  "cdr_hdr_bytes h = le32 (ch_magic h) @ le16 (ch_version h) @ le16 (ch_reserved h) @
     le32 (ch_blob_size h) @ le32 (ch_reserved2 h)"

definition cdr_hdr_of_bytes :: "byte list \<Rightarrow> cdr_state_hdr" where
  "cdr_hdr_of_bytes bs =
     \<lparr>ch_magic = of_le32 bs, ch_version = of_le16 (drop 4 bs), ch_reserved = of_le16 (drop 6 bs),
      ch_blob_size = of_le32 (drop 8 bs), ch_reserved2 = of_le32 (drop 12 bs)\<rparr>"

text \<open>The flash half of \<^verbatim>\<open>mflt_nrf70_fw_stats_cdr_persist_to_flash\<close>, for a collected blob.\<close>

definition cdr_persist_blob :: "'f flash_area \<Rightarrow> byte list \<Rightarrow> 'f \<Rightarrow> int \<times> 'f" where
  "cdr_persist_blob fa blob f =
     (let (err, f1) = fa_open fa f
      in if err \<noteq> 0 then (err, f1)
         else let total_len = 16 + of_nat (length blob) :: u32
              in if total_len > fa_size fa then (- ENOSPC, fa_close fa f1)
                 else let (err, f2) = fa_erase fa 0 (fa_size fa) f1
                      in if err \<noteq> 0 then (err, fa_close fa f2)
                         else let (err, f3) = fa_write fa 16 blob f2
                              in if err \<noteq> 0 then (err, fa_close fa f3)
                                 else let hdr = \<lparr>ch_magic = CDR_STATE_MAGIC,
                                                 ch_version = CDR_STATE_VER, ch_reserved = 0,
                                                 ch_blob_size = of_nat (length blob),
                                                 ch_reserved2 = 0\<rparr>;
                                          (err, f4) = fa_write fa 0 (cdr_hdr_bytes hdr) f3;
                                          f5 = fa_close fa f4
                                      in if err \<noteq> 0 then (err, f5) else (0, f5))"

definition mflt_nrf70_fw_stats_cdr_persist_to_flash ::
  "'f flash_area \<Rightarrow> fmac_env \<Rightarrow> cdr_state \<Rightarrow> 'f \<Rightarrow> int \<times> cdr_state \<times> cdr_call list \<times> 'f" where
  "mflt_nrf70_fw_stats_cdr_persist_to_flash fa env s f =
     (let s1 = s\<lparr>s_cdr_data_ready := False, s_nrf70_fw_stats_blob_size := 0, s_read_offset := 0\<rparr>;
          (err, s2, cs) = collect_nrf70_fw_stats env s1
      in if err \<noteq> 0 then (err, s2, cs, f)
         else if s_nrf70_fw_stats_blob_size s2 = 0 then (- ENODATA, s2, cs, f)
         else let s3 = s2\<lparr>s_cdr_data_ready := True\<rparr>;
                  (err, f') = cdr_persist_blob fa
                    (take (unat (s_nrf70_fw_stats_blob_size s3)) (s_nrf70_fw_stats_blob s3)) f
              in (err, s3, cs, f'))"

definition cdr_hdr_valid :: "cdr_state_hdr \<Rightarrow> bool" where
  "cdr_hdr_valid hdr \<longleftrightarrow>
     \<not> (ch_magic hdr \<noteq> CDR_STATE_MAGIC \<or> ch_version hdr \<noteq> CDR_STATE_VER \<or>
        ch_blob_size hdr = 0 \<or> ch_blob_size hdr > NRF70_FW_STATS_BLOB_MAX_SIZE)"

definition mflt_nrf70_fw_stats_cdr_restore_from_flash ::
  "'f flash_area \<Rightarrow> cdr_state \<Rightarrow> 'f \<Rightarrow> int \<times> cdr_state \<times> 'f" where
  "mflt_nrf70_fw_stats_cdr_restore_from_flash fa s f =
     (let (err, f1) = fa_open fa f
      in if err \<noteq> 0 then (- ENOENT, s, f1)
         else let (err, hbytes, f2) = fa_read fa 0 (replicate 16 0) f1
              in if err \<noteq> 0 then (- ENOENT, s, fa_close fa f2)
                 else let hdr = cdr_hdr_of_bytes hbytes
                      in if \<not> cdr_hdr_valid hdr then (- ENOENT, s, fa_close fa f2)
                         else let n = unat (ch_blob_size hdr);
                                  (err, data, f3) =
                                    fa_read fa 16 (take n (s_nrf70_fw_stats_blob s)) f2;
                                  s1 = s\<lparr>s_nrf70_fw_stats_blob :=
                                           splice 0 data (s_nrf70_fw_stats_blob s)\<rparr>;
                                  f4 = fa_close fa (snd (fa_erase fa 0 (fa_size fa) f3))
                              in if err \<noteq> 0 then (err, s1, f4)
                                 else (0, s1\<lparr>s_nrf70_fw_stats_blob_size := ch_blob_size hdr,
                                             s_metadata_size_bytes := ch_blob_size hdr,
                                             s_cdr_data_ready := True, s_read_offset := 0\<rparr>, f4))"

subsection \<open>Button\<close>

definition cdr_button_listener ::
  "fmac_env \<Rightarrow> button_msg \<Rightarrow> cdr_state \<Rightarrow> cdr_state \<times> cdr_call list" where
  "cdr_button_listener env msg s =
     (if bm_type msg \<noteq> BUTTON_SINGLE_CLICK \<or> bm_button_number msg \<noteq> 0 then (s, [])
      else let (err, s', cs) = mflt_nrf70_fw_stats_cdr_collect env s in (s', cs))"

subsection \<open>What a partition image holds\<close>

definition cdr_stored :: "byte list \<Rightarrow> byte list \<Rightarrow> byte list option" where
  "cdr_stored k img =
     (let hdr = cdr_hdr_of_bytes (take 16 img); n = unat (ch_blob_size hdr)
      in if 16 + n \<le> length img \<and> cdr_hdr_valid hdr then Some (take n (drop 16 img)) else None)"

text \<open>A destination array of the declared size with the contents \<open>k\<close>, padded with zeros.\<close>

definition cdr_buffer :: "byte list \<Rightarrow> byte list" where
  "cdr_buffer k = take 1024 (k @ replicate 1024 0)"

definition cdr_fits :: "byte list \<Rightarrow> byte list \<Rightarrow> bool" where
  "cdr_fits k p \<longleftrightarrow> 0 < length p \<and> length p \<le> 1024"

definition cdr_restore_blob :: "'f flash_area \<Rightarrow> byte list \<Rightarrow> 'f \<Rightarrow> int \<times> byte list option \<times> 'f" where
  "cdr_restore_blob fa k f =
     (let (err, s, f') = mflt_nrf70_fw_stats_cdr_restore_from_flash fa
            (cdr_boot_state\<lparr>s_nrf70_fw_stats_blob := cdr_buffer k\<rparr>) f
      in (err, if err = 0 then Some (take (unat (s_nrf70_fw_stats_blob_size s)) (s_nrf70_fw_stats_blob s))
               else None, f'))"

subsection \<open>The reader's view of the callbacks\<close>

text \<open>
  A reader that asks for the recording in pieces of at most \<open>c\<close> bytes, from \<open>off\<close> on.
\<close>

fun cdr_drain :: "nat \<Rightarrow> nat \<Rightarrow> nat \<Rightarrow> cdr_state \<Rightarrow> byte list" where
  "cdr_drain 0 c off s = []"
| "cdr_drain (Suc n) c off s =
     (case read_data_cb (of_nat off) (replicate c 0) s of
        (False, _, s') \<Rightarrow> []
      | (True, buf, s') \<Rightarrow>
          let got = min c (unat (s_nrf70_fw_stats_blob_size s) - off)
          in take got buf @ cdr_drain n c (off + got) s')"

definition cdr_inv :: "cdr_state \<Rightarrow> bool" where
  "cdr_inv s \<longleftrightarrow> length (s_nrf70_fw_stats_blob s) = 1024 \<and>
     s_nrf70_fw_stats_blob_size s \<le> NRF70_FW_STATS_BLOB_MAX_SIZE \<and>
     (s_cdr_data_ready s \<longrightarrow> s_nrf70_fw_stats_blob_size s \<noteq> 0)"

subsection \<open>Headers\<close>

lemma length_cdr_hdr_bytes [simp]: "length (cdr_hdr_bytes h) = 16"
  by (simp add: cdr_hdr_bytes_def)

lemma cdr_hdr_roundtrip [simp, codec_simps]: "cdr_hdr_of_bytes (cdr_hdr_bytes h) = h"
  by (simp add: cdr_hdr_bytes_def cdr_hdr_of_bytes_def)

lemma cdr_hdr_erased [simp]: "\<not> cdr_hdr_valid (cdr_hdr_of_bytes (replicate 16 erased_byte))"
proof -
  have "of_le32 (replicate 16 erased_byte) \<noteq> CDR_STATE_MAGIC"
    unfolding CDR_STATE_MAGIC_def by code_simp
  then show ?thesis by (simp add: cdr_hdr_valid_def cdr_hdr_of_bytes_def)
qed

lemma cdr_stored_erased:
  "take 16 img = replicate 16 erased_byte \<Longrightarrow> cdr_stored k img = None"
  unfolding cdr_stored_def Let_def by (simp only: cdr_hdr_erased) simp

lemma cdr_stored_short: "length img < 16 \<Longrightarrow> cdr_stored k img = None"
  by (simp add: cdr_stored_def)

lemma cdr_stored_layout:
  assumes "cdr_fits k p"
  shows "cdr_stored k (cdr_hdr_bytes \<lparr>ch_magic = CDR_STATE_MAGIC, ch_version = CDR_STATE_VER,
      ch_reserved = r, ch_blob_size = of_nat (length p), ch_reserved2 = r'\<rparr> @ p @ rest) = Some p"
proof -
  have n: "unat (of_nat (length p) :: u32) = length p"
    using assms by (intro unat_of_nat_u32) (simp add: cdr_fits_def)
  then have "of_nat (length p) \<noteq> (0 :: u32)" "of_nat (length p) \<le> NRF70_FW_STATS_BLOB_MAX_SIZE"
    using assms by (auto simp: cdr_fits_def NRF70_FW_STATS_BLOB_MAX_SIZE_def word_le_nat_alt
        unsigned_eq_0_iff [symmetric])
  then show ?thesis using n by (simp add: cdr_stored_def Let_def cdr_hdr_valid_def not_less)
qed

subsection \<open>The persisted image\<close>

text \<open>The header a persist writes, and the ways a persist ends.\<close>

abbreviation cdr_new_hdr :: "byte list \<Rightarrow> cdr_state_hdr" where
  "cdr_new_hdr p \<equiv> \<lparr>ch_magic = CDR_STATE_MAGIC, ch_version = CDR_STATE_VER, ch_reserved = 0,
     ch_blob_size = of_nat (length p), ch_reserved2 = 0\<rparr>"

lemma cdr_persist_cases:
  assumes ok: "flash_ok img fa" and fit: "cdr_fits k p" and persist: "cdr_persist_blob fa p f = (e, f')"
  obtains (untouched) "e \<noteq> 0" "img f' = img f"
  | (not_erased) f1 f2 where "e \<noteq> 0" "img f1 = img f" "fa_erase fa 0 (fa_size fa) f1 = (e, f2)" "img f' = img f2"
  | (no_header) "e \<noteq> 0" "take 16 (img f') = replicate 16 erased_byte"
  | (header) f3 f4 where "16 + length p \<le> unat (fa_size fa)"
      "fa_write fa 0 (cdr_hdr_bytes (cdr_new_hdr p)) f3 = (e, f4)" "img f' = img f4"
      "img f3 = splice 16 p (replicate (unat (fa_size fa)) erased_byte)"
proof -
  have len: "unat (16 + of_nat (length p) :: u32) = 16 + length p"
    using fit by (intro unat_hdr_plus) (simp add: cdr_fits_def)
  note close = flash_ok_close [OF ok]
  obtain e1 f1 where o: "fa_open fa f = (e1, f1)" by (cases "fa_open fa f")
  obtain e2 f2 where er: "fa_erase fa 0 (fa_size fa) f1 = (e2, f2)" by (cases "fa_erase fa 0 (fa_size fa) f1")
  obtain e3 f3 where w1: "fa_write fa 16 p f2 = (e3, f3)" by (cases "fa_write fa 16 p f2")
  obtain e4 f4 where w2: "fa_write fa 0 (cdr_hdr_bytes (cdr_new_hdr p)) f3 = (e4, f4)"
    by (cases "fa_write fa 0 (cdr_hdr_bytes (cdr_new_hdr p)) f3")
  note steps = persist o er w1 w2
  have i1: "img f1 = img f" by (rule flash_ok_open [OF ok o])
  consider (early) "e1 \<noteq> 0 \<or> 16 + of_nat (length p) > fa_size fa"
    | (erase) "e1 = 0" "\<not> 16 + of_nat (length p) > fa_size fa" "e2 \<noteq> 0"
    | (go) "e1 = 0" "\<not> 16 + of_nat (length p) > fa_size fa" "e2 = 0"
    by blast
  then show ?thesis
  proof cases
    case early
    then show ?thesis
      using steps i1 close by (intro untouched) (auto simp: cdr_persist_blob_def Let_def split: if_splits)
  next
    case erase
    then have "e = e2" "f' = fa_close fa f2" using steps by (simp_all add: cdr_persist_blob_def)
    then show ?thesis using erase er i1 close by (intro not_erased [of f1 f2]) simp_all
  next
    case go
    then have bound: "16 + length p \<le> unat (fa_size fa)" using len by (simp add: not_less word_le_nat_alt)
    have i2: "img f2 = replicate (unat (fa_size fa)) erased_byte" using flash_ok_erase_all [OF ok] er go(3) by simp
    show ?thesis
    proof (cases "e3 = 0")
      case False
      then have "e \<noteq> 0" "f' = fa_close fa f3" using steps go by (simp_all add: cdr_persist_blob_def Let_def)
      then show ?thesis using flash_ok_write(1) [OF ok w1] i2 bound close by (intro no_header) simp_all
    next
      case True
      then have e: "e = e4" "f' = fa_close fa f4" using steps go
        by (auto simp: cdr_persist_blob_def Let_def split: if_splits)
      have "img f3 = splice 16 p (replicate (unat (fa_size fa)) erased_byte)"
        using flash_ok_write_erased [OF ok] w1 True bound i2 by simp
      then show ?thesis using bound w2 e close by (intro header [of f3 f4]) simp_all
    qed
  qed
qed

lemma cdr_persist_image:
  assumes ok: "flash_ok img fa" and fit: "cdr_fits k p" and "cdr_persist_blob fa p f = (0, f')"
  shows "img f' = cdr_hdr_bytes (cdr_new_hdr p) @ p @ replicate (unat (fa_size fa) - (16 + length p)) erased_byte"
  using assms
proof (cases rule: cdr_persist_cases)
  case (header f3 f4)
  then have "take 16 (img f3) = replicate 16 erased_byte" by (simp add: take_splice_before)
  then have "img f4 = splice 0 (cdr_hdr_bytes (cdr_new_hdr p)) (img f3)"
    using flash_ok_write_erased [OF ok header(2)] by simp
  then show ?thesis using header by (simp add: splice_def min_def)
qed simp_all

lemma cdr_persist_fails:
  assumes "flash_ok img fa" "cdr_fits k p" "cdr_persist_blob fa p f = (e, f')" "e \<noteq> 0"
    "\<And>data g. fst (fa_write fa 0 data g) = 0" "\<And>g. fst (fa_erase fa 0 (fa_size fa) g) = 0"
  shows "img f' = img f \<or> cdr_stored k (img f') = None"
  using assms(1-3)
  by (cases rule: cdr_persist_cases) (use assms(4-6) cdr_stored_erased in \<open>auto dest: arg_cong [of _ _ fst]\<close>)

lemma cdr_stored_first_byte:
  assumes "take 1 i = [erased_byte]"
  shows "cdr_stored k i = None"
proof -
  have "of_le32 (take 16 i) \<noteq> CDR_STATE_MAGIC" if "16 \<le> length i"
  proof
    assume "of_le32 (take 16 i) = CDR_STATE_MAGIC"
    then have "take 1 (take 4 (take 16 i)) = take 1 (le32 CDR_STATE_MAGIC)" using of_le32_eqD that by fastforce
    then show False using assms by (simp add: le32_def CDR_STATE_MAGIC_def)
  qed
  then show ?thesis by (auto simp: cdr_stored_def cdr_hdr_valid_def cdr_hdr_of_bytes_def Let_def)
qed

text \<open>
  The size field is not cross-checked against anything on a restore. It is sound under an interrupted
  header write because it is written in the order of the addresses: unless its last byte was reached, the
  size is far beyond the limit.
\<close>

lemma cdr_size_incomplete:
  assumes "bs ! 3 = erased_byte" "4 \<le> length bs"
  shows "of_le32 bs > NRF70_FW_STATS_BLOB_MAX_SIZE"
proof -
  have "ucast (drop_bit 24 (of_le32 bs)) = bs ! 3"
    using arg_cong [OF of_le32_eqD [of bs, OF refl assms(2)], of "\<lambda>xs. xs ! 3"] by (simp add: le32_def)
  then have "drop_bit 24 (of_le32 bs) \<noteq> 0" using assms(1) by auto
  then have "2 ^ 24 \<le> unat (of_le32 bs)"
    by (metis drop_bit_eq_div unat_drop_bit_eq div_eq_0_iff not_less unsigned_0 word_unat_eq_iff)
  then show ?thesis by (simp add: NRF70_FW_STATS_BLOB_MAX_SIZE_def word_less_nat_alt)
qed

lemma cdr_header_interrupted:
  assumes fit: "cdr_fits k p" and "16 + length p \<le> n" and m: "m \<le> 16"
    and i: "i = splice 0 (take m (cdr_hdr_bytes (cdr_new_hdr p))) (splice 16 p (replicate n erased_byte))"
  shows "cdr_stored k i = None \<or> cdr_stored k i = Some p"
proof -
  let ?h = "cdr_hdr_bytes (cdr_new_hdr p)" and ?rest = "p @ replicate (n - (16 + length p)) erased_byte"
  have img: "i = (take m ?h @ replicate (16 - m) erased_byte) @ ?rest"
    using assms(2) m unfolding i by (simp add: splice_def min_def)
  show ?thesis
  proof (cases "m < 12")
    case True
    have "drop 8 (take m ?h @ replicate (16 - m) erased_byte) ! 3 = erased_byte" using True m by (auto simp: nth_append)
    then have "ch_blob_size (cdr_hdr_of_bytes (take 16 i)) > NRF70_FW_STATS_BLOB_MAX_SIZE"
      using m by (simp add: img cdr_hdr_of_bytes_def) (intro cdr_size_incomplete, simp_all)
    then show ?thesis by (simp add: cdr_stored_def cdr_hdr_valid_def Let_def)
  next
    case False
    define x where "x = drop 12 (take m ?h @ replicate (16 - m) erased_byte)"
    have lx: "length x = 4" using m by (simp add: x_def)
    have "take m ?h @ replicate (16 - m) erased_byte = take 12 (take m ?h @ replicate (16 - m) erased_byte) @ x"
      by (simp only: x_def append_take_drop_id)
    also have "\<dots> = take 12 ?h @ x" using False by (simp add: min_def)
    also have "\<dots> = cdr_hdr_bytes (cdr_new_hdr p\<lparr>ch_reserved2 := of_le32 x\<rparr>)"
      using le32_of_le32 [OF lx] by (simp add: cdr_hdr_bytes_def)
    finally show ?thesis using cdr_stored_layout [OF fit, of 0 "of_le32 x"] by (simp add: img)
  qed
qed

lemma cdr_persist_interrupted:
  assumes ok: "flash_ok img fa" and pr: "flash_progressive img fa" and fit: "cdr_fits k p"
    and persist: "cdr_persist_blob fa p f = (e, f')" and "e \<noteq> 0"
  shows "cdr_stored k (img f') = cdr_stored k (img f) \<or> cdr_stored k (img f') = None \<or> cdr_stored k (img f') = Some p"
  using ok fit persist
proof (cases rule: cdr_persist_cases)
  case (not_erased f1 f2)
  then show ?thesis
    using flash_progressive_erase [OF ok pr not_erased(3)] cdr_stored_first_byte [of "img f2" k] by auto
next
  case (header f3 f4)
  have "take 16 (img f3) = replicate 16 erased_byte" using header(1) by (simp add: header(4) take_splice_before)
  then obtain m where "m \<le> 16" "img f4 = splice 0 (take m (cdr_hdr_bytes (cdr_new_hdr p))) (img f3)"
    using flash_progressive_write [OF pr header(2) \<open>e \<noteq> 0\<close>] by auto
  then show ?thesis using cdr_header_interrupted [OF fit header(1)] header(3,4) by simp
qed (use cdr_stored_erased in auto)

subsection \<open>Restoring\<close>

lemmas cdr_restore_def = mflt_nrf70_fw_stats_cdr_restore_from_flash_def

lemma cdr_hdr_valid_bound: "cdr_hdr_valid h \<Longrightarrow> unat (ch_blob_size h) \<le> 1024"
  by (simp add: cdr_hdr_valid_def NRF70_FW_STATS_BLOB_MAX_SIZE_def not_less word_le_nat_alt)

lemma cdr_restore_success:
  assumes ok: "flash_ok img fa" and len: "length (s_nrf70_fw_stats_blob s) = 1024"
    and r: "mflt_nrf70_fw_stats_cdr_restore_from_flash fa s f = (0, s', f')"
  shows "\<exists>p. cdr_stored k (img f) = Some p \<and>
      s' = s\<lparr>s_nrf70_fw_stats_blob := splice 0 p (s_nrf70_fw_stats_blob s),
             s_nrf70_fw_stats_blob_size := of_nat (length p), s_cdr_data_ready := True,
             s_read_offset := 0, s_metadata_size_bytes := of_nat (length p)\<rparr> \<and>
      0 < length p \<and> length p \<le> 1024"
    and "(\<And>g. fst (fa_erase fa 0 (fa_size fa) g) = 0) \<Longrightarrow>
      img f' = replicate (unat (fa_size fa)) erased_byte"
proof -
  obtain f1 hb f2 p f3 where
    o: "fa_open fa f = (0, f1)" and
    h: "fa_read fa 0 (replicate 16 0) f1 = (0, hb, f2)" and
    v: "cdr_hdr_valid (cdr_hdr_of_bytes hb)" and
    r1: "fa_read fa 16 (take (unat (ch_blob_size (cdr_hdr_of_bytes hb)))
           (s_nrf70_fw_stats_blob s)) f2 = (0, p, f3)" and
    s': "s' = s\<lparr>s_nrf70_fw_stats_blob := splice 0 p (s_nrf70_fw_stats_blob s),
             s_nrf70_fw_stats_blob_size := ch_blob_size (cdr_hdr_of_bytes hb),
             s_cdr_data_ready := True, s_read_offset := 0,
             s_metadata_size_bytes := ch_blob_size (cdr_hdr_of_bytes hb)\<rparr>" and
    f': "f' = fa_close fa (snd (fa_erase fa 0 (fa_size fa) f3))"
    using r by (auto simp: cdr_restore_def Let_def split: prod.splits if_splits)
  let ?n = "unat (ch_blob_size (cdr_hdr_of_bytes hb))"
  note i1 = flash_ok_open [OF ok o] and i2 = flash_ok_read [OF ok h] and i3 = flash_ok_read [OF ok r1]
  have u16: "unat (16 :: u32) = 16" by simp
  have hb: "hb = take 16 (img f)" using i2(4) i1 by simp
  have tl: "length (take ?n (s_nrf70_fw_stats_blob s)) = ?n"
    using cdr_hdr_valid_bound [OF v] len by simp
  have p: "p = take ?n (drop 16 (img f))" using i3(4) i2(1) i1 u16 tl by simp
  have lp: "length p = ?n" using i3(2) tl by simp
  have b: "16 + ?n \<le> length (img f)" using i3(3) u16 tl flash_ok_length [OF ok, of f] by simp
  have "0 < ?n" using v by (simp add: cdr_hdr_valid_def unat_gt_0)
  then show "\<exists>p. cdr_stored k (img f) = Some p \<and>
      s' = s\<lparr>s_nrf70_fw_stats_blob := splice 0 p (s_nrf70_fw_stats_blob s),
             s_nrf70_fw_stats_blob_size := of_nat (length p), s_cdr_data_ready := True,
             s_read_offset := 0, s_metadata_size_bytes := of_nat (length p)\<rparr> \<and>
      0 < length p \<and> length p \<le> 1024"
    using hb p lp b v s' cdr_hdr_valid_bound [OF v] by (simp add: cdr_stored_def Let_def)
  show "img f' = replicate (unat (fa_size fa)) erased_byte"
    if e0: "\<And>g. fst (fa_erase fa 0 (fa_size fa) g) = 0"
  proof -
    obtain f5 where "fa_erase fa 0 (fa_size fa) f3 = (0, f5)" using e0 by (metis prod.collapse)
    then show ?thesis using flash_ok_erase_all [OF ok] flash_ok_close [OF ok] f' by simp
  qed
qed

lemma cdr_restore_reliable:
  assumes ok: "flash_ok img fa" and rel: "flash_reliable fa"
    and st: "cdr_stored k (img f) = Some p" and len: "length (s_nrf70_fw_stats_blob s) = 1024"
  shows "fst (mflt_nrf70_fw_stats_cdr_restore_from_flash fa s f) = 0"
proof -
  let ?hdr = "cdr_hdr_of_bytes (take 16 (img f))"
  have b: "16 + unat (ch_blob_size ?hdr) \<le> length (img f)" and v: "cdr_hdr_valid ?hdr"
    using st by (auto simp: cdr_stored_def Let_def split: if_splits)
  have n: "16 + unat (ch_blob_size ?hdr) \<le> unat (fa_size fa)"
    using b flash_ok_length [OF ok] by simp
  have u16: "unat (16 :: u32) = 16" by simp
  obtain f1 where o: "fa_open fa f = (0, f1)"
    using rel unfolding flash_reliable_def by (metis prod.collapse)
  have rd: "fst (fa_read fa off buf g) = 0" if "unat off + length buf \<le> unat (fa_size fa)"
    for off buf g using rel that unfolding flash_reliable_def by blast
  have "fst (fa_read fa 0 (replicate 16 0) f1) = 0" using n by (intro rd) simp
  then obtain hb f2 where h: "fa_read fa 0 (replicate 16 0) f1 = (0, hb, f2)"
    by (metis prod.collapse)
  have hb: "hb = take 16 (img f)"
    using flash_ok_read(4) [OF ok h] flash_ok_open [OF ok o] by simp
  have e1: "fst (fa_read fa 16 (take (unat (ch_blob_size ?hdr)) (s_nrf70_fw_stats_blob s)) g) = 0" for g
    using n u16 by (intro rd) simp
  then show ?thesis
    using o h v hb by (simp add: cdr_restore_def Let_def split_beta)
qed

text \<open>Only the array matters to the flash side of a restore.\<close>

lemma cdr_restore_cong:
  assumes "s_nrf70_fw_stats_blob s = s_nrf70_fw_stats_blob t"
  shows "fst (mflt_nrf70_fw_stats_cdr_restore_from_flash fa s f) =
      fst (mflt_nrf70_fw_stats_cdr_restore_from_flash fa t f)"
    and "snd (snd (mflt_nrf70_fw_stats_cdr_restore_from_flash fa s f)) =
      snd (snd (mflt_nrf70_fw_stats_cdr_restore_from_flash fa t f))"
  using assms by (simp_all add: cdr_restore_def Let_def split_beta)

lemma length_cdr_buffer [simp]: "length (cdr_buffer k) = 1024"
  by (simp add: cdr_buffer_def)

lemma cdr_buffer_id: "length k = 1024 \<Longrightarrow> cdr_buffer k = k"
  by (simp add: cdr_buffer_def)

lemma cdr_restore_blob_success:
  assumes ok: "flash_ok img fa" and r: "cdr_restore_blob fa k f = (0, r, f')"
  shows "\<exists>p. r = Some p \<and> cdr_stored k (img f) = Some p"
    and "(\<And>g. fst (fa_erase fa 0 (fa_size fa) g) = 0) \<Longrightarrow>
      img f' = replicate (unat (fa_size fa)) erased_byte"
proof -
  let ?s = "cdr_boot_state\<lparr>s_nrf70_fw_stats_blob := cdr_buffer k\<rparr>"
  have len: "length (s_nrf70_fw_stats_blob ?s) = 1024" by simp
  obtain s' where s': "mflt_nrf70_fw_stats_cdr_restore_from_flash fa ?s f = (0, s', f')"
    and r': "r = Some (take (unat (s_nrf70_fw_stats_blob_size s')) (s_nrf70_fw_stats_blob s'))"
    using r by (auto simp: cdr_restore_blob_def Let_def split: prod.splits if_splits)
  note suc = cdr_restore_success [OF ok len s']
  obtain p where p: "cdr_stored k (img f) = Some p" "length p \<le> 1024"
    "s' = ?s\<lparr>s_nrf70_fw_stats_blob := splice 0 p (cdr_buffer k),
       s_nrf70_fw_stats_blob_size := of_nat (length p), s_cdr_data_ready := True,
       s_read_offset := 0, s_metadata_size_bytes := of_nat (length p)\<rparr>"
    using suc(1) by auto
  then have "unat (s_nrf70_fw_stats_blob_size s') = length p"
    using unat_of_nat_u32 [of "length p"] by simp
  then show "\<exists>p. r = Some p \<and> cdr_stored k (img f) = Some p"
    using p r' by (simp add: splice_0)
  show "(\<And>g. fst (fa_erase fa 0 (fa_size fa) g) = 0) \<Longrightarrow>
      img f' = replicate (unat (fa_size fa)) erased_byte" by (rule suc(2))
qed

interpretation cdr_store: one_shot_store cdr_persist_blob cdr_restore_blob cdr_stored cdr_fits
proof
  fix k :: "byte list" and n
  show "cdr_stored k (replicate n erased_byte) = None"
    by (cases "16 \<le> n") (simp_all add: cdr_stored_erased cdr_stored_short min_def)
next
  fix img and fa :: "'f flash_area" and k p f f'
  assume "flash_ok img fa" "cdr_fits k p" "cdr_persist_blob fa p f = (0, f')"
  then show "cdr_stored k (img f') = Some p"
    using cdr_persist_image cdr_stored_layout by metis
next
  fix img and fa :: "'f flash_area" and k p f e f'
  assume "flash_ok img fa" "cdr_fits k p" "cdr_persist_blob fa p f = (e, f')" "e \<noteq> 0"
    "\<And>data g. fst (fa_write fa 0 data g) = 0" "\<And>g. fst (fa_erase fa 0 (fa_size fa) g) = 0"
  then show "img f' = img f \<or> cdr_stored k (img f') = None" by (rule cdr_persist_fails)
next
  fix img and fa :: "'f flash_area" and k f r f'
  assume a: "flash_ok img fa" "cdr_restore_blob fa k f = (0, r, f')"
  obtain p where "r = Some p" "cdr_stored k (img f) = Some p"
    using cdr_restore_blob_success(1) [OF a] by (elim exE conjE) (rule that)
  then show "r \<noteq> None \<and> r = cdr_stored k (img f)" by simp
next
  fix img and fa :: "'f flash_area" and k p f
  assume "flash_ok img fa" "flash_reliable fa" "cdr_stored k (img f) = Some p" "cdr_fits k p"
  then show "fst (cdr_restore_blob fa k f) = 0"
    using cdr_restore_reliable [of img fa k f p "cdr_boot_state\<lparr>s_nrf70_fw_stats_blob := cdr_buffer k\<rparr>"]
    by (auto simp: cdr_restore_blob_def Let_def split: prod.splits)
next
  fix img and fa :: "'f flash_area" and k f r f'
  assume a: "flash_ok img fa" "cdr_restore_blob fa k f = (0, r, f')"
    and e: "\<And>g. fst (fa_erase fa 0 (fa_size fa) g) = 0"
  show "img f' = replicate (unat (fa_size fa)) erased_byte"
    using cdr_restore_blob_success(2) [OF a e] .
qed

text \<open>A restore changes the partition only by erasing it.\<close>

lemma cdr_restore_flash:
  assumes ok: "flash_ok img fa" and "mflt_nrf70_fw_stats_cdr_restore_from_flash fa s f = (e, s', f')"
  shows "img f' = img f \<or> (\<exists>g. img g = img f \<and> img f' = img (snd (fa_erase fa 0 (fa_size fa) g)))"
proof -
  note kept = flash_ok_open [OF ok] flash_ok_read(1) [OF ok]
  show ?thesis
    using assms(2)
    by (auto simp: cdr_restore_def Let_def flash_ok_close [OF ok] split: prod.splits if_splits)
       (metis kept)+
qed

lemma cdr_restore_interrupted:
  assumes ok: "flash_ok img fa" and pr: "flash_progressive img fa"
    and "mflt_nrf70_fw_stats_cdr_restore_from_flash fa s f = (e, s', f')"
  shows "cdr_stored k (img f') = cdr_stored k (img f) \<or> cdr_stored k (img f') = None"
proof -
  have "img f' = img f \<or> take 1 (img f') = [erased_byte]"
    using cdr_restore_flash [OF ok assms(3)] flash_progressive_erase [OF ok pr] by (metis prod.collapse)
  then show ?thesis using cdr_stored_first_byte by metis
qed

interpretation cdr_store: crash_safe_store cdr_persist_blob cdr_restore_blob cdr_stored cdr_fits
proof (unfold_locales, goal_cases)
  case (1 img fa k p f e f')
  show ?case by (rule cdr_persist_interrupted [OF 1])
next
  case (2 img fa k f e r f')
  let ?r = "mflt_nrf70_fw_stats_cdr_restore_from_flash fa (cdr_boot_state\<lparr>s_nrf70_fw_stats_blob := cdr_buffer k\<rparr>) f"
  obtain s' where "?r = (e, s', f')" using 2(3) by (auto simp: cdr_restore_blob_def Let_def split: prod.splits)
  then show ?case by (rule cdr_restore_interrupted [OF 2(1,2)])
qed

subsection \<open>Every operation in any order\<close>

text \<open>
  The calls the rest of the firmware and the Memfault SDK make into the module. The driver's
  answers are part of the event.
\<close>

datatype cdr_event =
    Ev_init bool
  | Ev_collect fmac_env
  | Ev_button fmac_env button_msg
  | Ev_persist fmac_env
  | Ev_restore
  | Ev_has_cdr
  | Ev_read u32 "byte list"
  | Ev_mark_read

fun cdr_exec :: "'f flash_area \<Rightarrow> cdr_event \<Rightarrow> cdr_state \<times> 'f \<Rightarrow> (cdr_state \<times> 'f) \<times> cdr_call list" where
  "cdr_exec fa (Ev_init ok) (s, f) =
     (let (_, s', cs) = mflt_nrf70_fw_stats_cdr_init ok s in ((s', f), cs))"
| "cdr_exec fa (Ev_collect env) (s, f) =
     (let (_, s', cs) = mflt_nrf70_fw_stats_cdr_collect env s in ((s', f), cs))"
| "cdr_exec fa (Ev_button env msg) (s, f) =
     (let (s', cs) = cdr_button_listener env msg s in ((s', f), cs))"
| "cdr_exec fa (Ev_persist env) (s, f) =
     (let (_, s', cs, f') = mflt_nrf70_fw_stats_cdr_persist_to_flash fa env s f in ((s', f'), cs))"
| "cdr_exec fa Ev_restore (s, f) =
     (let (_, s', f') = mflt_nrf70_fw_stats_cdr_restore_from_flash fa s f in ((s', f'), []))"
| "cdr_exec fa Ev_has_cdr (s, f) = (let (_, _, s') = has_cdr_cb s in ((s', f), []))"
| "cdr_exec fa (Ev_read off buf) (s, f) = (let (_, _, s') = read_data_cb off buf s in ((s', f), []))"
| "cdr_exec fa Ev_mark_read (s, f) = ((mark_cdr_read_cb s, f), [])"

lemma collect_keeps_inv:
  assumes "cdr_inv s" "\<not> s_cdr_data_ready s" "collect_nrf70_fw_stats env s = (e, s', cs)"
  shows "cdr_inv s' \<and> \<not> s_cdr_data_ready s'"
proof -
  let ?w = "of_nat (length (fmac_stats_fw env)) :: u32"
  let ?n = "if ?w > NRF70_FW_STATS_BLOB_MAX_SIZE then NRF70_FW_STATS_BLOB_MAX_SIZE else ?w"
  have n: "unat ?n \<le> 1024"
    by (auto simp: NRF70_FW_STATS_BLOB_MAX_SIZE_def not_less word_le_nat_alt)
  then have le: "?n \<le> NRF70_FW_STATS_BLOB_MAX_SIZE" by auto
  have "length (splice 0 (take (unat ?n) (fmac_stats_fw env)) (s_nrf70_fw_stats_blob s)) = 1024"
    using assms(1) n by (subst length_splice) (simp_all add: cdr_inv_def)
  then show ?thesis
    using assms le by (auto simp: cdr_inv_def collect_nrf70_fw_stats_def Let_def split: if_splits)
qed

lemma cdr_exec_inv:
  assumes ok: "flash_ok img fa" and inv: "cdr_inv (fst sf)"
  shows "cdr_inv (fst (fst (cdr_exec fa ev sf)))"
proof -
  obtain s f where sf: "sf = (s, f)" by (cases sf)
  have inv: "cdr_inv s" using inv sf by simp
  let ?s1 = "s\<lparr>s_cdr_data_ready := False, s_nrf70_fw_stats_blob_size := 0, s_read_offset := 0\<rparr>"
  have c: "cdr_inv s2 \<and> \<not> s_cdr_data_ready s2"
    if "collect_nrf70_fw_stats env ?s1 = (e, s2, cs)" for env e s2 cs
    using collect_keeps_inv [OF _ _ that] inv by (simp add: cdr_inv_def)
  have col: "cdr_inv (fst (snd (mflt_nrf70_fw_stats_cdr_collect env s)))" for env
    using c by (auto simp: mflt_nrf70_fw_stats_cdr_collect_def Let_def cdr_inv_def split: prod.splits)
  have per: "cdr_inv (fst (snd (mflt_nrf70_fw_stats_cdr_persist_to_flash fa env s f)))" for env
    using c by (auto simp: mflt_nrf70_fw_stats_cdr_persist_to_flash_def Let_def cdr_inv_def
        split: prod.splits)
  have rst: "cdr_inv (fst (snd (mflt_nrf70_fw_stats_cdr_restore_from_flash fa s f)))"
    using inv cdr_hdr_valid_bound
    by (auto simp: cdr_restore_def Let_def cdr_inv_def cdr_hdr_valid_def not_less split: prod.splits
        dest: flash_ok_read(2) [OF ok])
  show ?thesis
    using inv col per rst sf
    by (cases ev) (auto simp: split_beta Let_def cdr_inv_def mflt_nrf70_fw_stats_cdr_init_def
        cdr_button_listener_def has_cdr_cb_def read_data_cb_def mark_cdr_read_cb_def)
qed

text \<open>The mutex of the Wi-Fi driver is taken and released in pairs, around the firmware query.\<close>

fun rpu_balanced :: "bool \<Rightarrow> cdr_call list \<Rightarrow> bool" where
  "rpu_balanced held [] = (\<not> held)"
| "rpu_balanced held (Rpu_lock # cs) = (\<not> held \<and> rpu_balanced True cs)"
| "rpu_balanced held (Rpu_unlock # cs) = (held \<and> rpu_balanced False cs)"
| "rpu_balanced held (Fmac_stats_get # cs) = (held \<and> rpu_balanced held cs)"
| "rpu_balanced held (Cdr_register_source # cs) = rpu_balanced held cs"

lemma rpu_balanced_append: "rpu_balanced h cs \<Longrightarrow> rpu_balanced False ds \<Longrightarrow> rpu_balanced h (cs @ ds)"
  by (induction h cs rule: rpu_balanced.induct) auto

lemma cdr_exec_balanced: "rpu_balanced False (snd (cdr_exec fa ev sf))"
  by (cases sf; cases ev)
    (auto simp: split_beta Let_def mflt_nrf70_fw_stats_cdr_init_def cdr_button_listener_def
      mflt_nrf70_fw_stats_cdr_collect_def mflt_nrf70_fw_stats_cdr_persist_to_flash_def
      collect_nrf70_fw_stats_def)

lemma cdr_run_balanced: "rpu_balanced False (snd (run_machine (cdr_exec fa) evs sf))"
  by (induction evs arbitrary: sf) (simp_all add: rpu_balanced_append cdr_exec_balanced)

lemma cdr_boot_inv: "cdr_inv cdr_boot_state"
  by (simp add: cdr_inv_def cdr_boot_state_def NRF70_FW_STATS_BLOB_MAX_SIZE_def)

subsection \<open>Reading in chunks\<close>

lemma cdr_inv_size: "cdr_inv s \<Longrightarrow> unat (s_nrf70_fw_stats_blob_size s) \<le> 1024"
  by (simp add: cdr_inv_def NRF70_FW_STATS_BLOB_MAX_SIZE_def word_le_nat_alt)

lemma read_data_cb_at:
  assumes inv: "cdr_inv s" and off: "off < unat (s_nrf70_fw_stats_blob_size s)"
    and c: "length buf < 2 ^ 32"
  shows "\<exists>s'. read_data_cb (of_nat off) buf s =
      (True, splice 0 (take (min (length buf) (unat (s_nrf70_fw_stats_blob_size s) - off))
         (drop off (s_nrf70_fw_stats_blob s))) buf, s') \<and>
      cdr_inv s' \<and> s_nrf70_fw_stats_blob s' = s_nrf70_fw_stats_blob s \<and>
      s_nrf70_fw_stats_blob_size s' = s_nrf70_fw_stats_blob_size s"
proof -
  let ?size = "s_nrf70_fw_stats_blob_size s"
  define w where "w = (of_nat off :: u32)"
  define l where "l = (of_nat (length buf) :: u32)"
  have o: "unat w = off"
    using off cdr_inv_size [OF inv] unfolding w_def by (intro unat_of_nat_u32) simp
  have b: "unat l = length buf" using c unfolding l_def by (rule unat_of_nat_u32)
  have lt: "w < ?size" using off o by (simp add: word_less_nat_alt)
  have "unat (?size - w) = unat ?size - off" using lt o by (simp add: unat_sub less_imp_le)
  then have k: "unat (if l < ?size - w then l else ?size - w) = min (length buf) (unat ?size - off)"
    using b by (simp add: word_less_nat_alt min_def)
  have s1: "(if w \<noteq> s_read_offset s then s\<lparr>s_read_offset := w\<rparr> else s) = s\<lparr>s_read_offset := w\<rparr>"
    by simp
  show ?thesis
    using lt inv o k unfolding read_data_cb_def Let_def w_def [symmetric] l_def [symmetric] s1
    by (auto simp: not_le cdr_inv_def split: if_splits)
qed

lemma read_data_cb_end:
  assumes "cdr_inv s" "unat (s_nrf70_fw_stats_blob_size s) \<le> off" "off < 2 ^ 32"
  shows "fst (read_data_cb (of_nat off) buf s) = False"
  using assms unat_of_nat_u32 [of off] by (simp add: read_data_cb_def Let_def word_le_nat_alt)

lemma cdr_drain_complete:
  assumes "0 < c" "c < 2 ^ 32" "cdr_inv s" "off \<le> unat (s_nrf70_fw_stats_blob_size s)"
    "unat (s_nrf70_fw_stats_blob_size s) - off \<le> n"
  shows "cdr_drain n c off s =
    drop off (take (unat (s_nrf70_fw_stats_blob_size s)) (s_nrf70_fw_stats_blob s))"
  using assms(3-5)
proof (induction n arbitrary: off s)
  case 0
  then show ?case by simp
next
  case (Suc n)
  let ?N = "unat (s_nrf70_fw_stats_blob_size s)" and ?B = "s_nrf70_fw_stats_blob s"
  have len: "?N \<le> 1024" "length ?B = 1024"
    using cdr_inv_size Suc.prems(1) by (auto simp: cdr_inv_def)
  show ?case
  proof (cases "off < ?N")
    case False
    then show ?thesis
      using Suc.prems len read_data_cb_end [OF Suc.prems(1), of off "replicate c 0"]
      by (auto split: prod.splits bool.splits)
  next
    case True
    let ?got = "min c (?N - off)"
    obtain s' where r: "read_data_cb (of_nat off) (replicate c 0) s =
        (True, splice 0 (take ?got (drop off ?B)) (replicate c 0), s')"
      and s': "cdr_inv s'" "s_nrf70_fw_stats_blob s' = ?B"
        "s_nrf70_fw_stats_blob_size s' = s_nrf70_fw_stats_blob_size s"
      using read_data_cb_at [OF Suc.prems(1) True, of "replicate c 0"] assms(2) by auto
    have got: "length (take ?got (drop off ?B)) = ?got" "?got \<le> c" using len by simp_all
    have "off + ?got \<le> unat (s_nrf70_fw_stats_blob_size s')"
      "unat (s_nrf70_fw_stats_blob_size s') - (off + ?got) \<le> n"
      using s'(3) Suc.prems(3) True assms(1) by (auto simp: min_def)
    then have IH: "cdr_drain n c (off + ?got) s' = drop (off + ?got) (take ?N ?B)"
      using Suc.IH [OF s'(1)] s'(2,3) by simp
    have "take ?got (splice 0 (take ?got (drop off ?B)) (replicate c 0)) = take ?got (drop off (take ?N ?B))"
      using got True by (simp add: splice_0 drop_take min_def)
    then have "cdr_drain (Suc n) c off s =
        take ?got (drop off (take ?N ?B)) @ drop (off + ?got) (take ?N ?B)"
      using r IH s' by (simp add: Let_def)
    then show ?thesis by (metis append_take_drop_id drop_drop add.commute)
  qed
qed

subsection \<open>Properties\<close>

text \<open>
  Whatever calls are made into the module in whatever order, with whatever answers of the
  Wi-Fi driver and of the flash driver, the recorded size never exceeds the 1024-byte array,
  the array keeps its size, the ready flag is only set for a non-empty recording, and the mutex
  of the Wi-Fi driver is balanced, with the firmware query inside.
\<close>

theorem cdr_invariant:
  assumes "flash_ok img fa" and "run_machine (cdr_exec fa) evs (cdr_boot_state, f) = ((s, f'), cs)"
  shows "cdr_inv s \<and> rpu_balanced False cs"
proof -
  have "cdr_inv (fst (fst (run_machine (cdr_exec fa) evs (cdr_boot_state, f))))"
    by (rule run_machine_inv [where P = "\<lambda>sf. cdr_inv (fst sf)"])
      (simp_all add: cdr_exec_inv [OF assms(1)] cdr_boot_inv)
  then show ?thesis using assms(2) cdr_run_balanced [of fa evs "(cdr_boot_state, f)"] by simp
qed

theorem cdr_invariant_witness:
  "\<exists>s f' cs. run_machine (cdr_exec (ram_flash 2048))
      [Ev_init True,
       Ev_collect \<lparr>rpu_ctx_present = True, fmac_stats_success = True, fmac_stats_fw = [1, 2, 3]\<rparr>]
      (cdr_boot_state, []) = ((s, f'), cs) \<and> cs = [Cdr_register_source, Rpu_lock, Fmac_stats_get, Rpu_unlock]
      \<and> cdr_inv s \<and> rpu_balanced False cs"
proof -
  obtain s f' cs where r: "run_machine (cdr_exec (ram_flash 2048))
      [Ev_init True,
       Ev_collect \<lparr>rpu_ctx_present = True, fmac_stats_success = True, fmac_stats_fw = [1, 2, 3]\<rparr>]
      (cdr_boot_state, []) = ((s, f'), cs)" by (metis prod.collapse)
  then have "cs = [Cdr_register_source, Rpu_lock, Fmac_stats_get, Rpu_unlock]"
    by (simp add: run_machine.simps(2) mflt_nrf70_fw_stats_cdr_init_def cdr_boot_state_def Let_def
        mflt_nrf70_fw_stats_cdr_collect_def collect_nrf70_fw_stats_def NRF70_FW_STATS_BLOB_MAX_SIZE_def)
  then show ?thesis using r cdr_invariant [OF ram_flash_ok r] by blast
qed

lemma cdr_collect_size:
  assumes "length fw < 2 ^ 32"
  shows "unat (if of_nat (length fw) > NRF70_FW_STATS_BLOB_MAX_SIZE
      then NRF70_FW_STATS_BLOB_MAX_SIZE else (of_nat (length fw) :: u32)) = length (take 1024 fw)"
  using unat_of_nat_u32 [OF assms]
  by (auto simp: NRF70_FW_STATS_BLOB_MAX_SIZE_def word_less_nat_alt min_def)

lemma cdr_persist_payload:
  assumes "cdr_inv s" "length (fmac_stats_fw env) < 2 ^ 32"
    and "mflt_nrf70_fw_stats_cdr_persist_to_flash fa env s f = (0, s1, cs, f1)"
  shows "cdr_persist_blob fa (take 1024 (fmac_stats_fw env)) f = (0, f1) \<and>
    take 1024 (fmac_stats_fw env) \<noteq> []"
proof -
  let ?fw = "fmac_stats_fw env"
  define n where "n = (if of_nat (length ?fw) > NRF70_FW_STATS_BLOB_MAX_SIZE
      then NRF70_FW_STATS_BLOB_MAX_SIZE else (of_nat (length ?fw) :: u32))"
  have n: "unat n = length (take 1024 ?fw)" unfolding n_def by (rule cdr_collect_size [OF assms(2)])
  then have tk: "take (unat n) ?fw = take 1024 ?fw" by (simp add: min_def)
  have len: "length (s_nrf70_fw_stats_blob s) = 1024" using assms(1) by (simp add: cdr_inv_def)
  have "take (unat n) (splice 0 (take 1024 ?fw) (s_nrf70_fw_stats_blob s)) = take 1024 ?fw"
    using n len by (simp add: splice_0)
  moreover have "n \<noteq> 0 \<and> cdr_persist_blob fa
      (take (unat n) (splice 0 (take (unat n) ?fw) (s_nrf70_fw_stats_blob s))) f = (0, f1)"
    using assms(3)
    unfolding mflt_nrf70_fw_stats_cdr_persist_to_flash_def collect_nrf70_fw_stats_def Let_def
      n_def [symmetric]
    by (auto split: prod.splits if_splits)
  ultimately show ?thesis using n tk by (metis list.size(3) unsigned_0 word_unat_eq_iff)
qed

lemma cdr_persist_then_restore:
  assumes "flash_ok img fa" and "flash_reliable fa"
    and "cdr_inv s" and "cdr_inv t" and "0 < c" and "c < 2 ^ 32"
    and "length (fmac_stats_fw env) < 2 ^ 32"
    and "mflt_nrf70_fw_stats_cdr_persist_to_flash fa env s f = (0, s1, cs, f1)"
    and "mflt_nrf70_fw_stats_cdr_restore_from_flash fa t f1 = (e, t1, f2)"
  shows "e = 0 \<and> cdr_drain 1024 c 0 t1 = take 1024 (fmac_stats_fw env) \<and>
    (\<exists>t2. has_cdr_cb t1 = (True, Some (of_nat (length (take 1024 (fmac_stats_fw env)))), t2)) \<and>
    fst (mflt_nrf70_fw_stats_cdr_restore_from_flash fa t1 f2) \<noteq> 0"
proof -
  let ?p = "take 1024 (fmac_stats_fw env)"
  have per: "cdr_persist_blob fa ?p f = (0, f1)" and ne: "?p \<noteq> []"
    using cdr_persist_payload [OF assms(3,7,8)] by auto
  have fit: "cdr_fits k ?p" for k using ne by (simp add: cdr_fits_def)
  have st: "cdr_stored [] (img f1) = Some ?p" using cdr_store.persist_stores [OF assms(1) fit per] .
  have len: "length (s_nrf70_fw_stats_blob t) = 1024" using assms(4) by (simp add: cdr_inv_def)
  have e: "e = 0" using cdr_restore_reliable [OF assms(1,2) st len] assms(9) by simp
  have rd: "mflt_nrf70_fw_stats_cdr_restore_from_flash fa t f1 = (0, t1, f2)" using assms(9) e by simp
  have t1: "t1 = t\<lparr>s_nrf70_fw_stats_blob := splice 0 ?p (s_nrf70_fw_stats_blob t),
      s_nrf70_fw_stats_blob_size := of_nat (length ?p), s_cdr_data_ready := True,
      s_read_offset := 0, s_metadata_size_bytes := of_nat (length ?p)\<rparr>"
    using cdr_restore_success(1) [OF assms(1) len rd, of "[]"] st by auto
  have lp: "unat (of_nat (length ?p) :: u32) = length ?p" by (rule unat_of_nat_u32) simp
  then have nz: "(of_nat (length ?p) :: u32) \<noteq> 0" using ne by (metis length_0_conv unsigned_0)
  have inv: "cdr_inv t1"
    using assms(1,4) cdr_exec_inv [of img fa "(t, f1)" Ev_restore] rd by simp
  have "cdr_drain 1024 c 0 t1 = ?p"
    using cdr_drain_complete [OF assms(5,6) inv, of 0 1024] t1 lp len
    by (simp add: splice_0)
  moreover have "\<exists>t2. has_cdr_cb t1 = (True, Some (of_nat (length ?p)), t2)"
    using t1 nz by (simp add: has_cdr_cb_def Let_def)
  moreover have "fst (mflt_nrf70_fw_stats_cdr_restore_from_flash fa t1 f2) \<noteq> 0"
  proof
    assume "fst (mflt_nrf70_fw_stats_cdr_restore_from_flash fa t1 f2) = 0"
    then obtain t3 f3 where r3: "mflt_nrf70_fw_stats_cdr_restore_from_flash fa t1 f2 = (0, t3, f3)"
      by (metis prod.collapse)
    have "length (s_nrf70_fw_stats_blob t1) = 1024" using inv by (simp add: cdr_inv_def)
    then obtain q where "cdr_stored [] (img f2) = Some q"
      using cdr_restore_success(1) [OF assms(1) _ r3, of "[]"] by auto
    moreover have "img f2 = replicate (unat (fa_size fa)) erased_byte"
      using cdr_restore_success(2) [OF assms(1) len rd] assms(2) by (simp add: flash_reliable_def)
    ultimately show False using cdr_store.erased_empty by (metis option.distinct(1))
  qed
  ultimately show ?thesis using e by blast
qed

text \<open>With a working driver and a partition that is large enough, persisting succeeds.\<close>

lemma cdr_persist_blob_reliable:
  assumes "flash_reliable fa" "length p \<le> 1024" "16 + length p \<le> unat (fa_size fa)"
  shows "fst (cdr_persist_blob fa p f) = 0"
proof -
  have u: "unat (16 + of_nat (length p) :: u32) = 16 + length p" using assms(2) by (intro unat_hdr_plus) simp
  then have sz: "\<not> 16 + of_nat (length p) > fa_size fa" using assms(3) by (simp add: not_less word_le_nat_alt)
  have "fst (fa_write fa 16 p g) = 0" "fst (fa_write fa 0 (cdr_hdr_bytes h) g) = 0"
    "fst (fa_open fa g) = 0" "fst (fa_erase fa 0 (fa_size fa) g) = 0" for g h
    using assms(1,3) by (simp_all add: flash_reliable_def)
  then show ?thesis using sz by (simp add: cdr_persist_blob_def Let_def split_beta)
qed

lemma cdr_persist_reliable:
  assumes "flash_reliable fa" "cdr_inv s" "rpu_ctx_present env" "fmac_stats_success env"
    "fmac_stats_fw env \<noteq> []" "length (fmac_stats_fw env) < 2 ^ 32"
    "16 + length (take 1024 (fmac_stats_fw env)) \<le> unat (fa_size fa)"
  shows "fst (mflt_nrf70_fw_stats_cdr_persist_to_flash fa env s f) = 0"
proof -
  let ?fw = "fmac_stats_fw env" and ?p = "take 1024 (fmac_stats_fw env)"
  define n where "n = (if of_nat (length ?fw) > NRF70_FW_STATS_BLOB_MAX_SIZE
      then NRF70_FW_STATS_BLOB_MAX_SIZE else (of_nat (length ?fw) :: u32))"
  have n: "unat n = length ?p" unfolding n_def by (rule cdr_collect_size [OF assms(6)])
  have tk: "take (unat n) ?fw = ?p" using n by simp
  have len: "length (s_nrf70_fw_stats_blob s) = 1024" using assms(2) by (simp add: cdr_inv_def)
  have tt: "take (unat n) (splice 0 ?p (s_nrf70_fw_stats_blob s)) = ?p" using n len by (simp add: splice_0)
  have "0 < length ?p" using assms(5) by simp
  then have n0: "n \<noteq> 0" using n by (metis less_numeral_extra(3) unsigned_0)
  have b: "fst (cdr_persist_blob fa ?p f) = 0" using cdr_persist_blob_reliable [OF assms(1) _ assms(7)] by simp
  have "collect_nrf70_fw_stats env (s\<lparr>s_cdr_data_ready := False, s_nrf70_fw_stats_blob_size := 0,
      s_read_offset := 0\<rparr>) = (0, s\<lparr>s_cdr_data_ready := False, s_nrf70_fw_stats_blob_size := n,
      s_read_offset := 0, s_nrf70_fw_stats_blob := splice 0 ?p (s_nrf70_fw_stats_blob s)\<rparr>,
      [Rpu_lock, Fmac_stats_get, Rpu_unlock])"
    using assms(3,4) unfolding collect_nrf70_fw_stats_def Let_def n_def [symmetric] tk by simp
  then show ?thesis
    using n0 tt b by (simp add: mflt_nrf70_fw_stats_cdr_persist_to_flash_def Let_def split_beta)
qed

text \<open>
  C13: the statistics collected and persisted at a disconnect are what the next restore offers for
  upload: a reader that asks for the recording in pieces of any positive size gets exactly the
  bytes the firmware reported (the first 1024 when there are more), \<^verbatim>\<open>has_cdr_cb\<close> announces their
  number, and a second restore finds nothing. The state the restore starts from is any state of
  the module, as after a reboot.
\<close>

theorem cdr_persist_restore_roundtrip:
  assumes "flash_ok img fa" and "flash_reliable fa"
    and "cdr_inv s" and "cdr_inv t" and "0 < c" and "c < 2 ^ 32"
    and "length (fmac_stats_fw env) < 2 ^ 32"
    and "mflt_nrf70_fw_stats_cdr_persist_to_flash fa env s f = (0, s1, cs, f1)"
    and "mflt_nrf70_fw_stats_cdr_restore_from_flash fa t f1 = (e, t1, f2)"
  shows "e = 0 \<and> cdr_drain 1024 c 0 t1 = take 1024 (fmac_stats_fw env) \<and>
    (\<exists>t2. has_cdr_cb t1 = (True, Some (of_nat (length (take 1024 (fmac_stats_fw env)))), t2)) \<and>
    fst (mflt_nrf70_fw_stats_cdr_restore_from_flash fa t1 f2) \<noteq> 0"
  by (rule cdr_persist_then_restore [OF assms])

lemma cdr_persist_blob_ram:
  "cdr_fits k p \<Longrightarrow> 16 + length p \<le> unat n \<Longrightarrow>
   \<exists>f1. cdr_persist_blob (ram_flash n) p f = (0, f1)"
  using unat_hdr_plus [of "length p"]
  by (auto simp: cdr_persist_blob_def ram_flash_def Let_def cdr_fits_def not_less word_less_nat_alt)

definition cdr_sample_env :: fmac_env where
  "cdr_sample_env = \<lparr>rpu_ctx_present = True, fmac_stats_success = True, fmac_stats_fw = [1, 2, 3]\<rparr>"

lemma cdr_sample_persist:
  assumes "cdr_inv s"
  shows "\<exists>s1 cs f1. mflt_nrf70_fw_stats_cdr_persist_to_flash (ram_flash 2048) cdr_sample_env s f =
    (0, s1, cs, f1)"
proof -
  have len: "length (s_nrf70_fw_stats_blob s) = 1024" using assms by (simp add: cdr_inv_def)
  have "cdr_fits [] [1, 2, 3]" by (simp add: cdr_fits_def)
  then obtain f1 where "cdr_persist_blob (ram_flash 2048) [1, 2, 3] f = (0, f1)"
    using cdr_persist_blob_ram [of _ _ 2048] by fastforce
  then show ?thesis
    using len by (simp add: mflt_nrf70_fw_stats_cdr_persist_to_flash_def collect_nrf70_fw_stats_def
        cdr_sample_env_def NRF70_FW_STATS_BLOB_MAX_SIZE_def Let_def splice_0)
qed

theorem cdr_persist_restore_roundtrip_witness:
  "\<exists>s1 cs f1 t1 f2.
     mflt_nrf70_fw_stats_cdr_persist_to_flash (ram_flash 2048) cdr_sample_env cdr_boot_state [] =
       (0, s1, cs, f1) \<and>
     mflt_nrf70_fw_stats_cdr_restore_from_flash (ram_flash 2048) cdr_boot_state f1 = (0, t1, f2) \<and>
     cdr_drain 1024 2 0 t1 = [1, 2, 3]"
proof -
  obtain s1 cs f1 where p: "mflt_nrf70_fw_stats_cdr_persist_to_flash (ram_flash 2048)
      cdr_sample_env cdr_boot_state [] = (0, s1, cs, f1)"
    using cdr_sample_persist [OF cdr_boot_inv] by blast
  obtain e t1 f2 where r: "mflt_nrf70_fw_stats_cdr_restore_from_flash (ram_flash 2048)
      cdr_boot_state f1 = (e, t1, f2)" by (metis prod.collapse)
  have "length (fmac_stats_fw cdr_sample_env) < 2 ^ 32" by (simp add: cdr_sample_env_def)
  then show ?thesis
    using p r cdr_persist_restore_roundtrip [OF ram_flash_ok ram_flash_reliable cdr_boot_inv
        cdr_boot_inv, of 2 cdr_sample_env, OF _ _ _ p r]
    by (simp add: cdr_sample_env_def)
qed

text \<open>
  The recording stays available until it has been read, and only until then: a reader in
  chunks does not consume it, acknowledging it withdraws it, and a failed collection withdraws
  the previous one.
\<close>

theorem cdr_available_until_read:
  "fst (has_cdr_cb s) = (s_cdr_data_ready s \<and> s_nrf70_fw_stats_blob_size s \<noteq> 0) \<and>
   fst (has_cdr_cb (snd (snd (read_data_cb off buf s)))) = fst (has_cdr_cb s) \<and>
   fst (has_cdr_cb (snd (snd (has_cdr_cb s)))) = fst (has_cdr_cb s) \<and>
   \<not> fst (has_cdr_cb (mark_cdr_read_cb s)) \<and>
   fst (has_cdr_cb (fst (snd (mflt_nrf70_fw_stats_cdr_collect env s)))) =
     (fst (mflt_nrf70_fw_stats_cdr_collect env s) = 0)"
  by (auto simp: has_cdr_cb_def read_data_cb_def mark_cdr_read_cb_def Let_def
      mflt_nrf70_fw_stats_cdr_collect_def collect_nrf70_fw_stats_def)

text \<open>A driver whose payload reads fail after overwriting the destination.\<close>

definition failing_read_flash :: "byte list flash_area" where
  "failing_read_flash = (ram_flash 64)\<lparr>fa_read := (\<lambda>off buf f.
     if off = 16 then (- EIO, replicate (length buf) 0, f) else fa_read (ram_flash 64) off buf f)\<rparr>"

lemma failing_read_flash_ok: "flash_ok (ram_image 64) failing_read_flash"
  using ram_flash_ok [of 64] unfolding flash_ok_def failing_read_flash_def
  by (auto split: if_splits)

text \<open>
  A flash read error during the restore of a reconnect without a reboot spoils a recording
  that was ready for upload: the failed read has overwritten the array in place, the error
  return leaves the ready flag and the size as they were, and the erased partition no longer
  holds the good copy, so the module offers the overwritten bytes.
\<close>

theorem cdr_restore_error_spoils_ready:
  "flash_ok (ram_image 64) failing_read_flash \<and>
   (let (e1, s1, cs, f1) = mflt_nrf70_fw_stats_cdr_persist_to_flash failing_read_flash
          cdr_sample_env cdr_boot_state [];
        (e2, s2, f2) = mflt_nrf70_fw_stats_cdr_restore_from_flash failing_read_flash s1 f1
    in e1 = 0 \<and> fst (has_cdr_cb s1) \<and> cdr_drain 9 8 0 s1 = [1, 2, 3] \<and>
       e2 = - EIO \<and> fst (has_cdr_cb s2) \<and> cdr_drain 9 8 0 s2 = [0, 0, 0] \<and>
       f2 = replicate 64 erased_byte)"
  by (rule conjI [OF failing_read_flash_ok]) code_simp

end
