(* ===== verification/Memfault_Core.thy ===== *)
theory Memfault_Core
  imports Log_State Cdr_Stats
begin

text \<open>
  The Memfault core module, \<^verbatim>\<open>src/src/modules/app_memfault/core/app_memfault_core.c\<close>: the listeners
  for connectivity and buttons, the delayed work that persists the log and the CDR state after a
  loss, the upload thread, and what it does once the name server answers.

  The module calls \<^theory_text>\<open>Log_State\<close> and \<^theory_text>\<open>Cdr_Stats\<close>, so their state and their two flash partitions
  are part of the world it acts on (\<open>core_world\<close>). Kconfig switches are \<open>core_cfg\<close>. Calls into the
  kernel, the Memfault SDK and the bootloader are recorded in order, their answers are \<open>core_env\<close>.
\<close>

subsection \<open>Data\<close>

record core_cfg =
  cc_log_state_restore :: bool
  cc_cdr_state_restore :: bool
  cc_post_coredump_on_connect :: bool
  cc_ncs_stack_metrics :: bool
  cc_posix_api :: bool

record core_state =
  wifi_connected :: bool
  log_freeze_scheduled :: bool
  network_ever_connected :: bool

definition core_boot_state :: core_state where
  "core_boot_state = \<lparr>wifi_connected = False, log_freeze_scheduled = False, network_ever_connected = False\<rparr>"

record ('f, 'g) core_world =
  cw_log :: log_save_state
  cw_cdr :: cdr_state
  cw_log_flash :: 'f
  cw_cdr_flash :: 'g

datatype connectivity_state = Connectivity_Started | Connectivity_Connected | Connectivity_ConnectionLost

datatype core_call =
    Core_work_schedule u32
  | Core_work_cancel
  | Core_connectivity_state_change connectivity_state
  | Core_upload_sem_give
  | Core_upload_sem_take
  | Core_sleep_sec u32
  | Core_getaddrinfo string string
  | Core_freeaddrinfo
  | Core_log_call log_call
  | Core_cdr_call cdr_call
  | Core_log_trigger_collection
  | Core_heartbeat_debug_trigger
  | Core_post_data
  | Core_ncs_metrics_collect
  | Core_wifi_metrics_collect
  | Core_set_log_buf_bytes_used u32
  | Core_fib int
  | Core_div_by_zero
  | Core_add_switch_1_toggle_count u32
  | Core_trace_switch_2_toggled
  | Core_boot_write_img_confirmed
  | Core_log_set_min_save_level_debug

record core_env =
  ce_has_valid_coredump :: bool
  ce_data_available :: bool
  ce_unsent_bytes :: u32
  ce_getaddrinfo :: int
  ce_getaddrinfo_res :: bool
  ce_img_confirmed :: bool

definition MEMFAULT_HOSTNAME :: string where "MEMFAULT_HOSTNAME = ''chunks-nrf.memfault.com''"
definition CORE_DNS_CHECK_INTERVAL_SEC :: int where "CORE_DNS_CHECK_INTERVAL_SEC = 10"
definition DNS_TIMEOUT_SEC :: int where "DNS_TIMEOUT_SEC = 300"
definition LOG_FREEZE_DELAY_SEC :: u32 where "LOG_FREEZE_DELAY_SEC = 10"

subsection \<open>The delayed persist\<close>

definition log_freeze_work_fn ::
  "core_cfg \<Rightarrow> 'f flash_area \<Rightarrow> 'g flash_area \<Rightarrow> fmac_env \<Rightarrow> core_state \<Rightarrow> ('f, 'g) core_world \<Rightarrow>
     core_state \<times> ('f, 'g) core_world \<times> core_call list" where
  "log_freeze_work_fn cfg fal fac env s w =
     (let s1 = s\<lparr>log_freeze_scheduled := False\<rparr>;
          w1 = (if cc_log_state_restore cfg
                then w\<lparr>cw_log_flash := snd (memfault_log_state_persist_now fal (cw_log w) (cw_log_flash w))\<rparr>
                else w)
      in if cc_cdr_state_restore cfg
         then let (err, cdr, cs, g) =
                    mflt_nrf70_fw_stats_cdr_persist_to_flash fac env (cw_cdr w1) (cw_cdr_flash w1)
              in (s1, w1\<lparr>cw_cdr := cdr, cw_cdr_flash := g\<rparr>, map Core_cdr_call cs)
         else (s1, w1, []))"

subsection \<open>Heartbeat and demo\<close>

function fib :: "int \<Rightarrow> int" where
  "fib n = (if n \<le> 1 then n else fib (n - 1) + fib (n - 2))"
  by auto
termination by (relation "measure nat") auto

declare fib.simps [simp del]

definition memfault_metrics_heartbeat_collect_data :: "core_cfg \<Rightarrow> core_env \<Rightarrow> core_call list" where
  "memfault_metrics_heartbeat_collect_data cfg env =
     (if cc_ncs_stack_metrics cfg then [Core_ncs_metrics_collect] else []) @
     [Core_wifi_metrics_collect, Core_set_log_buf_bytes_used (ce_unsent_bytes env)]"

subsection \<open>Upload\<close>

definition core_check_dns_ready :: "core_cfg \<Rightarrow> core_env \<Rightarrow> bool \<times> core_call list" where
  "core_check_dns_ready cfg env =
     (if cc_posix_api cfg
      then (ce_getaddrinfo env = 0,
            [Core_getaddrinfo MEMFAULT_HOSTNAME ''443''] @
            (if ce_getaddrinfo_res env then [Core_freeaddrinfo] else []))
      else (True, []))"

definition on_connect ::
  "core_cfg \<Rightarrow> 'f flash_area \<Rightarrow> 'g flash_area \<Rightarrow> core_env \<Rightarrow> ('f, 'g) core_world \<Rightarrow>
     ('f, 'g) core_world \<times> core_call list" where
  "on_connect cfg fal fac env w =
     (if cc_post_coredump_on_connect cfg \<and> ce_has_valid_coredump env then (w, [])
      else let (w1, c1) =
                 (if cc_log_state_restore cfg
                  then let (restore_err, live, lcs, f) =
                             memfault_log_state_restore_on_connect fal (cw_log w) (cw_log_flash w)
                       in (w\<lparr>cw_log := live, cw_log_flash := f\<rparr>,
                           map Core_log_call lcs @
                           (if restore_err = 0 then [Core_log_trigger_collection] else []))
                  else (w, []));
               w2 = (if cc_cdr_state_restore cfg
                     then let (cdr_restore_err, cdr, g) =
                                mflt_nrf70_fw_stats_cdr_restore_from_flash fac (cw_cdr w1) (cw_cdr_flash w1)
                          in w1\<lparr>cw_cdr := cdr, cw_cdr_flash := g\<rparr>
                     else w1);
               c2 = c1 @ [Core_heartbeat_debug_trigger]
           in if \<not> ce_data_available env then (w2, c2) else (w2, c2 @ [Core_post_data]))"

datatype upload_pc =
    UP_take
  | UP_settle
  | UP_dns_while int
  | UP_dns_check int
  | UP_dns_sleep int
  | UP_after_dns

fun upload_thread_fn ::
  "core_cfg \<Rightarrow> 'f flash_area \<Rightarrow> 'g flash_area \<Rightarrow> core_env \<Rightarrow> upload_pc \<Rightarrow> core_state \<Rightarrow>
     ('f, 'g) core_world \<Rightarrow> upload_pc \<times> ('f, 'g) core_world \<times> core_call list" where
  "upload_thread_fn cfg fal fac env UP_take s w = (UP_settle, w, [Core_upload_sem_take, Core_sleep_sec 2])"
| "upload_thread_fn cfg fal fac env UP_settle s w = (UP_dns_while 2, w, [])"
| "upload_thread_fn cfg fal fac env (UP_dns_while t) s w =
     (if wifi_connected s then (UP_dns_check t, w, []) else (UP_after_dns, w, []))"
| "upload_thread_fn cfg fal fac env (UP_dns_check t) s w =
     (let (ready, cs) = core_check_dns_ready cfg env
      in if ready then (UP_after_dns, w, cs)
         else if t \<ge> DNS_TIMEOUT_SEC then (UP_after_dns, w, cs)
         else (UP_dns_sleep t, w, cs @ [Core_sleep_sec (of_int CORE_DNS_CHECK_INTERVAL_SEC)]))"
| "upload_thread_fn cfg fal fac env (UP_dns_sleep t) s w =
     (UP_dns_while (t + CORE_DNS_CHECK_INTERVAL_SEC), w, [])"
| "upload_thread_fn cfg fal fac env UP_after_dns s w =
     (if \<not> wifi_connected s then (UP_take, w, [])
      else let (w', cs) = on_connect cfg fal fac env w in (UP_take, w', cs))"

subsection \<open>Listeners\<close>

definition core_schedule_freeze :: "core_state \<Rightarrow> core_state \<times> core_call list" where
  "core_schedule_freeze s =
     (if network_ever_connected s \<and> \<not> log_freeze_scheduled s
      then (s\<lparr>log_freeze_scheduled := True\<rparr>, [Core_work_schedule LOG_FREEZE_DELAY_SEC])
      else (s, []))"

definition memfault_wifi_listener :: "(wifi_msg_type, core_state, core_call) machine" where
  "memfault_wifi_listener m s =
     (case m of
        WIFI_STA_CONNECTED \<Rightarrow>
          (s\<lparr>wifi_connected := True, network_ever_connected := True, log_freeze_scheduled := False\<rparr>,
           [Core_work_cancel, Core_connectivity_state_change Connectivity_Connected,
            Core_upload_sem_give])
      | WIFI_STA_DISCONNECTED \<Rightarrow>
          (let (s', cs) = core_schedule_freeze (s\<lparr>wifi_connected := False\<rparr>)
           in (s', Core_connectivity_state_change Connectivity_ConnectionLost # cs))
      | _ \<Rightarrow> (s, []))"

definition memfault_network_listener :: "(network_msg, core_state, core_call) machine" where
  "memfault_network_listener msg s =
     (if nm_type msg = NETWORK_NOT_READY then core_schedule_freeze s else (s, []))"

definition memfault_button_listener :: "button_msg \<Rightarrow> core_state \<Rightarrow> core_call list" where
  "memfault_button_listener msg s =
     (let btn = bm_button_number msg
      in if btn = 0
         then (if bm_type msg = BUTTON_LONG_PRESS then [Core_fib 10000]
               else if bm_type msg = BUTTON_SINGLE_CLICK
               then (if wifi_connected s then [Core_heartbeat_debug_trigger, Core_upload_sem_give] else [])
               else [])
         else if btn = 1 then (if bm_type msg = BUTTON_LONG_PRESS then [Core_div_by_zero] else [])
         else if btn = 2 \<and> bm_type msg = BUTTON_SINGLE_CLICK then [Core_add_switch_1_toggle_count 1]
         else if btn = 3 \<and> bm_type msg = BUTTON_SINGLE_CLICK then [Core_trace_switch_2_toggled]
         else [])"

definition memfault_core_init :: "core_env \<Rightarrow> int \<times> core_call list" where
  "memfault_core_init env =
     (0, (if \<not> ce_img_confirmed env then [Core_boot_write_img_confirmed] else []) @
         [Core_log_set_min_save_level_debug, Core_connectivity_state_change Connectivity_Started])"

subsection \<open>Interleaving\<close>

text \<open>
  \<open>csy_pending\<close> is the kernel's side of the delayable work: scheduled and neither cancelled nor
  run. The work runs (\<open>Core_in_work\<close>) only when it is pending.
\<close>

datatype core_input =
    Core_in_thread core_env
  | Core_in_wifi wifi_msg_type
  | Core_in_network network_msg
  | Core_in_button button_msg
  | Core_in_work fmac_env

record ('f, 'g) core_sys =
  csy_pc :: upload_pc
  csy_state :: core_state
  csy_pending :: bool
  csy_world :: "('f, 'g) core_world"

fun work_pending_after :: "bool \<Rightarrow> core_call list \<Rightarrow> bool" where
  "work_pending_after p [] = p"
| "work_pending_after p (Core_work_schedule d # cs) = work_pending_after True cs"
| "work_pending_after p (Core_work_cancel # cs) = work_pending_after False cs"
| "work_pending_after p (_ # cs) = work_pending_after p cs"

definition core_handle ::
  "core_cfg \<Rightarrow> 'f flash_area \<Rightarrow> 'g flash_area \<Rightarrow> (core_input, ('f, 'g) core_sys, core_call) machine" where
  "core_handle cfg fal fac i x =
     (case i of
        Core_in_thread env \<Rightarrow>
          (let (pc, w, cs) = upload_thread_fn cfg fal fac env (csy_pc x) (csy_state x) (csy_world x)
           in (x\<lparr>csy_pc := pc, csy_world := w\<rparr>, cs))
      | Core_in_wifi m \<Rightarrow>
          (let (s, cs) = memfault_wifi_listener m (csy_state x)
           in (x\<lparr>csy_state := s, csy_pending := work_pending_after (csy_pending x) cs\<rparr>, cs))
      | Core_in_network msg \<Rightarrow>
          (let (s, cs) = memfault_network_listener msg (csy_state x)
           in (x\<lparr>csy_state := s, csy_pending := work_pending_after (csy_pending x) cs\<rparr>, cs))
      | Core_in_button msg \<Rightarrow> (x, memfault_button_listener msg (csy_state x))
      | Core_in_work env \<Rightarrow>
          (if csy_pending x
           then let (s, w, cs) = log_freeze_work_fn cfg fal fac env (csy_state x) (csy_world x)
                in (x\<lparr>csy_state := s, csy_pending := False, csy_world := w\<rparr>, cs)
           else (x, [])))"

definition core_initial :: "('f, 'g) core_world \<Rightarrow> ('f, 'g) core_sys" where
  "core_initial w = \<lparr>csy_pc = UP_take, csy_state = core_boot_state, csy_pending = False, csy_world = w\<rparr>"

fun upload_pc_ok :: "upload_pc \<Rightarrow> bool" where
  "upload_pc_ok (UP_dns_while t) = (2 \<le> t \<and> t \<le> 302 \<and> 10 dvd (t - 2))"
| "upload_pc_ok (UP_dns_check t) = (2 \<le> t \<and> t \<le> 302 \<and> 10 dvd (t - 2))"
| "upload_pc_ok (UP_dns_sleep t) = (2 \<le> t \<and> t \<le> 292 \<and> 10 dvd (t - 2))"
| "upload_pc_ok _ = True"

definition core_inv :: "('f, 'g) core_sys \<Rightarrow> bool" where
  "core_inv x \<longleftrightarrow> csy_pending x = log_freeze_scheduled (csy_state x) \<and>
     (csy_pending x \<longrightarrow> network_ever_connected (csy_state x)) \<and>
     (wifi_connected (csy_state x) \<longrightarrow> network_ever_connected (csy_state x)) \<and>
     upload_pc_ok (csy_pc x)"

lemma dvd10_below: "10 dvd (t - 2 :: int) \<Longrightarrow> t < 300 \<Longrightarrow> t \<le> 292"
  by presburger

lemmas core_listener_defs = memfault_wifi_listener_def memfault_network_listener_def
  core_schedule_freeze_def

lemma core_handle_inv: "core_inv x \<Longrightarrow> core_inv (fst (core_handle cfg fal fac i x))"
proof (cases i)
  case (Core_in_thread env)
  assume "core_inv x"
  then show ?thesis using Core_in_thread
    by (cases "csy_pc x") (auto simp: core_handle_def core_inv_def split_beta Let_def DNS_TIMEOUT_SEC_def
        CORE_DNS_CHECK_INTERVAL_SEC_def dvd10_below dvd_diff_commute algebra_simps)
next
  case (Core_in_work env)
  assume "core_inv x"
  then show ?thesis using Core_in_work
    by (auto simp: core_handle_def core_inv_def log_freeze_work_fn_def split_beta Let_def)
qed (auto simp: core_handle_def core_inv_def core_listener_defs split_beta Let_def split: wifi_msg_type.splits)

fun is_schedule :: "core_call \<Rightarrow> bool" where
  "is_schedule (Core_work_schedule d) = True"
| "is_schedule _ = False"

text \<open>The messages that report a loss.\<close>

fun is_loss :: "core_input \<Rightarrow> bool" where
  "is_loss (Core_in_wifi m) = (m = WIFI_STA_DISCONNECTED)"
| "is_loss (Core_in_network msg) = (nm_type msg = NETWORK_NOT_READY)"
| "is_loss _ = False"

lemma core_loss_step:
  assumes "core_inv x" "is_loss i"
  shows "length (filter is_schedule (snd (core_handle cfg fal fac i x))) =
      (if network_ever_connected (csy_state x) \<and> \<not> csy_pending x then 1 else 0) \<and>
    csy_pending (fst (core_handle cfg fal fac i x)) = network_ever_connected (csy_state x) \<and>
    network_ever_connected (csy_state (fst (core_handle cfg fal fac i x))) = network_ever_connected (csy_state x)"
  using assms by (cases i) (auto simp: core_handle_def core_inv_def core_listener_defs split_beta Let_def)

lemma core_loss_run:
  assumes "core_inv x" "list_all is_loss ls" "ls \<noteq> []"
  shows "length (filter is_schedule (snd (run_machine (core_handle cfg fal fac) ls x))) =
      (if network_ever_connected (csy_state x) \<and> \<not> csy_pending x then 1 else 0) \<and>
    csy_pending (fst (run_machine (core_handle cfg fal fac) ls x)) = network_ever_connected (csy_state x)"
  using assms
proof (induction ls arbitrary: x)
  case (Cons l ls)
  let ?y = "fst (core_handle cfg fal fac l x)"
  have st: "length (filter is_schedule (snd (core_handle cfg fal fac l x))) =
      (if network_ever_connected (csy_state x) \<and> \<not> csy_pending x then 1 else 0)"
    "csy_pending ?y = network_ever_connected (csy_state x)"
    "network_ever_connected (csy_state ?y) = network_ever_connected (csy_state x)"
    using core_loss_step [OF Cons.prems(1)] Cons.prems(2) by auto
  show ?case
  proof (cases "ls = []")
    case True
    then show ?thesis using st by simp
  next
    case False
    then show ?thesis
      using Cons.IH [OF core_handle_inv [OF Cons.prems(1)] _ False] Cons.prems(2) st by simp
  qed
qed simp

text \<open>Before the first connect nothing is scheduled and no partition is touched.\<close>

lemma core_never_connected_step:
  assumes "core_inv x" "\<not> network_ever_connected (csy_state x)" "i \<noteq> Core_in_wifi WIFI_STA_CONNECTED"
    "\<not> (csy_pc x = UP_after_dns \<and> wifi_connected (csy_state x))"
  shows "\<not> network_ever_connected (csy_state (fst (core_handle cfg fal fac i x))) \<and>
    csy_world (fst (core_handle cfg fal fac i x)) = csy_world x \<and>
    filter is_schedule (snd (core_handle cfg fal fac i x)) = []"
proof (cases i)
  case (Core_in_thread env)
  have "filter is_schedule (snd (core_check_dns_ready cfg env)) = []" by (simp add: core_check_dns_ready_def)
  then show ?thesis using Core_in_thread assms
    by (cases "csy_pc x") (auto simp: core_handle_def split_beta Let_def)
next
  case (Core_in_wifi m)
  then show ?thesis using assms
    by (cases m) (auto simp: core_handle_def core_inv_def core_listener_defs)
qed (use assms in \<open>auto simp: core_handle_def core_inv_def core_listener_defs memfault_button_listener_def Let_def\<close>)

lemma core_never_connected_run:
  assumes "core_inv x" "\<not> network_ever_connected (csy_state x)"
    "Core_in_wifi WIFI_STA_CONNECTED \<notin> set is"
  shows "csy_world (fst (run_machine (core_handle cfg fal fac) is x)) = csy_world x \<and>
    filter is_schedule (snd (run_machine (core_handle cfg fal fac) is x)) = []"
  using assms
proof (induction "is" arbitrary: x)
  case (Cons i js)
  have nw: "\<not> wifi_connected (csy_state x)" using Cons.prems by (auto simp: core_inv_def)
  have st: "\<not> network_ever_connected (csy_state (fst (core_handle cfg fal fac i x)))"
    "csy_world (fst (core_handle cfg fal fac i x)) = csy_world x"
    "filter is_schedule (snd (core_handle cfg fal fac i x)) = []"
    using core_never_connected_step [OF Cons.prems(1,2), of i cfg fal fac] Cons.prems(3) nw by auto
  then show ?case using Cons.IH [OF core_handle_inv [OF Cons.prems(1)] st(1)] Cons.prems(3) by simp
qed simp

subsection \<open>Properties\<close>

text \<open>
  C16: the loss of connectivity is handled once. In every state the firmware can reach, the
  \<^verbatim>\<open>log_freeze_scheduled\<close> guard says exactly whether the persist work is pending, and any burst of
  disconnect and network-not-ready messages schedules the work once when the device has been
  connected before and none is pending, never otherwise; before the first connect the burst of the
  boot schedules nothing and writes no partition.
\<close>

theorem core_persist_once_per_loss:
  assumes "run_machine (core_handle cfg fal fac) is (core_initial w) = (x, cs)"
    and "list_all is_loss ls" and "ls \<noteq> []"
    and "run_machine (core_handle cfg fal fac) ls x = (y, ds)"
  shows "log_freeze_scheduled (csy_state x) = csy_pending x \<and>
    length (filter is_schedule ds) =
      (if network_ever_connected (csy_state x) \<and> \<not> csy_pending x then 1 else 0) \<and>
    csy_pending y = network_ever_connected (csy_state x) \<and>
    (Core_in_wifi WIFI_STA_CONNECTED \<notin> set is \<longrightarrow> filter is_schedule cs = [] \<and> csy_world x = w)"
proof -
  have i: "core_inv (core_initial w)" by (simp add: core_inv_def core_initial_def core_boot_state_def)
  then have "core_inv (fst (run_machine (core_handle cfg fal fac) is (core_initial w)))"
    using run_machine_inv [where P = core_inv and f = "core_handle cfg fal fac"] core_handle_inv by blast
  then have x: "core_inv x" using assms(1) by simp
  have "Core_in_wifi WIFI_STA_CONNECTED \<notin> set is \<longrightarrow> filter is_schedule cs = [] \<and> csy_world x = w"
    using core_never_connected_run [OF i, of "is" cfg fal fac] assms(1)
    by (simp add: core_initial_def core_boot_state_def)
  then show ?thesis using core_loss_run [OF x assms(2,3), of cfg fal fac] assms(4) x
    by (simp add: core_inv_def)
qed

definition core_default_cfg :: core_cfg where
  "core_default_cfg = \<lparr>cc_log_state_restore = True, cc_cdr_state_restore = True,
     cc_post_coredump_on_connect = True, cc_ncs_stack_metrics = True, cc_posix_api = True\<rparr>"

definition core_sample_world :: "(byte list, byte list) core_world" where
  "core_sample_world = \<lparr>cw_log = \<lparr>ls_context = Some [1, 2], ls_storage = Some [3, 4, 5]\<rparr>,
     cw_cdr = cdr_boot_state, cw_log_flash = [], cw_cdr_flash = []\<rparr>"

theorem core_persist_once_per_loss_witness:
  "length (filter is_schedule (snd (run_machine (core_handle core_default_cfg (ram_flash 64) (ram_flash 2048))
     [Core_in_wifi WIFI_STA_DISCONNECTED,
      Core_in_network \<lparr>nm_type = NETWORK_NOT_READY, nm_ready = False\<rparr>, Core_in_wifi WIFI_STA_DISCONNECTED]
     (fst (run_machine (core_handle core_default_cfg (ram_flash 64) (ram_flash 2048))
        [Core_in_wifi WIFI_STA_CONNECTED] (core_initial core_sample_world)))))) = 1"
proof -
  let ?h = "core_handle core_default_cfg (ram_flash 64) (ram_flash 2048)"
  let ?ls = "[Core_in_wifi WIFI_STA_DISCONNECTED,
      Core_in_network \<lparr>nm_type = NETWORK_NOT_READY, nm_ready = False\<rparr>, Core_in_wifi WIFI_STA_DISCONNECTED]"
  obtain x cs where r: "run_machine ?h [Core_in_wifi WIFI_STA_CONNECTED] (core_initial core_sample_world) = (x, cs)"
    by (metis prod.collapse)
  obtain y ds where l: "run_machine ?h ?ls x = (y, ds)" by (metis prod.collapse)
  have x: "network_ever_connected (csy_state x)" "\<not> csy_pending x"
    using r by (auto simp: run_machine.simps(2) core_handle_def memfault_wifi_listener_def Let_def)
  show ?thesis using core_persist_once_per_loss [OF r _ _ l] x r l by simp
qed

text \<open>
  C5: what was in the log ring buffer and in the Wi-Fi firmware's statistics when the persist work
  ran after a loss is what the next connect uploads, across a power cycle: the live buffers and
  the recording may hold anything then. The log comes back byte for byte, its collection is
  triggered after the restore and before the heartbeat and the upload, the recording is offered
  in full to a reader of any chunk size; and the partitions are empty afterwards, so a second
  connect restores neither.
\<close>

theorem core_loss_to_upload:
  assumes "flash_ok imgl fal" and "flash_reliable fal" and "flash_ok imgc fac" and "flash_reliable fac"
    and "cc_log_state_restore cfg" and "cc_cdr_state_restore cfg"
    and "cw_log w = \<lparr>ls_context = Some c, ls_storage = Some s\<rparr>" and "log_fits (c0, s0) (c, s)"
    and "16 + length c + length s \<le> unat (fa_size fal)"
    and "cdr_inv (cw_cdr w)" and "cdr_inv t"
    and "rpu_ctx_present env" and "fmac_stats_success env" and "fmac_stats_fw env \<noteq> []"
    and "length (fmac_stats_fw env) < 2 ^ 32"
    and "16 + length (take 1024 (fmac_stats_fw env)) \<le> unat (fa_size fac)"
    and "log_freeze_work_fn cfg fal fac env st w = (st', w', cs')"
    and "w2 = w'\<lparr>cw_log := \<lparr>ls_context = Some c0, ls_storage = Some s0\<rparr>, cw_cdr := t\<rparr>"
    and "\<not> (cc_post_coredump_on_connect cfg \<and> ce_has_valid_coredump cenv)"
    and "on_connect cfg fal fac cenv w2 = (w3, cs)"
    and "0 < n" and "n < 2 ^ 32"
  shows "cw_log w3 = \<lparr>ls_context = Some c, ls_storage = Some s\<rparr> \<and>
    fst (has_cdr_cb (cw_cdr w3)) \<and> cdr_drain 1024 n 0 (cw_cdr w3) = take 1024 (fmac_stats_fw env) \<and>
    cs = [Core_log_call Memfault_log_data_source_reset, Core_log_call Log_restore_marker,
          Core_log_call Log_flush, Core_log_trigger_collection, Core_heartbeat_debug_trigger] @
         (if ce_data_available cenv then [Core_post_data] else []) \<and>
    fst (memfault_log_state_restore_on_connect fal
      \<lparr>ls_context = Some c0, ls_storage = Some s0\<rparr> (cw_log_flash w3)) \<noteq> 0 \<and>
    fst (mflt_nrf70_fw_stats_cdr_restore_from_flash fac (cw_cdr w3) (cw_cdr_flash w3)) \<noteq> 0"
proof -
  obtain fl where pl: "memfault_log_state_persist_now fal
      \<lparr>ls_context = Some c, ls_storage = Some s\<rparr> (cw_log_flash w) = (0, fl)"
    using log_persist_reliable [OF assms(2,9)] by (metis prod.collapse)
  obtain cdr1 cc fc where pc: "mflt_nrf70_fw_stats_cdr_persist_to_flash fac env (cw_cdr w) (cw_cdr_flash w) =
      (0, cdr1, cc, fc)"
    using cdr_persist_reliable [OF assms(4,10,12-16)] by (metis prod.collapse)
  have w': "w' = w\<lparr>cw_log_flash := fl, cw_cdr := cdr1, cw_cdr_flash := fc\<rparr>"
    using assms(17) pl pc assms(5-7) by (simp add: log_freeze_work_fn_def Let_def)
  obtain fl2 where rl: "memfault_log_state_restore_on_connect fal \<lparr>ls_context = Some c0, ls_storage = Some s0\<rparr> fl =
        (0, \<lparr>ls_context = Some c, ls_storage = Some s\<rparr>,
         [Memfault_log_data_source_reset, Log_restore_marker, Log_flush], fl2)"
    and rl2: "fst (memfault_log_state_restore_on_connect fal
      \<lparr>ls_context = Some c0, ls_storage = Some s0\<rparr> fl2) \<noteq> 0"
    using log_persist_then_restore [OF assms(1,2,8) pl] by blast
  obtain e t1 fc2 where rc: "mflt_nrf70_fw_stats_cdr_restore_from_flash fac t fc = (e, t1, fc2)"
    by (metis prod.collapse)
  note rt = cdr_persist_then_restore [OF assms(3,4,10,11,21,22,15) pc rc]
  have "cw_log w3 = \<lparr>ls_context = Some c, ls_storage = Some s\<rparr> \<and> cw_cdr w3 = t1 \<and>
      cw_log_flash w3 = fl2 \<and> cw_cdr_flash w3 = fc2 \<and>
      cs = [Core_log_call Memfault_log_data_source_reset, Core_log_call Log_restore_marker,
          Core_log_call Log_flush, Core_log_trigger_collection, Core_heartbeat_debug_trigger] @
         (if ce_data_available cenv then [Core_post_data] else [])"
    using assms(20) rl rc w' assms(5,6,18,19) by (auto simp: on_connect_def Let_def split: if_splits)
  then show ?thesis using rt rl2 by auto
qed

theorem core_loss_to_upload_witness:
  "\<exists>st' w' cs' w3 cs. log_freeze_work_fn core_default_cfg (ram_flash 64) (ram_flash 2048) cdr_sample_env
       core_boot_state core_sample_world = (st', w', cs') \<and>
     on_connect core_default_cfg (ram_flash 64) (ram_flash 2048)
       \<lparr>ce_has_valid_coredump = False, ce_data_available = True, ce_unsent_bytes = 0, ce_getaddrinfo = 0,
        ce_getaddrinfo_res = True, ce_img_confirmed = True\<rparr>
       (w'\<lparr>cw_log := \<lparr>ls_context = Some [0, 0], ls_storage = Some [0, 0, 0]\<rparr>, cw_cdr := cdr_boot_state\<rparr>) =
       (w3, cs) \<and>
     cw_log w3 = \<lparr>ls_context = Some [1, 2], ls_storage = Some [3, 4, 5]\<rparr> \<and>
     cdr_drain 1024 2 0 (cw_cdr w3) = [1, 2, 3]"
proof -
  let ?ce = "\<lparr>ce_has_valid_coredump = False, ce_data_available = True, ce_unsent_bytes = 0, ce_getaddrinfo = 0,
        ce_getaddrinfo_res = True, ce_img_confirmed = True\<rparr>"
  obtain st' w' cs' where p: "log_freeze_work_fn core_default_cfg (ram_flash 64) (ram_flash 2048) cdr_sample_env
       core_boot_state core_sample_world = (st', w', cs')" by (metis prod.collapse)
  let ?w = "w'\<lparr>cw_log := \<lparr>ls_context = Some [0, 0], ls_storage = Some [0, 0, 0]\<rparr>, cw_cdr := cdr_boot_state\<rparr>"
  obtain w3 cs where o: "on_connect core_default_cfg (ram_flash 64) (ram_flash 2048) ?ce ?w = (w3, cs)"
    by (metis prod.collapse)
  have cfg: "cc_log_state_restore core_default_cfg" "cc_cdr_state_restore core_default_cfg"
    by (simp_all add: core_default_cfg_def)
  have lg: "cw_log core_sample_world = \<lparr>ls_context = Some [1, 2], ls_storage = Some [3, 4, 5]\<rparr>"
    "log_fits ([0, 0], [0, 0, 0]) ([1, 2], [3, 4, 5])"
    "16 + length [1, 2 :: byte] + length [3, 4, 5 :: byte] \<le> unat (fa_size (ram_flash 64))"
    "cdr_inv (cw_cdr core_sample_world)"
    using cdr_boot_inv by (simp_all add: core_sample_world_def log_fits_def ram_flash_def)
  have en: "rpu_ctx_present cdr_sample_env" "fmac_stats_success cdr_sample_env"
    "fmac_stats_fw cdr_sample_env \<noteq> []" "length (fmac_stats_fw cdr_sample_env) < 2 ^ 32"
    "16 + length (take 1024 (fmac_stats_fw cdr_sample_env)) \<le> unat (fa_size (ram_flash 2048))"
    by (simp_all add: cdr_sample_env_def ram_flash_def)
  have no: "\<not> (cc_post_coredump_on_connect core_default_cfg \<and> ce_has_valid_coredump ?ce)" by simp
  have "take 1024 (fmac_stats_fw cdr_sample_env) = [1, 2, 3]" by (simp add: cdr_sample_env_def)
  then show ?thesis
    using p o core_loss_to_upload [OF ram_flash_ok ram_flash_reliable ram_flash_ok ram_flash_reliable
        cfg lg cdr_boot_inv en p refl no o, of 2] by simp
qed

end
