(* ===== verification/Ota_Triggers.thy ===== *)
theory Ota_Triggers
  imports Zbus_Messages
begin

text \<open>
  When the firmware asks Memfault for an update,
  \<^verbatim>\<open>src/src/modules/app_memfault/ota/app_memfault_ota_triggers.c\<close>.

  The semaphore belongs to the kernel: it is the record \<open>ksem\<close> of the operations the module calls,
  a parameter, and \<open>ksem_ok\<close> states what the kernel documents for a semaphore with limit 1.
  \<open>bool_sem\<close> is a concrete one. The thread is a machine over three program points, interleaved with
  the two listeners.
\<close>

subsection \<open>Kernel semaphores\<close>

record 'k ksem =
  k_sem_count_get :: "'k \<Rightarrow> nat"
  k_sem_give :: "'k \<Rightarrow> 'k"
  k_sem_take :: "'k \<Rightarrow> 'k"

text \<open>\<open>k_sem_take\<close> is the state after a take that returned 0, which needs a positive count.\<close>

definition ksem_ok :: "'k ksem \<Rightarrow> bool" where
  "ksem_ok ks \<longleftrightarrow> (\<forall>k. k_sem_count_get ks (k_sem_give ks k) = min 1 (k_sem_count_get ks k + 1)) \<and>
     (\<forall>k. 0 < k_sem_count_get ks k \<longrightarrow>
        k_sem_count_get ks (k_sem_take ks k) = k_sem_count_get ks k - 1) \<and>
     (\<forall>k. k_sem_count_get ks k \<le> 1)"

definition bool_sem :: "bool ksem" where
  "bool_sem = \<lparr>k_sem_count_get = of_bool, k_sem_give = (\<lambda>_. True), k_sem_take = (\<lambda>_. False)\<rparr>"

lemma bool_sem_ok: "ksem_ok bool_sem"
  by (auto simp: ksem_ok_def bool_sem_def)

subsection \<open>Data\<close>

record ota_cfg =
  oc_button :: bool
  oc_zephyr_fota :: bool
  oc_check_interval_min :: u32
  oc_connect_delay_sec :: u32

record 'k ota_state =
  mflt_ota_triggers_flags :: u32
  mflt_ota_triggers_sem :: 'k
  ota_warned :: bool

datatype ota_call = Ota_sleep_sec u32 | Ota_fota_start string | Ota_warn_disabled

definition MFLT_OTA_TRIGGERS_BUTTON_FLAG :: u32 where "MFLT_OTA_TRIGGERS_BUTTON_FLAG = 1"
definition MFLT_OTA_TRIGGERS_CONNECT_FLAG :: u32 where "MFLT_OTA_TRIGGERS_CONNECT_FLAG = 2"

subsection \<open>The check\<close>

definition consume_trigger_context :: "ota_cfg \<Rightarrow> 'k ota_state \<Rightarrow> string \<times> 'k ota_state" where
  "consume_trigger_context cfg s =
     (let flags = mflt_ota_triggers_flags s; s' = s\<lparr>mflt_ota_triggers_flags := 0\<rparr>;
          b = flags AND MFLT_OTA_TRIGGERS_BUTTON_FLAG \<noteq> 0;
          c = flags AND MFLT_OTA_TRIGGERS_CONNECT_FLAG \<noteq> 0
      in if flags = 0 then (''manual'', s')
         else if oc_button cfg \<and> b \<and> c then (''button+connect'', s')
         else if oc_button cfg \<and> b then (''button'', s')
         else if c then (''connect'', s')
         else (''manual'', s'))"

definition schedule_ota_check :: "ota_cfg \<Rightarrow> string \<Rightarrow> 'k ota_state \<Rightarrow> 'k ota_state \<times> ota_call list" where
  "schedule_ota_check cfg context s =
     (if oc_zephyr_fota cfg then (s, [Ota_fota_start context])
      else if \<not> ota_warned s then (s\<lparr>ota_warned := True\<rparr>, [Ota_warn_disabled])
      else (s, []))"

subsection \<open>The thread\<close>

datatype ota_pc = OT_take | OT_delay | OT_consume

text \<open>\<open>ret\<close> is what \<^verbatim>\<open>k_sem_take\<close> returned; it is read at \<open>OT_take\<close> only.\<close>

fun mflt_ota_triggers_thread ::
  "'k ksem \<Rightarrow> ota_cfg \<Rightarrow> int \<Rightarrow> ota_pc \<Rightarrow> 'k ota_state \<Rightarrow> ota_pc \<times> 'k ota_state \<times> ota_call list" where
  "mflt_ota_triggers_thread ks cfg ret OT_take s =
     (if ret = 0
      then let s1 = s\<lparr>mflt_ota_triggers_sem := k_sem_take ks (mflt_ota_triggers_sem s)\<rparr>;
               flags = mflt_ota_triggers_flags s1;
               connect_only = (flags AND MFLT_OTA_TRIGGERS_CONNECT_FLAG \<noteq> 0 \<and>
                 (if oc_button cfg then flags AND MFLT_OTA_TRIGGERS_BUTTON_FLAG = 0 else True))
           in if connect_only then (OT_delay, s1, [Ota_sleep_sec (oc_connect_delay_sec cfg)])
              else (OT_consume, s1, [])
      else if ret = - EAGAIN
      then let (s', cs) = schedule_ota_check cfg ''periodic'' s in (OT_take, s', cs)
      else (OT_take, s, []))"
| "mflt_ota_triggers_thread ks cfg ret OT_delay s = (OT_consume, s, [])"
| "mflt_ota_triggers_thread ks cfg ret OT_consume s =
     (let (context, s1) = consume_trigger_context cfg s;
          (s2, cs) = schedule_ota_check cfg context s1
      in (OT_take, s2, cs))"

subsection \<open>Triggers\<close>

definition ota_notify :: "'k ksem \<Rightarrow> u32 \<Rightarrow> 'k ota_state \<Rightarrow> 'k ota_state" where
  "ota_notify ks flag s =
     (let s1 = s\<lparr>mflt_ota_triggers_flags := mflt_ota_triggers_flags s OR flag\<rparr>
      in if k_sem_count_get ks (mflt_ota_triggers_sem s1) = 0
         then s1\<lparr>mflt_ota_triggers_sem := k_sem_give ks (mflt_ota_triggers_sem s1)\<rparr>
         else s1)"

definition mflt_ota_triggers_notify_button :: "'k ksem \<Rightarrow> 'k ota_state \<Rightarrow> 'k ota_state" where
  "mflt_ota_triggers_notify_button ks s = ota_notify ks MFLT_OTA_TRIGGERS_BUTTON_FLAG s"

definition mflt_ota_triggers_notify_connected :: "'k ksem \<Rightarrow> 'k ota_state \<Rightarrow> 'k ota_state" where
  "mflt_ota_triggers_notify_connected ks s = ota_notify ks MFLT_OTA_TRIGGERS_CONNECT_FLAG s"

definition ota_button_listener :: "'k ksem \<Rightarrow> button_msg \<Rightarrow> 'k ota_state \<Rightarrow> 'k ota_state" where
  "ota_button_listener ks msg s =
     (if bm_type msg \<noteq> BUTTON_SINGLE_CLICK \<or> bm_button_number msg \<noteq> 1 then s
      else mflt_ota_triggers_notify_button ks s)"

definition ota_wifi_listener :: "'k ksem \<Rightarrow> wifi_msg_type \<Rightarrow> 'k ota_state \<Rightarrow> 'k ota_state" where
  "ota_wifi_listener ks m s =
     (if m = WIFI_STA_CONNECTED then mflt_ota_triggers_notify_connected ks s else s)"

subsection \<open>Interleaving\<close>

datatype ota_input = Ota_thread int | Ota_button button_msg | Ota_wifi wifi_msg_type

text \<open>
  A take that returned 0 needs a positive count: the input \<open>Ota_thread 0\<close> at \<open>OT_take\<close> without one
  cannot happen and leaves everything as it is.
\<close>

definition ota_handle ::
  "'k ksem \<Rightarrow> ota_cfg \<Rightarrow> (ota_input, ota_pc \<times> 'k ota_state, ota_call) machine" where
  "ota_handle ks cfg i x =
     (case i of
        Ota_thread ret \<Rightarrow>
          if fst x = OT_take \<and> ret = 0 \<and> k_sem_count_get ks (mflt_ota_triggers_sem (snd x)) = 0
          then (x, [])
          else let (pc, s, cs) = mflt_ota_triggers_thread ks cfg ret (fst x) (snd x) in ((pc, s), cs)
      | Ota_button msg \<Rightarrow> ((fst x, ota_button_listener ks msg (snd x)), [])
      | Ota_wifi m \<Rightarrow> ((fst x, ota_wifi_listener ks m (snd x)), []))"

definition ota_boot :: "'k \<Rightarrow> ota_pc \<times> 'k ota_state" where
  "ota_boot sem0 = (OT_take, \<lparr>mflt_ota_triggers_flags = 0, mflt_ota_triggers_sem = sem0, ota_warned = False\<rparr>)"

subsection \<open>Triggers are neither lost nor multiplied\<close>

definition ota_pending :: "'k ksem \<Rightarrow> ota_pc \<times> 'k ota_state \<Rightarrow> nat" where
  "ota_pending ks x = k_sem_count_get ks (mflt_ota_triggers_sem (snd x)) + (if fst x = OT_take then 0 else 1)"

definition ota_inv :: "'k ksem \<Rightarrow> ota_pc \<times> 'k ota_state \<Rightarrow> bool" where
  "ota_inv ks x \<longleftrightarrow> (mflt_ota_triggers_flags (snd x) \<noteq> 0 \<longrightarrow> 0 < ota_pending ks x)"

fun ota_is_trigger :: "ota_input \<Rightarrow> bool" where
  "ota_is_trigger (Ota_thread ret) = False"
| "ota_is_trigger (Ota_button msg) = (bm_type msg = BUTTON_SINGLE_CLICK \<and> bm_button_number msg = 1)"
| "ota_is_trigger (Ota_wifi m) = (m = WIFI_STA_CONNECTED)"

fun ota_triggered_check :: "ota_call \<Rightarrow> bool" where
  "ota_triggered_check (Ota_fota_start context) = (context \<noteq> ''periodic'')"
| "ota_triggered_check _ = False"

lemma consume_not_periodic: "fst (consume_trigger_context cfg s) \<noteq> ''periodic''"
  by (auto simp: consume_trigger_context_def Let_def)

lemma ota_notify_count:
  assumes "ksem_ok ks"
  shows "k_sem_count_get ks (mflt_ota_triggers_sem (ota_notify ks flag s)) = 1"
proof -
  have "k_sem_count_get ks (mflt_ota_triggers_sem s) = 0 \<or> k_sem_count_get ks (mflt_ota_triggers_sem s) = 1"
    using assms by (metis ksem_ok_def le_less less_one)
  then show ?thesis using assms by (auto simp: ota_notify_def ksem_ok_def Let_def)
qed

lemma ota_handle_inv:
  assumes "ksem_ok ks" "ota_inv ks x"
  shows "ota_inv ks (fst (ota_handle ks cfg i x))"
proof (cases i)
  case (Ota_thread ret)
  then show ?thesis using assms
    by (cases x; cases "fst x") (auto simp: ota_handle_def ota_inv_def ota_pending_def Let_def
        consume_trigger_context_def schedule_ota_check_def)
next
  case (Ota_button msg)
  then show ?thesis using assms ota_notify_count [OF assms(1)]
    by (auto simp: ota_handle_def ota_inv_def ota_pending_def ota_button_listener_def
        mflt_ota_triggers_notify_button_def)
next
  case (Ota_wifi m)
  then show ?thesis using assms ota_notify_count [OF assms(1)]
    by (auto simp: ota_handle_def ota_inv_def ota_pending_def ota_wifi_listener_def
        mflt_ota_triggers_notify_connected_def)
qed

lemma ota_handle_bound:
  assumes "ksem_ok ks"
  shows "length (filter ota_triggered_check (snd (ota_handle ks cfg i x))) + ota_pending ks (fst (ota_handle ks cfg i x))
    \<le> ota_pending ks x + (if ota_is_trigger i then 1 else 0)"
proof (cases i)
  case (Ota_thread ret)
  show ?thesis
  proof (cases "fst x")
    case OT_take
    then show ?thesis using assms Ota_thread
      by (auto simp: ota_handle_def ota_pending_def Let_def schedule_ota_check_def ksem_ok_def)
  next
    case OT_consume
    then show ?thesis using Ota_thread
      by (auto simp: ota_handle_def ota_pending_def split_beta schedule_ota_check_def Let_def
          consume_trigger_context_def)
  qed (use Ota_thread in \<open>auto simp: ota_handle_def ota_pending_def\<close>)
next
  case (Ota_button msg)
  then show ?thesis using ota_notify_count [OF assms]
    by (auto simp: ota_handle_def ota_pending_def ota_button_listener_def
        mflt_ota_triggers_notify_button_def)
next
  case (Ota_wifi m)
  then show ?thesis using ota_notify_count [OF assms]
    by (auto simp: ota_handle_def ota_pending_def ota_wifi_listener_def
        mflt_ota_triggers_notify_connected_def)
qed

lemma ota_run_bound:
  assumes "ksem_ok ks"
  shows "length (filter ota_triggered_check (snd (run_machine (ota_handle ks cfg) is x))) +
      ota_pending ks (fst (run_machine (ota_handle ks cfg) is x))
    \<le> ota_pending ks x + length (filter ota_is_trigger is)"
proof (induction "is" arbitrary: x)
  case (Cons i js)
  show ?case
    using Cons.IH [of "fst (ota_handle ks cfg i x)"] ota_handle_bound [OF assms, of cfg i x]
    by (auto split: if_splits)
qed simp

subsection \<open>Properties\<close>

text \<open>
  C36: in every execution from boot, a trigger that was flagged and not yet served is going to be
  served: the semaphore is up or the thread is already past taking it. Triggers are coalesced and
  never multiplied: the checks started for triggers, plus those still owed, are at most as many
  as the triggers received (single clicks of button 1 and connected messages).
\<close>

theorem ota_no_trigger_lost:
  assumes "ksem_ok ks" and "k_sem_count_get ks sem0 = 0"
    and "run_machine (ota_handle ks cfg) is (ota_boot sem0) = ((pc, s), cs)"
  shows "(mflt_ota_triggers_flags s \<noteq> 0 \<longrightarrow>
      k_sem_count_get ks (mflt_ota_triggers_sem s) = 1 \<or> pc \<noteq> OT_take) \<and>
    length (filter ota_triggered_check cs) + ota_pending ks (pc, s) \<le> length (filter ota_is_trigger is)"
proof -
  have "ota_inv ks (ota_boot sem0)" by (simp add: ota_inv_def ota_boot_def)
  then have "ota_inv ks (fst (run_machine (ota_handle ks cfg) is (ota_boot sem0)))"
    using run_machine_inv [where P = "ota_inv ks" and f = "ota_handle ks cfg"] ota_handle_inv [OF assms(1)]
    by blast
  moreover have "k_sem_count_get ks (mflt_ota_triggers_sem s) \<le> 1" using assms(1) by (simp add: ksem_ok_def)
  moreover have "ota_pending ks (ota_boot sem0) = 0" using assms(2) by (simp add: ota_pending_def ota_boot_def)
  ultimately show ?thesis
    using assms(3) ota_run_bound [OF assms(1), of cfg "is" "ota_boot sem0"]
    by (auto simp: ota_inv_def ota_pending_def split: if_splits)
qed

definition ota_default_cfg :: ota_cfg where
  "ota_default_cfg = \<lparr>oc_button = True, oc_zephyr_fota = True, oc_check_interval_min = 60,
     oc_connect_delay_sec = 60\<rparr>"

text \<open>A connect, and a click of button 1 while the thread sleeps out the connect delay.\<close>

definition ota_click_in_delay :: "ota_input list" where
  "ota_click_in_delay = [Ota_wifi WIFI_STA_CONNECTED, Ota_thread 0,
     Ota_button \<lparr>bm_type = BUTTON_SINGLE_CLICK, bm_button_number = 1\<rparr>,
     Ota_thread 0, Ota_thread 0, Ota_thread 0, Ota_thread 0]"

theorem ota_no_trigger_lost_witness:
  "length (filter ota_triggered_check
     (snd (run_machine (ota_handle bool_sem ota_default_cfg) ota_click_in_delay (ota_boot False)))) \<le> 2"
proof -
  obtain pc s cs where r: "run_machine (ota_handle bool_sem ota_default_cfg) ota_click_in_delay
      (ota_boot False) = ((pc, s), cs)" by (metis prod.collapse)
  have z: "k_sem_count_get bool_sem False = 0" by (simp add: bool_sem_def)
  have "length (filter ota_is_trigger ota_click_in_delay) = 2" by (simp add: ota_click_in_delay_def)
  then show ?thesis using ota_no_trigger_lost [OF bool_sem_ok z r] r by simp
qed

text \<open>
  What a click of button 1 does. Taken by an idle thread it is checked at once, without the
  connect delay, also when a connect came with it; a click that arrives while the thread sleeps
  out the connect delay is served by that check and then causes a second one, labelled
  \<^verbatim>\<open>manual\<close>, although no trigger is left.
\<close>

theorem ota_button_click:
  "snd (run_machine (ota_handle bool_sem ota_default_cfg)
     [Ota_wifi WIFI_STA_CONNECTED, Ota_button \<lparr>bm_type = BUTTON_SINGLE_CLICK, bm_button_number = 1\<rparr>,
      Ota_thread 0, Ota_thread 0] (ota_boot False)) = [Ota_fota_start ''button+connect''] \<and>
   snd (run_machine (ota_handle bool_sem ota_default_cfg) ota_click_in_delay (ota_boot False)) =
     [Ota_sleep_sec 60, Ota_fota_start ''button+connect'', Ota_fota_start ''manual'']"
  by code_simp

end
