(* ===== verification/Thread_Progress.thy ===== *)
theory Thread_Progress
  imports Https_Client Mqtt_Client Memfault_Core Ota_Triggers
begin

text \<open>
  That the threads get somewhere. \<open>progress_machine\<close> is the contract: while a condition \<open>going\<close> holds,
  every \<open>tick\<close> (a transition of the thread with answers from outside that let it go on) either makes a
  call the thread is there for (\<open>goal\<close>) or lowers a rank, and \<open>quiet\<close> inputs (messages and callbacks that
  leave the condition alone) never raise it. \<open>recurring_machine\<close> adds that the condition survives and the
  rank is bounded, so that the goal is met again and again. The ranks below count the transitions left,
  name server wait included; the four threads of the application are instances.
\<close>

subsection \<open>The contract\<close>

locale progress_machine =
  fixes step :: "('i, 's, 'c) machine"
    and tick :: "'i \<Rightarrow> bool"
    and quiet :: "'i \<Rightarrow> bool"
    and going :: "'s \<Rightarrow> bool"
    and rank :: "'s \<Rightarrow> nat"
    and goal :: "'c \<Rightarrow> bool"
  assumes tick_progress: "going s \<Longrightarrow> tick i \<Longrightarrow>
      (\<exists>c \<in> set (snd (step i s)). goal c) \<or>
      going (fst (step i s)) \<and> rank (fst (step i s)) < rank s"
    and quiet_keeps: "going s \<Longrightarrow> quiet i \<Longrightarrow>
      going (fst (step i s)) \<and> rank (fst (step i s)) \<le> rank s"
begin

text \<open>The first tick that meets the goal, in a state in which the condition still holds.\<close>

lemma reaches_at:
  "going s \<Longrightarrow> list_all (\<lambda>i. tick i \<or> quiet i) is \<Longrightarrow> rank s < length (filter tick is) \<Longrightarrow>
   \<exists>pre i post. is = pre @ i # post \<and> tick i \<and> going (fst (run_machine step pre s)) \<and>
     (\<exists>c \<in> set (snd (step i (fst (run_machine step pre s)))). goal c)"
proof (induction "is" arbitrary: s)
  case (Cons i js)
  let ?t = "fst (step i s)"
  show ?case
  proof (cases "tick i \<and> (\<exists>c \<in> set (snd (step i s)). goal c)")
    case True
    then show ?thesis using Cons.prems(1) by (intro exI [of _ "[]"] exI [of _ i] exI [of _ js]) simp
  next
    case False
    have "going ?t \<and> rank ?t < length (filter tick js)"
    proof (cases "tick i")
      case True
      then show ?thesis using tick_progress [of s i] Cons.prems False by auto
    next
      case False
      then show ?thesis using quiet_keeps [of s i] Cons.prems by auto
    qed
    then obtain pre j post where "js = pre @ j # post" "tick j" "going (fst (run_machine step pre ?t))"
      "\<exists>c \<in> set (snd (step j (fst (run_machine step pre ?t)))). goal c"
      using Cons.IH [of ?t] Cons.prems(2) by auto
    then show ?thesis by (intro exI [of _ "i # pre"] exI [of _ j] exI [of _ post]) simp
  qed
qed simp

lemma reaches:
  assumes "going s" "list_all (\<lambda>i. tick i \<or> quiet i) is" "rank s < length (filter tick is)"
  shows "\<exists>c \<in> set (snd (run_machine step is s)). goal c"
  using reaches_at [OF assms] by (fastforce simp: snd_run_machine_append)

end

locale recurring_machine = progress_machine +
  fixes bound :: nat
  assumes tick_keeps: "going s \<Longrightarrow> tick i \<Longrightarrow> going (fst (step i s))"
    and rank_bound: "going s \<Longrightarrow> rank s \<le> bound"
begin

lemma ticks_bounded:
  "going s \<Longrightarrow> list_all (\<lambda>i. tick i \<or> quiet i) is \<Longrightarrow>
   length (filter tick is) \<le> rank s + Suc bound * length (filter goal (snd (run_machine step is s)))"
proof (induction "is" arbitrary: s)
  case (Cons i js)
  let ?t = "fst (step i s)"
  have t: "going ?t" using Cons.prems tick_keeps quiet_keeps by auto
  have IH: "length (filter tick js) \<le> rank ?t + Suc bound * length (filter goal (snd (run_machine step js ?t)))"
    using Cons.IH [OF t] Cons.prems(2) by simp
  show ?case
  proof (cases "tick i \<and> (\<exists>c \<in> set (snd (step i s)). goal c)")
    case True
    then have "1 \<le> length (filter goal (snd (step i s)))"
      by (metis One_nat_def Suc_leI filter_empty_conv length_greater_0_conv)
    then have "Suc bound \<le> Suc bound * length (filter goal (snd (step i s)))"
      using mult_le_mono2 [of 1 _ "Suc bound"] by fastforce
    then show ?thesis using IH True rank_bound [OF t] by (auto simp: algebra_simps)
  next
    case False
    then have "rank ?t + (if tick i then 1 else 0) \<le> rank s"
      using tick_progress [of s i] quiet_keeps [of s i] Cons.prems by (auto simp: Suc_le_eq)
    then show ?thesis using IH by (auto simp: algebra_simps split: if_splits)
  qed
qed simp

lemma recurs:
  assumes "going s" "list_all (\<lambda>i. tick i \<or> quiet i) is" "k * Suc bound \<le> length (filter tick is)"
  shows "k \<le> length (filter goal (snd (run_machine step is s)))"
proof -
  let ?g = "length (filter goal (snd (run_machine step is s)))"
  have "k * Suc bound \<le> rank s + Suc bound * ?g" using ticks_bounded [OF assms(1,2)] assms(3) by simp
  also have "\<dots> < Suc ?g * Suc bound" using rank_bound [OF assms(1)] by (simp add: algebra_simps)
  finally show ?thesis by (metis Suc_mult_less_cancel1 less_Suc_eq_le mult.commute)
qed

end

subsection \<open>The HTTPS client\<close>

definition https_live_env :: "https_cfg \<Rightarrow> https_env \<Rightarrow> bool" where
  "https_live_env cfg env \<longleftrightarrow> fst (cert_provision cfg env) = 0 \<and>
     send_ok (he_send env) \<and> recv_ok (he_recv env) \<and> getaddrinfo_ok (he_getaddrinfo env)"

fun https_tick :: "https_cfg \<Rightarrow> https_input \<Rightarrow> bool" where
  "https_tick cfg (Https_thread env) = https_live_env cfg env"
| "https_tick cfg (Https_wifi m) = False"

fun https_quiet :: "https_input \<Rightarrow> bool" where
  "https_quiet (Https_thread env) = False"
| "https_quiet (Https_wifi m) = (m \<noteq> WIFI_STA_DISCONNECTED)"

definition https_alive :: "https_cfg \<Rightarrow> https_system \<Rightarrow> bool" where
  "https_alive cfg x \<longleftrightarrow> length (HTTP_HEAD cfg) < 2 ^ 32 \<and> length (recv_buf (hs_state x)) = 2048 \<and>
     https_pc_ok (hs_pc x) (hs_cert x) \<and> https_client_running (hs_state x) \<and> hs_pc x \<noteq> HC_exit \<and> hs_pc x \<noteq> HC_hung"

definition dns_rounds :: "int \<Rightarrow> nat" where
  "dns_rounds t = nat ((302 - t) div 10)"

lemma dns_rounds_next:
  assumes "t \<le> 292"
  shows "dns_rounds t = Suc (dns_rounds (t + 10))"
proof -
  have "302 - t = (302 - (t + 10)) + 10" by simp
  then have "(302 - t) div 10 = (302 - (t + 10)) div 10 + 1" by (metis div_add_self2 zero_neq_numeral)
  then show ?thesis using assms by (simp add: dns_rounds_def Suc_nat_eq_nat_zadd1)
qed

lemma dns_rounds_bound: "0 \<le> t \<Longrightarrow> dns_rounds t \<le> 30"
  by (simp add: dns_rounds_def)

fun https_rank :: "https_pc \<Rightarrow> nat" where
  "https_rank HC_request = 0"
| "https_rank HC_request_while = 1"
| "https_rank HC_request_sleep = 2"
| "https_rank HC_after_delay = 2"
| "https_rank HC_initial_sleep = 3"
| "https_rank HC_after_dns = 4"
| "https_rank (HC_dns_while t) = 6 + 3 * dns_rounds t"
| "https_rank (HC_dns_check t) = 5 + 3 * dns_rounds t"
| "https_rank (HC_dns_sleep t) = 4 + 3 * dns_rounds t"
| "https_rank HC_provision = 97"
| "https_rank HC_after_sem = 98"
| "https_rank HC_sem_take = 99"
| "https_rank HC_while_running = 100"
| "https_rank HC_request_done = 101"
| "https_rank _ = 0"

lemma send_http_request_tests:
  assumes "ht_network_ready s" "send_http_request cfg env s = Some (s', cs)"
  shows "\<exists>c \<in> set cs. is_test c"
  using assms
proof (cases rule: send_http_request_cases)
  case (lookup_failed err res c2 cu)
  then show ?thesis using https_clean_up_result(3) [OF lookup_failed(3)] by auto
next
  case (transferred r c2 failed line fd buf c3 cu)
  then show ?thesis using https_clean_up_result(3) [OF transferred(3)] by auto
qed

lemma send_http_request_frame:
  assumes "send_http_request cfg env s = Some (s', cs)"
  shows "https_client_running s' = https_client_running s" "ht_network_ready s' = ht_network_ready s"
  using send_http_request_effects [OF assms] by blast+

lemma https_alive_wifi: "https_alive cfg x \<Longrightarrow> https_alive cfg (fst (https_handle cfg (Https_wifi m) x))"
  by (auto simp: https_alive_def https_handle_def https_listener_defs)

lemma https_alive_thread:
  assumes "https_alive cfg x" "https_live_env cfg env"
  shows "https_alive cfg (fst (https_handle cfg (Https_thread env) x))"
proof (cases "hs_pc x = HC_request \<and> ht_network_ready (hs_state x)")
  case True
  then obtain s' cs where r: "send_http_request cfg env (hs_state x) = Some (s', cs)" "length (recv_buf s') = 2048"
    using https_request_returns [of env "hs_state x" cfg] assms by (auto simp: https_alive_def https_live_env_def)
  then show ?thesis
    using True assms(1) by (simp add: https_handle_def https_alive_def send_http_request_frame [OF r(1)])
next
  case False
  have "hs_pc x = HC_request \<Longrightarrow> send_http_request cfg env (hs_state x) = Some (hs_state x, [])"
    using False by (simp add: send_http_request_def)
  then show ?thesis using assms False
    by (cases "hs_pc x") (auto simp: https_handle_def https_alive_def https_live_env_def https_record_failed_attempt_def
        https_dns_timeout_def HTTPS_DNS_CHECK_INTERVAL_SEC_def dvd10_bound Let_def split: prod.splits)
qed

lemma https_thread_keeps_ready:
  assumes "ht_network_ready (hs_state x)" "https_live_env cfg env"
  shows "ht_network_ready (hs_state (fst (https_handle cfg (Https_thread env) x)))"
  using assms
  by (cases "hs_pc x") (auto simp: send_http_request_frame https_handle_def https_live_env_def https_record_failed_attempt_def Let_def
      split: prod.splits option.splits)

lemma https_tick_rank:
  assumes "https_alive cfg x" "ht_network_ready (hs_state x)" "https_live_env cfg env"
  shows "(\<exists>c \<in> set (snd (https_handle cfg (Https_thread env) x)). is_test c) \<or>
    https_rank (hs_pc (fst (https_handle cfg (Https_thread env) x))) < https_rank (hs_pc x)"
proof (cases "hs_pc x")
  case HC_request
  then obtain s' cs where "send_http_request cfg env (hs_state x) = Some (s', cs)"
    using https_request_returns [of env "hs_state x" cfg] assms by (auto simp: https_alive_def https_live_env_def)
  then show ?thesis using HC_request send_http_request_tests [OF assms(2)] by (auto simp: https_handle_def)
next
  case (HC_dns_sleep t)
  then have "t \<le> 292" using assms(1) dvd10_bound [of t] by (simp add: https_alive_def)
  then show ?thesis using HC_dns_sleep dns_rounds_next [of t]
    by (simp add: https_handle_def HTTPS_DNS_CHECK_INTERVAL_SEC_def)
qed (use assms in \<open>auto simp: https_handle_def https_alive_def https_live_env_def https_record_failed_attempt_def
      dns_rounds_def Let_def split: prod.splits\<close>)

lemma https_rank_bound: "https_alive cfg x \<Longrightarrow> https_rank (hs_pc x) \<le> 101"
  using dns_rounds_bound by (cases "hs_pc x") (auto simp: https_alive_def dest!: dns_rounds_bound)

interpretation https_progress: recurring_machine "https_handle cfg" "https_tick cfg" https_quiet
  "\<lambda>x. https_alive cfg x \<and> ht_network_ready (hs_state x)" "\<lambda>x. https_rank (hs_pc x)" is_test 101 for cfg
proof (unfold_locales, goal_cases)
  case (1 s i)
  then show ?case using https_tick_rank [of cfg s] https_alive_thread [of cfg s] https_thread_keeps_ready [of s cfg]
    by (cases i) auto
next
  case (2 s i)
  then show ?case using https_alive_wifi [of cfg s]
    by (cases i) (auto simp: https_handle_def https_listener_defs)
next
  case (3 s i)
  then show ?case using https_alive_thread [of cfg s] https_thread_keeps_ready [of s cfg] by (cases i) auto
next
  case (4 s)
  then show ?case using https_rank_bound by blast
qed

subsection \<open>The MQTT client\<close>

text \<open>Transitions of the thread while the library accepts what it is asked, callbacks that keep the session.\<close>

fun mqtt_tick :: "mqtt_input \<Rightarrow> bool" where
  "mqtt_tick (Mqtt_thread env) = (env_helper_connect env = 0)"
| "mqtt_tick _ = False"

fun mqtt_quiet :: "mqtt_input \<Rightarrow> bool" where
  "mqtt_quiet (Mqtt_connack rc sp) = (rc = 0)"
| "mqtt_quiet (Mqtt_publish topic payload) = True"
| "mqtt_quiet (Mqtt_suback mid r) = True"
| "mqtt_quiet (Mqtt_wifi m) = (m \<noteq> WIFI_STA_DISCONNECTED)"
| "mqtt_quiet _ = False"

definition mqtt_session :: "mqtt_cfg \<Rightarrow> mqtt_system \<Rightarrow> bool" where
  "mqtt_session cfg x \<longleftrightarrow> mqtt_inv cfg x \<and> mq_network_ready (ms_state x) \<and>
     current_state (ms_state x) = APP_MQTT_STATE_CONNECTED \<and>
     ms_pc x \<noteq> PC_helper_init \<and> ms_pc x \<noteq> PC_exit \<and> ms_pc x \<noteq> PC_undefined"

fun is_publish :: "mqtt_call \<Rightarrow> bool" where
  "is_publish (Mqtt_helper_publish qos payload topic) = True"
| "is_publish _ = False"

fun mqtt_rank :: "mqtt_pc \<Rightarrow> nat" where
  "mqtt_rank PC_publish_while = 0"
| "mqtt_rank PC_publish_sleep = 1"
| "mqtt_rank PC_helper_publish = 2"
| "mqtt_rank (PC_connect_while r) = 1"
| "mqtt_rank (PC_connect_sleep r) = 2"
| "mqtt_rank (PC_helper_connect r) = 3"
| "mqtt_rank PC_operation_while = 2"
| "mqtt_rank PC_drop_sleep = 3"
| "mqtt_rank PC_after_publish = 3"
| "mqtt_rank PC_after_delay = 3"
| "mqtt_rank PC_initial_sleep = 4"
| "mqtt_rank PC_after_dns = 5"
| "mqtt_rank (PC_dns_while t) = 7 + 3 * dns_rounds t"
| "mqtt_rank (PC_getaddrinfo t) = 6 + 3 * dns_rounds t"
| "mqtt_rank (PC_dns_sleep t) = 5 + 3 * dns_rounds t"
| "mqtt_rank PC_settle_sleep = 98"
| "mqtt_rank PC_after_sem = 99"
| "mqtt_rank PC_sem_take = 100"
| "mqtt_rank PC_while_running = 101"
| "mqtt_rank PC_operation_done = 102"
| "mqtt_rank _ = 0"

lemma mqtt_session_thread:
  assumes "mqtt_session cfg x" "env_helper_connect env = 0"
  shows "mqtt_session cfg (fst (mqtt_handle cfg (Mqtt_thread env) x)) \<and>
    ((\<exists>c \<in> set (snd (mqtt_handle cfg (Mqtt_thread env) x)). is_publish c) \<or>
     mqtt_rank (ms_pc (fst (mqtt_handle cfg (Mqtt_thread env) x))) < mqtt_rank (ms_pc x))"
proof -
  have i: "mqtt_inv cfg (fst (mqtt_handle cfg (Mqtt_thread env) x))"
    using assms(1) by (simp add: mqtt_session_def mqtt_handle_inv)
  have "mqtt_pc_ok (ms_pc x)" "mqtt_client_running (ms_state x)" using assms(1) by (simp_all add: mqtt_session_def mqtt_inv_def)
  then show ?thesis using assms i
  proof (cases "ms_pc x")
    case (PC_dns_sleep t)
    then have "t < 300" "t mod 10 = 2" using assms(1) by (simp_all add: mqtt_session_def mqtt_inv_def)
    then have "t \<le> 292" by presburger
    then show ?thesis using assms(1) i PC_dns_sleep dns_rounds_next [of t]
      by (simp add: mqtt_session_def mqtt_handle_def DNS_CHECK_INTERVAL_SEC_def)
  qed (auto simp: mqtt_session_def mqtt_handle_def mqtt_publish_begin_ok mqtt_do_connect_end_def mqtt_connect_result_def
      mqtt_record_failed_attempt_def mqtt_publish_end_def dns_rounds_def Let_def)
qed

lemma mqtt_session_quiet:
  assumes "mqtt_session cfg x" "mqtt_quiet i"
  shows "mqtt_session cfg (fst (mqtt_handle cfg i x)) \<and> ms_pc (fst (mqtt_handle cfg i x)) = ms_pc x"
proof -
  have "mqtt_inv cfg (fst (mqtt_handle cfg i x))" using assms(1) by (simp add: mqtt_session_def mqtt_handle_inv)
  then show ?thesis using assms
    by (cases i) (auto simp: mqtt_session_def mqtt_handle_def mqtt_callback_defs Let_def)
qed

lemma mqtt_rank_bound: "mqtt_session cfg x \<Longrightarrow> mqtt_rank (ms_pc x) \<le> 102"
  by (cases "ms_pc x") (auto simp: mqtt_session_def mqtt_inv_def dns_rounds_def)

interpretation mqtt_progress: recurring_machine "mqtt_handle cfg" mqtt_tick mqtt_quiet
  "mqtt_session cfg" "\<lambda>x. mqtt_rank (ms_pc x)" is_publish 102 for cfg
proof (unfold_locales, goal_cases)
  case (1 s i)
  then show ?case using mqtt_session_thread [of cfg s] by (cases i) auto
next
  case (2 s i)
  then show ?case using mqtt_session_quiet [of cfg s i] by simp
next
  case (3 s i)
  then show ?case using mqtt_session_thread [of cfg s] by (cases i) auto
next
  case (4 s)
  then show ?case by (rule mqtt_rank_bound)
qed

subsection \<open>The upload thread\<close>

fun upload_tick :: "core_cfg \<Rightarrow> core_input \<Rightarrow> bool" where
  "upload_tick cfg (Core_in_thread env) = (\<not> (cc_post_coredump_on_connect cfg \<and> ce_has_valid_coredump env))"
| "upload_tick cfg _ = False"

fun upload_quiet :: "core_input \<Rightarrow> bool" where
  "upload_quiet (Core_in_thread env) = False"
| "upload_quiet (Core_in_wifi m) = (m \<noteq> WIFI_STA_DISCONNECTED)"
| "upload_quiet _ = True"

fun upload_rank :: "upload_pc \<Rightarrow> nat" where
  "upload_rank UP_after_dns = 0"
| "upload_rank (UP_dns_while t) = 2 + 3 * dns_rounds t"
| "upload_rank (UP_dns_check t) = 1 + 3 * dns_rounds t"
| "upload_rank (UP_dns_sleep t) = 3 * dns_rounds t"
| "upload_rank UP_settle = 93"
| "upload_rank UP_take = 94"

definition core_online :: "('f, 'g) core_sys \<Rightarrow> bool" where
  "core_online x \<longleftrightarrow> core_inv x \<and> wifi_connected (csy_state x)"

lemma on_connect_heartbeat:
  "\<not> (cc_post_coredump_on_connect cfg \<and> ce_has_valid_coredump env) \<Longrightarrow>
   Core_heartbeat_debug_trigger \<in> set (snd (on_connect cfg fal fac env w))"
  by (simp add: on_connect_def Let_def split_beta)

lemma core_online_thread:
  assumes "core_online x" "upload_tick cfg (Core_in_thread env)"
  shows "core_online (fst (core_handle cfg fal fac (Core_in_thread env) x)) \<and>
    (Core_heartbeat_debug_trigger \<in> set (snd (core_handle cfg fal fac (Core_in_thread env) x)) \<or>
     upload_rank (csy_pc (fst (core_handle cfg fal fac (Core_in_thread env) x))) < upload_rank (csy_pc x))"
proof -
  let ?y = "fst (core_handle cfg fal fac (Core_in_thread env) x)"
  have "core_inv ?y" using assms(1) by (simp add: core_online_def core_handle_inv)
  moreover have "csy_state ?y = csy_state x" by (simp add: core_handle_def split_beta Let_def)
  ultimately have on: "core_online ?y" using assms(1) by (simp add: core_online_def)
  have w: "wifi_connected (csy_state x)" using assms(1) by (simp add: core_online_def)
  have "Core_heartbeat_debug_trigger \<in> set (snd (core_handle cfg fal fac (Core_in_thread env) x)) \<or>
      upload_rank (csy_pc ?y) < upload_rank (csy_pc x)"
  proof (cases "csy_pc x")
    case (UP_dns_sleep t)
    then have "t \<le> 292" using assms(1) by (simp add: core_online_def core_inv_def)
    then show ?thesis using UP_dns_sleep dns_rounds_next [of t]
      by (simp add: core_handle_def CORE_DNS_CHECK_INTERVAL_SEC_def)
  next
    case UP_after_dns
    then show ?thesis using w assms(2) on_connect_heartbeat [of cfg env fal fac "csy_world x"]
      by (simp add: core_handle_def split_beta Let_def)
  qed (use w in \<open>auto simp: core_handle_def dns_rounds_def split_beta Let_def\<close>)
  then show ?thesis using on by blast
qed

lemma core_online_quiet:
  assumes "core_online x" "upload_quiet i"
  shows "core_online (fst (core_handle cfg fal fac i x)) \<and> csy_pc (fst (core_handle cfg fal fac i x)) = csy_pc x"
proof -
  have "core_inv (fst (core_handle cfg fal fac i x))" using assms(1) by (simp add: core_online_def core_handle_inv)
  then show ?thesis using assms
    by (cases i) (auto simp: core_online_def core_handle_def core_listener_defs log_freeze_work_fn_def split_beta Let_def
        split: wifi_msg_type.splits)
qed

interpretation upload_progress: recurring_machine "core_handle cfg fal fac" "upload_tick cfg" upload_quiet
  core_online "\<lambda>x. upload_rank (csy_pc x)" "\<lambda>c. c = Core_heartbeat_debug_trigger" 94 for cfg fal fac
proof (unfold_locales, goal_cases)
  case (1 s i)
  then show ?case using core_online_thread [of s cfg _ fal fac] by (cases i) auto
next
  case (2 s i)
  then show ?case using core_online_quiet [of s i cfg fal fac] by simp
next
  case (3 s i)
  then show ?case using core_online_thread [of s cfg _ fal fac] by (cases i) auto
next
  case (4 s)
  then show ?case by (cases "csy_pc s") (auto simp: core_online_def core_inv_def dns_rounds_def)
qed

subsection \<open>The OTA thread\<close>

fun ota_tick :: "ota_input \<Rightarrow> bool" where
  "ota_tick (Ota_thread ret) = (ret = 0)"
| "ota_tick _ = False"

fun ota_quiet :: "ota_input \<Rightarrow> bool" where
  "ota_quiet (Ota_thread ret) = False"
| "ota_quiet _ = True"

fun ota_rank :: "ota_pc \<Rightarrow> nat" where
  "ota_rank OT_take = 2"
| "ota_rank OT_delay = 1"
| "ota_rank OT_consume = 0"

fun is_fota_start :: "ota_call \<Rightarrow> bool" where
  "is_fota_start (Ota_fota_start context) = True"
| "is_fota_start _ = False"

fun_cases is_fota_startE [elim!]: "is_fota_start c"

definition ota_owed :: "'k ksem \<Rightarrow> ota_cfg \<Rightarrow> ota_pc \<times> 'k ota_state \<Rightarrow> bool" where
  "ota_owed ks cfg x \<longleftrightarrow> ksem_ok ks \<and> oc_zephyr_fota cfg \<and> 0 < ota_pending ks x"

interpretation ota_progress: progress_machine "ota_handle ks cfg" ota_tick ota_quiet
  "ota_owed ks cfg" "\<lambda>x. ota_rank (fst x)" is_fota_start for ks cfg
proof (unfold_locales, goal_cases)
  case (1 s i)
  then obtain pc t where s: "s = (pc, t)" and i: "i = Ota_thread 0" by (cases s; cases i) auto
  show ?case using 1 s i
    by (cases pc) (auto simp: ota_owed_def ota_handle_def ota_pending_def schedule_ota_check_def split_beta Let_def)
next
  case (2 s i)
  then have "ota_handle ks cfg i s = ((fst s, snd (fst (ota_handle ks cfg i s))), [])"
    by (cases i) (simp_all add: ota_handle_def)
  then show ?case using 2 ota_notify_count [of ks]
    by (cases i) (auto simp: ota_owed_def ota_handle_def ota_pending_def ota_button_listener_def ota_wifi_listener_def
        mflt_ota_triggers_notify_button_def mflt_ota_triggers_notify_connected_def split: if_splits)
qed

subsection \<open>Properties\<close>

lemma https_alive_run:
  "https_alive cfg x \<Longrightarrow> list_all (\<lambda>i. https_tick cfg i \<or> (\<exists>m. i = Https_wifi m)) is \<Longrightarrow>
   https_alive cfg (fst (run_machine (https_handle cfg) is x))"
proof (induction "is" arbitrary: x)
  case (Cons i js)
  have "https_alive cfg (fst (https_handle cfg i x))"
    using Cons.prems https_alive_wifi [of cfg x] https_alive_thread [of cfg x] by (cases i) auto
  then show ?case using Cons by simp
qed simp

text \<open>
  C26: the HTTPS client never stops testing while the link is up. After any history of messages and
  thread transitions with a network that makes progress and certificates that can be provisioned, once
  the link is up and as long as it is not reported down, every 102 transitions of the thread log at
  least one verdict, whatever the lookups, connects and exchanges return.
\<close>

theorem https_keeps_testing:
  assumes "length (HTTP_HEAD cfg) < 2 ^ 32"
    and "list_all (\<lambda>i. https_tick cfg i \<or> (\<exists>m. i = Https_wifi m)) pre"
    and "run_machine (https_handle cfg) pre https_initial = (x, cs)" and "ht_network_ready (hs_state x)"
    and "list_all (\<lambda>i. https_tick cfg i \<or> https_quiet i) is" and "k * 102 \<le> length (filter (https_tick cfg) is)"
  shows "k \<le> length (filter is_test (snd (run_machine (https_handle cfg) is x)))"
proof -
  have "https_alive cfg https_initial" using assms(1)
    by (simp add: https_alive_def https_initial_def app_https_client_init_def https_boot_state_def)
  then have "https_alive cfg x" using https_alive_run [of cfg https_initial pre] assms(2,3) by simp
  then show ?thesis using https_progress.recurs [of cfg x "is" k] assms(4-6) by simp
qed

theorem https_keeps_testing_witness:
  "1 \<le> length (filter is_test (snd (run_machine (https_handle https_default_cfg)
     (replicate 102 (Https_thread (https_server_env ''HTTP/1.1 200 OK'')))
     (fst (run_machine (https_handle https_default_cfg) [Https_wifi WIFI_STA_CONNECTED] https_initial)))))"
proof -
  obtain x cs where r: "run_machine (https_handle https_default_cfg) [Https_wifi WIFI_STA_CONNECTED] https_initial = (x, cs)"
    by (metis prod.collapse)
  have up: "ht_network_ready (hs_state x)" using r
    by (auto simp: run_machine.simps(2) https_handle_def https_listener_defs https_initial_def app_https_client_init_def
        https_boot_state_def)
  have "https_live_env https_default_cfg (https_server_env ''HTTP/1.1 200 OK'')"
    unfolding https_live_env_def using https_server_env_ok
    by (intro conjI) (simp add: cert_provision_def https_default_cfg_def https_server_env_def, blast+)
  then show ?thesis
    using https_keeps_testing [OF https_sample_ok(2) _ r up, of "replicate 102 (Https_thread (https_server_env ''HTTP/1.1 200 OK''))" 1] r
    by (simp add: list_all_iff)
qed

text \<open>
  C27: an established MQTT session is used. In any reachable state with the link up and the session
  established, as long as neither is reported lost and the library accepts the calls, every 103
  transitions of the thread hand at least one message to the library, whatever echoes and
  acknowledgements come in between.
\<close>

theorem mqtt_session_publishes:
  assumes "mqtt_reachable cfg x" and "mq_network_ready (ms_state x)"
    and "current_state (ms_state x) = APP_MQTT_STATE_CONNECTED"
    and "ms_pc x \<noteq> PC_helper_init" and "ms_pc x \<noteq> PC_exit" and "ms_pc x \<noteq> PC_undefined"
    and "list_all (\<lambda>i. mqtt_tick i \<or> mqtt_quiet i) is" and "k * 103 \<le> length (filter mqtt_tick is)"
  shows "k \<le> length (filter is_publish (snd (run_machine (mqtt_handle cfg) is x)))"
proof -
  have "mqtt_inv cfg x" using assms(1)
    by (induction rule: mqtt_reachable.induct) (auto simp: mqtt_initial_inv, metis fst_conv mqtt_handle_inv)
  then have "mqtt_session cfg x" using assms(2-6) by (simp add: mqtt_session_def)
  then show ?thesis using mqtt_progress.recurs [of cfg x "is" k] assms(7,8) by simp
qed

text \<open>A client whose library answered the connect while the thread was still starting up.\<close>

theorem mqtt_session_publishes_witness:
  "1 \<le> length (filter is_publish (snd (run_machine (mqtt_handle prj_mqtt_cfg)
     (replicate 103 (Mqtt_thread mqtt_env_ok))
     (fst (run_machine (mqtt_handle prj_mqtt_cfg)
        [Mqtt_thread mqtt_env_ok, Mqtt_wifi WIFI_STA_CONNECTED, Mqtt_connack 0 False] (mqtt_initial prj_mqtt_cfg))))))"
proof -
  let ?h = "mqtt_handle prj_mqtt_cfg" and ?x0 = "mqtt_initial prj_mqtt_cfg"
  let ?x1 = "fst (?h (Mqtt_thread mqtt_env_ok) ?x0)"
  let ?x2 = "fst (?h (Mqtt_wifi WIFI_STA_CONNECTED) ?x1)"
  let ?x3 = "fst (?h (Mqtt_connack 0 False) ?x2)"
  have r: "mqtt_reachable prj_mqtt_cfg ?x3"
    by (rule mqtt_reach_step [OF mqtt_reach_step [OF mqtt_reach_step [OF mqtt_reach_init]]]; rule mqtt_stepI, rule prod.collapse [symmetric])
  have "ms_pc ?x3 = PC_while_running" "mq_network_ready (ms_state ?x3)" "current_state (ms_state ?x3) = APP_MQTT_STATE_CONNECTED"
    by (simp_all add: mqtt_handle_def mqtt_initial_def mqtt_env_ok_def app_mqtt_client_init_def mqtt_boot_state_def
        mqtt_callback_defs)
  moreover have "mqtt_tick (Mqtt_thread mqtt_env_ok)" by (simp add: mqtt_env_ok_def)
  ultimately show ?thesis
    using mqtt_session_publishes [OF r, of "replicate 103 (Mqtt_thread mqtt_env_ok)" 1]
    by (simp add: list_all_iff del: mqtt_tick.simps)
qed

text \<open>
  A connection is used for an upload. From any state the core can reach with the Wi-Fi up, as long
  as it is not reported down and no crash dump takes precedence, every 95 transitions of the upload
  thread collect at least one heartbeat for upload, whether or not the name server ever answers, and
  whatever buttons, network messages and delayed persists run in between.
\<close>

theorem core_connection_uploads:
  assumes "run_machine (core_handle cfg fal fac) pre (core_initial w) = (x, cs)" and "wifi_connected (csy_state x)"
    and "list_all (\<lambda>i. upload_tick cfg i \<or> upload_quiet i) is" and "k * 95 \<le> length (filter (upload_tick cfg) is)"
  shows "k \<le> length (filter (\<lambda>c. c = Core_heartbeat_debug_trigger) (snd (run_machine (core_handle cfg fal fac) is x)))"
proof -
  have "core_inv (core_initial w)" by (simp add: core_inv_def core_initial_def core_boot_state_def)
  then have "core_inv (fst (run_machine (core_handle cfg fal fac) pre (core_initial w)))"
    using run_machine_inv [where P = core_inv and f = "core_handle cfg fal fac"] core_handle_inv by blast
  then have "core_online x" using assms(1,2) by (simp add: core_online_def)
  then show ?thesis using upload_progress.recurs [of x cfg "is" k fal fac] assms(3,4) by simp
qed

theorem core_connection_uploads_witness:
  "1 \<le> length (filter (\<lambda>c. c = Core_heartbeat_debug_trigger)
     (snd (run_machine (core_handle core_default_cfg (ram_flash 64) (ram_flash 2048))
        (replicate 95 (Core_in_thread \<lparr>ce_has_valid_coredump = False, ce_data_available = True, ce_unsent_bytes = 0,
           ce_getaddrinfo = - 2, ce_getaddrinfo_res = False, ce_img_confirmed = True\<rparr>))
        (fst (run_machine (core_handle core_default_cfg (ram_flash 64) (ram_flash 2048))
           [Core_in_wifi WIFI_STA_CONNECTED] (core_initial core_sample_world))))))"
proof -
  let ?h = "core_handle core_default_cfg (ram_flash 64) (ram_flash 2048)"
  let ?e = "\<lparr>ce_has_valid_coredump = False, ce_data_available = True, ce_unsent_bytes = 0,
           ce_getaddrinfo = - 2, ce_getaddrinfo_res = False, ce_img_confirmed = True\<rparr>"
  obtain x cs where r: "run_machine ?h [Core_in_wifi WIFI_STA_CONNECTED] (core_initial core_sample_world) = (x, cs)"
    by (metis prod.collapse)
  have "wifi_connected (csy_state x)"
    using r by (auto simp: run_machine.simps(2) core_handle_def memfault_wifi_listener_def Let_def)
  then show ?thesis using core_connection_uploads [OF r, of "replicate 95 (Core_in_thread ?e)" 1] r
    by (simp add: list_all_iff)
qed

text \<open>
  C28: a trigger leads to a check. After any history of the OTA module, when a trigger has been flagged
  and not yet served, three transitions of its thread start a check, whatever further buttons and
  connects come in between.
\<close>

theorem ota_trigger_served:
  assumes "ksem_ok ks" and "oc_zephyr_fota cfg" and "k_sem_count_get ks sem0 = 0"
    and "run_machine (ota_handle ks cfg) pre (ota_boot sem0) = (x, cs)" and "mflt_ota_triggers_flags (snd x) \<noteq> 0"
    and "list_all (\<lambda>i. ota_tick i \<or> ota_quiet i) is" and "3 \<le> length (filter ota_tick is)"
  shows "\<exists>context. Ota_fota_start context \<in> set (snd (run_machine (ota_handle ks cfg) is x))"
proof -
  have "ota_inv ks (ota_boot sem0)" by (simp add: ota_inv_def ota_boot_def)
  then have "ota_inv ks (fst (run_machine (ota_handle ks cfg) pre (ota_boot sem0)))"
    using run_machine_inv [where P = "ota_inv ks" and f = "ota_handle ks cfg"] ota_handle_inv [OF assms(1)] by blast
  then have owed: "ota_owed ks cfg x" using assms(1,2,4,5) by (simp add: ota_owed_def ota_inv_def)
  have "ota_rank (fst x) \<le> 2" by (cases "fst x") simp_all
  then have "ota_rank (fst x) < length (filter ota_tick is)" using assms(7) by simp
  from ota_progress.reaches [OF owed assms(6) this] show ?thesis by blast
qed

theorem ota_trigger_served_witness:
  "\<exists>context. Ota_fota_start context \<in> set (snd (run_machine (ota_handle bool_sem ota_default_cfg)
     [Ota_thread 0, Ota_wifi WIFI_STA_CONNECTED, Ota_thread 0, Ota_thread 0]
     (fst (run_machine (ota_handle bool_sem ota_default_cfg) [Ota_wifi WIFI_STA_CONNECTED] (ota_boot False)))))"
proof -
  obtain x cs where r: "run_machine (ota_handle bool_sem ota_default_cfg) [Ota_wifi WIFI_STA_CONNECTED] (ota_boot False) = (x, cs)"
    by (metis prod.collapse)
  have f: "mflt_ota_triggers_flags (snd x) \<noteq> 0" using r
    by (auto simp: run_machine.simps(2) ota_handle_def ota_wifi_listener_def mflt_ota_triggers_notify_connected_def
        ota_notify_def ota_boot_def bool_sem_def MFLT_OTA_TRIGGERS_CONNECT_FLAG_def Let_def)
  have "k_sem_count_get bool_sem False = 0" "oc_zephyr_fota ota_default_cfg" by (simp_all add: bool_sem_def ota_default_cfg_def)
  then show ?thesis
    using ota_trigger_served [OF bool_sem_ok _ _ r f, of "[Ota_thread 0, Ota_wifi WIFI_STA_CONNECTED, Ota_thread 0, Ota_thread 0]"] r
    by simp
qed

end
