(* ===== verification/Coredump_Storage.thy ===== *)
theory Coredump_Storage
  imports Flash_Area
begin

text \<open>
  The flash-backed coredump storage of the nRF7002DK,
  \<^verbatim>\<open>src/src/modules/app_memfault/core/app_memfault_flash_coredump_storage.c\<close>.

  The partition is given by its address and size (\<open>coredump_part\<close>, from the devicetree), memory
  mapped flash is a function from addresses to bytes, and the calls into the flash controller are
  recorded. Offsets and lengths are 32-bit words, so the additions of the code wrap as they do on
  the target. The erase loop is a partial function: with a wrapped bound it may not end.
\<close>

record coredump_part =
  cp_offset :: u32
  cp_size :: u32
  cp_page_size :: u32
  cp_write_size :: u32

datatype nvmc_call = Nvmc_page_erase u32 | Nvmc_words_write u32 "byte list"

definition memfault_platform_coredump_storage_get_info :: "coredump_part \<Rightarrow> u32" where
  "memfault_platform_coredump_storage_get_info cp = cp_size cp"

definition prv_op_within_flash_bounds :: "coredump_part \<Rightarrow> u32 \<Rightarrow> u32 \<Rightarrow> bool" where
  "prv_op_within_flash_bounds cp offset data_len \<longleftrightarrow>
     offset + data_len \<le> memfault_platform_coredump_storage_get_info cp"

text \<open>\<^verbatim>\<open>memcpy\<close> from an address.\<close>

definition mem_bytes :: "(u32 \<Rightarrow> byte) \<Rightarrow> u32 \<Rightarrow> nat \<Rightarrow> byte list" where
  "mem_bytes mem address n = map (\<lambda>i. mem (address + of_nat i)) [0..<n]"

definition memfault_platform_coredump_storage_read ::
  "coredump_part \<Rightarrow> (u32 \<Rightarrow> byte) \<Rightarrow> u32 \<Rightarrow> byte list \<Rightarrow> bool \<times> byte list" where
  "memfault_platform_coredump_storage_read cp mem offset data =
     (if \<not> prv_op_within_flash_bounds cp offset (of_nat (length data)) then (False, data)
      else (True, mem_bytes mem (cp_offset cp + offset) (length data)))"

partial_function (option) coredump_erase_loop ::
  "coredump_part \<Rightarrow> u32 \<Rightarrow> u32 \<Rightarrow> nvmc_call list \<Rightarrow> nvmc_call list option" where
  "coredump_erase_loop cp erase_size page cs =
     (if page < erase_size
      then coredump_erase_loop cp erase_size (page + cp_page_size cp)
             (cs @ [Nvmc_page_erase (cp_offset cp + page)])
      else Some cs)"

declare coredump_erase_loop.simps [code]

definition memfault_platform_coredump_storage_erase ::
  "coredump_part \<Rightarrow> u32 \<Rightarrow> u32 \<Rightarrow> (bool \<times> nvmc_call list) option" where
  "memfault_platform_coredump_storage_erase cp offset erase_size =
     (if \<not> prv_op_within_flash_bounds cp offset erase_size then Some (False, [])
      else if offset mod cp_page_size cp \<noteq> 0 then Some (False, [])
      else map_option (\<lambda>cs. (True, cs)) (coredump_erase_loop cp erase_size offset []))"

text \<open>\<open>blk\<close> holds the \<^verbatim>\<open>write_offset\<close> and the data of the working buffer.\<close>

definition memfault_platform_coredump_storage_buffered_write ::
  "coredump_part \<Rightarrow> u32 \<times> byte list \<Rightarrow> bool \<times> nvmc_call list" where
  "memfault_platform_coredump_storage_buffered_write cp blk =
     (let (write_offset, data) = blk; addr = cp_offset cp + write_offset
      in if \<not> prv_op_within_flash_bounds cp write_offset (cp_write_size cp) then (False, [])
         else (True, [Nvmc_words_write addr (take (4 * (unat (cp_write_size cp) div 4)) data)]))"

definition memfault_coredump_read ::
  "coredump_part \<Rightarrow> (u32 \<Rightarrow> byte) \<Rightarrow> bool \<Rightarrow> u32 \<Rightarrow> byte list \<Rightarrow> bool \<times> byte list" where
  "memfault_coredump_read cp mem last_coredump_cleared offset data =
     (if last_coredump_cleared then (True, replicate (length data) 0)
      else memfault_platform_coredump_storage_read cp mem offset data)"

text \<open>The new value of \<^verbatim>\<open>last_coredump_cleared\<close>, and the driver state. The area is not closed.\<close>

definition memfault_platform_coredump_storage_clear ::
  "'f flash_area \<Rightarrow> bool \<Rightarrow> 'f \<Rightarrow> bool \<times> 'f" where
  "memfault_platform_coredump_storage_clear fa last_coredump_cleared f =
     (let (err, f1) = fa_open fa f
      in if err \<noteq> 0 then (last_coredump_cleared, f1)
         else let (err, f2) = fa_write fa 0 (le32 0) f1
              in if err \<noteq> 0 then (last_coredump_cleared, f2) else (True, f2))"

subsection \<open>The erase loop\<close>

text \<open>The pages a loop from \<open>page\<close> visits when nothing wraps.\<close>

lemma coredump_erase_loop_pages:
  assumes pg: "0 < unat (cp_page_size cp)" and fit: "unat sz + unat (cp_page_size cp) < 2 ^ 32"
  shows "\<exists>m. coredump_erase_loop cp sz page cs =
      Some (cs @ map (\<lambda>k. Nvmc_page_erase (cp_offset cp + page + of_nat k * cp_page_size cp)) [0..<m]) \<and>
    (\<forall>k. k < m \<longleftrightarrow> unat page + k * unat (cp_page_size cp) < unat sz)"
proof (induction "unat sz - unat page" arbitrary: page cs rule: less_induct)
  case less
  let ?P = "unat (cp_page_size cp)"
  show ?case
  proof (cases "page < sz")
    case False
    then have "\<not> unat page + k * ?P < unat sz" for k by (simp add: word_less_nat_alt)
    then show ?thesis using False by (subst coredump_erase_loop.simps) (intro exI [of _ 0], simp)
  next
    case True
    then have lt: "unat page < unat sz" by (simp add: word_less_nat_alt)
    have "unat (page + cp_page_size cp) = (unat page + ?P) mod 2 ^ LENGTH(32)"
      by (rule unat_word_ariths(1))
    then have np: "unat (page + cp_page_size cp) = unat page + ?P" using lt fit by simp
    then have "unat sz - unat (page + cp_page_size cp) < unat sz - unat page" using lt pg by linarith
    from less.hyps [OF this, of "cs @ [Nvmc_page_erase (cp_offset cp + page)]"] obtain m where
      m: "coredump_erase_loop cp sz (page + cp_page_size cp) (cs @ [Nvmc_page_erase (cp_offset cp + page)]) =
        Some ((cs @ [Nvmc_page_erase (cp_offset cp + page)]) @
          map (\<lambda>k. Nvmc_page_erase (cp_offset cp + (page + cp_page_size cp) + of_nat k * cp_page_size cp)) [0..<m])"
      and b: "\<forall>k. k < m \<longleftrightarrow> unat (page + cp_page_size cp) + k * ?P < unat sz" by blast
    have "map (\<lambda>k. Nvmc_page_erase (cp_offset cp + page + of_nat k * cp_page_size cp)) [0..<Suc m] =
        Nvmc_page_erase (cp_offset cp + page) #
        map (\<lambda>k. Nvmc_page_erase (cp_offset cp + (page + cp_page_size cp) + of_nat k * cp_page_size cp)) [0..<m]"
      by (subst map_upt_Suc) (simp add: algebra_simps)
    moreover have "k < Suc m \<longleftrightarrow> unat page + k * ?P < unat sz" for k
      using b np lt by (cases k) (auto simp: algebra_simps)
    ultimately show ?thesis using m True
      by (subst coredump_erase_loop.simps) (intro exI [of _ "Suc m"], simp)
  qed
qed

subsection \<open>Bounds\<close>

lemma prv_op_within_flash_bounds_exact:
  assumes "unat offset + n < 2 ^ 32"
  shows "prv_op_within_flash_bounds cp offset (of_nat n) \<longleftrightarrow> unat offset + n \<le> unat (cp_size cp)"
proof -
  have "offset + of_nat n = (of_nat (unat offset + n) :: u32)" by simp
  then have "unat (offset + of_nat n) = unat offset + n" using unat_of_nat_u32 [OF assms] by simp
  then show ?thesis
    by (simp add: prv_op_within_flash_bounds_def memfault_platform_coredump_storage_get_info_def
        word_le_nat_alt)
qed

definition nrf7002dk_part :: coredump_part where
  "nrf7002dk_part = \<lparr>cp_offset = 0xF0000, cp_size = 0x10000, cp_page_size = 0x1000, cp_write_size = 32\<rparr>"

subsection \<open>Properties\<close>

text \<open>
  Erasing from the start of the partition, as the SDK does before a coredump is saved, ends
  and erases exactly the pages that hold the requested range, each once and in ascending order,
  from the partition's first page on.
\<close>

theorem coredump_erase_from_start:
  assumes "0 < unat (cp_page_size cp)" and "unat (cp_size cp) + unat (cp_page_size cp) < 2 ^ 32"
    and "erase_size \<le> cp_size cp"
  shows "\<exists>m. memfault_platform_coredump_storage_erase cp 0 erase_size =
      Some (True, map (\<lambda>k. Nvmc_page_erase (cp_offset cp + of_nat k * cp_page_size cp)) [0..<m]) \<and>
    unat erase_size \<le> m * unat (cp_page_size cp) \<and>
    (\<forall>k < m. k * unat (cp_page_size cp) < unat erase_size)"
proof -
  have sz: "unat erase_size \<le> unat (cp_size cp)" using assms(3) by (simp add: word_le_nat_alt)
  obtain m where m: "coredump_erase_loop cp erase_size 0 [] =
      Some (map (\<lambda>k. Nvmc_page_erase (cp_offset cp + of_nat k * cp_page_size cp)) [0..<m])"
    and b: "\<forall>k. k < m \<longleftrightarrow> k * unat (cp_page_size cp) < unat erase_size"
    using coredump_erase_loop_pages [OF assms(1), of erase_size 0 "[]"] sz assms(2) by auto
  have "\<not> m * unat (cp_page_size cp) < unat erase_size" using b by blast
  then show ?thesis using m b assms(3)
    by (auto simp: memfault_platform_coredump_storage_erase_def prv_op_within_flash_bounds_def
        memfault_platform_coredump_storage_get_info_def)
qed

theorem coredump_erase_from_start_witness:
  "\<exists>m. memfault_platform_coredump_storage_erase nrf7002dk_part 0 0x10000 =
      Some (True, map (\<lambda>k. Nvmc_page_erase (0xF0000 + of_nat k * 0x1000)) [0..<m]) \<and>
    0x10000 \<le> m * 0x1000"
  using coredump_erase_from_start [of nrf7002dk_part "0x10000"] by (auto simp: nrf7002dk_part_def)

text \<open>
  C40: for an offset and a length whose sum does not wrap, a read succeeds exactly when the range
  lies inside the partition and then delivers the partition's bytes from that offset; otherwise it
  leaves the caller's buffer alone. A buffered write touches the flash only inside the partition.
  Once the coredump was cleared, every read delivers zeros.
\<close>

theorem coredump_access_in_bounds:
  assumes "unat offset + length data < 2 ^ 32" and "unat offset + unat (cp_write_size cp) < 2 ^ 32"
  shows "memfault_coredump_read cp mem False offset data =
      (if unat offset + length data \<le> unat (cp_size cp)
       then (True, map (\<lambda>i. mem (cp_offset cp + of_nat (unat offset + i))) [0..<length data])
       else (False, data)) \<and>
    (memfault_platform_coredump_storage_buffered_write cp (offset, data) = (ok, cs) \<longrightarrow>
       ok = (unat offset + unat (cp_write_size cp) \<le> unat (cp_size cp)) \<and> (\<not> ok \<longrightarrow> cs = []) \<and>
       (\<forall>a d. Nvmc_words_write a d \<in> set cs \<longrightarrow>
          a = cp_offset cp + offset \<and> unat offset + length d \<le> unat (cp_size cp))) \<and>
    memfault_coredump_read cp mem True offset data = (True, replicate (length data) 0)"
proof -
  have r: "prv_op_within_flash_bounds cp offset (of_nat (length data)) \<longleftrightarrow>
      unat offset + length data \<le> unat (cp_size cp)"
    by (rule prv_op_within_flash_bounds_exact [OF assms(1)])
  have w: "prv_op_within_flash_bounds cp offset (cp_write_size cp) \<longleftrightarrow>
      unat offset + unat (cp_write_size cp) \<le> unat (cp_size cp)"
    using prv_op_within_flash_bounds_exact [OF assms(2), of cp] by simp
  have t: "length (take (4 * (unat (cp_write_size cp) div 4)) data) \<le> unat (cp_write_size cp)" by auto
  show ?thesis using r w t
    by (auto simp: memfault_coredump_read_def memfault_platform_coredump_storage_read_def mem_bytes_def
        memfault_platform_coredump_storage_buffered_write_def Let_def add.assoc split: if_splits)
qed

theorem coredump_access_in_bounds_witness:
  "memfault_coredump_read nrf7002dk_part (\<lambda>a. ucast a) False 0x10 [0, 0] =
     (True, [0x10, 0x11])"
  using coredump_access_in_bounds [of "0x10" "[0, 0]" nrf7002dk_part "\<lambda>a. ucast a"]
  by (simp add: nrf7002dk_part_def upt_rec)

text \<open>
  The two ways the storage departs from its contract. A range whose end wraps around
  \<open>2 ^ 32\<close> passes the bounds check, and the read then starts below the partition; and the erase
  loop compares the page with the size instead of with the end of the range, so erasing the
  second page reports success and erases nothing.
\<close>

theorem coredump_bounds_wrap_and_skipped_erase:
  "fst (memfault_platform_coredump_storage_read nrf7002dk_part mem 0xFFFFFFFC (replicate 8 0)) \<and>
   hd (snd (memfault_platform_coredump_storage_read nrf7002dk_part mem 0xFFFFFFFC (replicate 8 0))) =
     mem (cp_offset nrf7002dk_part - 4) \<and>
   memfault_platform_coredump_storage_erase nrf7002dk_part 0x1000 0x1000 = Some (True, [])"
proof -
  have b: "prv_op_within_flash_bounds nrf7002dk_part 0xFFFFFFFC 8"
    "prv_op_within_flash_bounds nrf7002dk_part 0x1000 0x1000"
    by (simp_all add: prv_op_within_flash_bounds_def nrf7002dk_part_def
        memfault_platform_coredump_storage_get_info_def)
  moreover have wrap: "(4295950332 :: u32) = 983036" by code_simp
  ultimately show ?thesis
    by (simp add: wrap memfault_platform_coredump_storage_read_def mem_bytes_def hd_map nrf7002dk_part_def
        memfault_platform_coredump_storage_erase_def coredump_erase_loop.simps upt_rec)
qed

end
