(* ===== verification/Platform_Time.thy ===== *)
theory Platform_Time
  imports Nwm_Prelude
begin

text \<open>
  The wall-clock provider for Memfault events,
  \<^verbatim>\<open>src/src/modules/app_memfault/core/app_memfault_platform_time.c\<close>. The result and the seconds of
  \<^verbatim>\<open>clock_gettime\<close> are the arguments; the seconds are a signed 64-bit value, read as unsigned by
  the casts of the code.
\<close>

definition MFLT_MIN_VALID_EPOCH :: u64 where "MFLT_MIN_VALID_EPOCH = 1577836800"

text \<open>\<open>Some\<close> of the timestamp that is stored for a true result.\<close>

definition memfault_platform_time_get_current :: "int \<Rightarrow> u64 \<Rightarrow> u64 option" where
  "memfault_platform_time_get_current clock_err tv_sec =
     (if clock_err \<noteq> 0 then None
      else if tv_sec < MFLT_MIN_VALID_EPOCH then None
      else Some tv_sec)"

text \<open>
  A timestamp is reported exactly when the clock can be read and holds at least 2020-01-01, and
  then it is the clock's value; for clock values before 1970, whose signed seconds are negative,
  the unsigned comparison lets the value through as a time beyond the year 292 billion.
\<close>

theorem platform_time_valid:
  "map_option uint (memfault_platform_time_get_current err sec) =
     (if err \<noteq> 0 then None
      else if 0 \<le> sint sec then (if 1577836800 \<le> sint sec then Some (sint sec) else None)
      else Some (2 ^ 64 + sint sec))"
proof -
  have s: "sint sec = (if uint sec < 2 ^ 63 then uint sec else uint sec - 2 ^ 64)"
  proof -
    have r: "0 \<le> uint sec" "uint sec < 2 ^ 64" using uint_range_size [of sec] by (auto simp: word_size)
    have "sint sec = take_bit 64 (uint sec) - 2 ^ 64 * of_bool (bit (uint sec) 63)"
      by (simp add: sint_uint signed_take_bit_eq_take_bit_minus)
    moreover have "bit (uint sec) 63 \<longleftrightarrow> \<not> uint sec < 2 ^ 63"
    proof (cases "uint sec < 2 ^ 63")
      case True
      then show ?thesis using r by (simp add: bit_iff_odd)
    next
      case False
      then have "uint sec div 2 ^ 63 = (uint sec - 2 ^ 63) div 2 ^ 63 + 1" using r by (simp add: div_pos_geq)
      moreover have "(uint sec - 2 ^ 63) div 2 ^ 63 = 0" using False r by (intro div_pos_pos_trivial) simp_all
      ultimately show ?thesis using False by (simp add: bit_iff_odd)
    qed
    moreover have "take_bit 64 (uint sec) = uint sec" using r by (simp add: take_bit_int_eq_self_iff)
    ultimately show ?thesis by simp
  qed
  show ?thesis using s uint_range_size [of sec]
    by (auto simp: memfault_platform_time_get_current_def MFLT_MIN_VALID_EPOCH_def word_less_def word_size)
qed

end
