(* ===== verification/Memonitor_Metrics.thy ===== *)
theory Memonitor_Metrics
  imports Nwm_Prelude
begin

text \<open>
  Heap and stack metrics driven by the memory monitor,
  \<^verbatim>\<open>src/src/modules/app_memfault/metrics/app_memfault_memonitor_metrics.c\<close>, with the metric keys that
  \<^verbatim>\<open>src/src/modules/app_memfault/config/memfault_metrics_heartbeat_config.def\<close> defines. Keys are named by
  their identifiers. The snapshots the monitor returns are arguments: an error code and the entries
  it filled in.
\<close>

subsection \<open>Data\<close>

record memonitor_cfg =
  mc_heap_monitor :: bool
  mc_thread_monitor :: bool
  mc_system_heap :: bool
  mc_mbedtls_heap :: bool
  mc_https_client :: bool
  mc_mqtt_client :: bool
  mc_bt :: bool
  mc_ntp :: bool

record memonitor_heap_entry =
  mh_name :: string
  mh_total :: u32
  mh_used :: u32
  mh_watermark :: u32

record memonitor_thread_entry =
  mt_name :: string
  mt_stack_size :: u32
  mt_stack_hwm :: u32

text \<open>One metric update: key and value.\<close>

type_synonym metric_set = "string \<times> u32"

definition s_thread_table :: "memonitor_cfg \<Rightarrow> (string \<times> string) list" where
  "s_thread_table cfg =
     [(''hostap_iface_wq'', ''ncs_wifi_hostap_iface_unused_stack''),
      (''hostap_handler'', ''ncs_wifi_hostap_handler_unused_stack''),
      (''nrf70_intr_wq'', ''ncs_wifi_intr_unused_stack''),
      (''nrf70_bh_wq'', ''ncs_wifi_bh_unused_stack''),
      (''mflt_http'', ''ncs_mflt_http_unused_stack''),
      (''memfault_upload_tid'', ''memfault_upload_unused_stack''),
      (''mflt_ota_triggers_tid'', ''mflt_ota_triggers_unused_stack''),
      (''mqtt_helper_thread'', ''ncs_mqtt_helper_unused_stack''),
      (''conn_mgr_monitor'', ''ncs_conn_mgr_monitor_unused_stack''),
      (''net_socket_service'', ''ncs_net_socket_service_unused_stack''),
      (''rx_q[0]'', ''ncs_rx_q0_unused_stack''),
      (''tx_q[0]'', ''ncs_tx_q0_unused_stack''),
      (''net_mgmt'', ''ncs_net_mgmt_unused_stack''),
      (''tcp_work'', ''ncs_tcp_work_unused_stack''),
      (''shell_uart'', ''ncs_shell_uart_unused_stack''),
      (''logging'', ''ncs_logging_unused_stack''),
      (''main'', ''ncs_main_unused_stack''),
      (''sysworkq'', ''ncs_sysworkq_unused_stack''),
      (''k_system_thread'', ''ncs_system_thread_unused_stack'')] @
     (if mc_https_client cfg then [(''app_https_client_tid'', ''app_https_client_unused_stack'')] else []) @
     (if mc_mqtt_client cfg then [(''app_mqtt_client_tid'', ''app_mqtt_client_unused_stack'')] else []) @
     (if mc_bt cfg then [(''bt_rx'', ''ncs_bt_rx_unused_stack''),
                          (''bt_tx'', ''ncs_bt_tx_unused_stack''),
                          (''bt_hci_isr'', ''ncs_bt_hci_isr_unused_stack''),
                          (''bt_host_tx'', ''ncs_bt_host_tx_unused_stack'')] else []) @
     (if mc_ntp cfg then [(''ntp'', ''ncs_ntp_unused_stack'')] else [])"

definition heartbeat_metric_keys :: "memonitor_cfg \<Rightarrow> string list" where
  "heartbeat_metric_keys cfg =
     [''switch_1_toggle_count'',
      ''mflt_log_buf_bytes_used'',
      ''wifi_ap_ssid'',
      ''wifi_ap_bssid'',
      ''wifi_ap_ssid_change_count'',
      ''wifi_ap_bssid_change_count''] @
     (if mc_heap_monitor cfg \<and> mc_system_heap cfg then [''ncs_system_heap_total'',
                          ''ncs_system_heap_used'',
                          ''ncs_system_heap_peak''] else []) @
     (if mc_heap_monitor cfg \<and> mc_mbedtls_heap cfg then [''ncs_mbedtls_heap_total'',
                          ''ncs_mbedtls_heap_used'',
                          ''ncs_mbedtls_heap_peak''] else []) @
     [''ncs_wifi_hostap_iface_unused_stack'',
      ''ncs_wifi_hostap_handler_unused_stack'',
      ''ncs_wifi_intr_unused_stack'',
      ''ncs_wifi_bh_unused_stack'',
      ''ncs_mflt_http_unused_stack'',
      ''ncs_mqtt_helper_unused_stack'',
      ''ncs_conn_mgr_monitor_unused_stack'',
      ''ncs_net_socket_service_unused_stack'',
      ''ncs_rx_q0_unused_stack'',
      ''ncs_tx_q0_unused_stack'',
      ''ncs_net_mgmt_unused_stack'',
      ''ncs_tcp_work_unused_stack'',
      ''ncs_shell_uart_unused_stack'',
      ''ncs_logging_unused_stack'',
      ''ncs_main_unused_stack'',
      ''ncs_sysworkq_unused_stack'',
      ''ncs_system_thread_unused_stack''] @
     (if mc_bt cfg then [''ncs_bt_rx_unused_stack'',
                          ''ncs_bt_tx_unused_stack'',
                          ''ncs_bt_hci_isr_unused_stack'',
                          ''ncs_bt_host_tx_unused_stack''] else []) @
     (if mc_ntp cfg then [''ncs_ntp_unused_stack''] else []) @
     [''memfault_upload_unused_stack'',
      ''mflt_ota_triggers_unused_stack''] @
     (if mc_https_client cfg then [''app_https_client_unused_stack''] else []) @
     (if mc_mqtt_client cfg then [''app_mqtt_client_unused_stack''] else []) @
     (if mc_https_client cfg then [''app_https_req_total_count'',
                          ''app_https_req_fail_count''] else []) @
     (if mc_mqtt_client cfg then [''app_mqtt_echo_total_count'',
                          ''app_mqtt_echo_fail_count''] else [])"

subsection \<open>Updates\<close>

definition heap_entry_metrics :: "memonitor_cfg \<Rightarrow> memonitor_heap_entry \<Rightarrow> metric_set list" where
  "heap_entry_metrics cfg h =
     (if mc_system_heap cfg \<and> mh_name h = ''_system_heap''
      then [(''ncs_system_heap_total'', mh_total h), (''ncs_system_heap_used'', mh_used h),
            (''ncs_system_heap_peak'', mh_watermark h)]
      else if mc_mbedtls_heap cfg \<and> mh_name h = ''mbedtls_heap''
      then [(''ncs_mbedtls_heap_total'', mh_total h), (''ncs_mbedtls_heap_used'', mh_used h),
            (''ncs_mbedtls_heap_peak'', mh_watermark h)]
      else [])"

fun heap_loop :: "memonitor_cfg \<Rightarrow> memonitor_heap_entry list \<Rightarrow> metric_set list" where
  "heap_loop cfg [] = []"
| "heap_loop cfg (h # hs) = heap_entry_metrics cfg h @ heap_loop cfg hs"

definition update_heap_metrics ::
  "memonitor_cfg \<Rightarrow> int \<times> memonitor_heap_entry list \<Rightarrow> metric_set list" where
  "update_heap_metrics cfg r =
     (if \<not> mc_heap_monitor cfg then []
      else if fst r \<noteq> 0 then [] else heap_loop cfg (snd r))"

text \<open>The inner loop over the table, which stops at the first match.\<close>

fun table_loop :: "string \<Rightarrow> u32 \<Rightarrow> (string \<times> string) list \<Rightarrow> metric_set list" where
  "table_loop name unused [] = []"
| "table_loop name unused ((n, k) # tab) =
     (if name = n then [(k, unused)] else table_loop name unused tab)"

fun thread_loop :: "memonitor_cfg \<Rightarrow> memonitor_thread_entry list \<Rightarrow> metric_set list" where
  "thread_loop cfg [] = []"
| "thread_loop cfg (t # ts) =
     (if mt_stack_size t = 0 then thread_loop cfg ts
      else table_loop (mt_name t) (mt_stack_size t - mt_stack_hwm t) (s_thread_table cfg) @
           thread_loop cfg ts)"

definition update_thread_metrics ::
  "memonitor_cfg \<Rightarrow> int \<times> memonitor_thread_entry list \<Rightarrow> metric_set list" where
  "update_thread_metrics cfg r =
     (if \<not> mc_thread_monitor cfg then []
      else if fst r \<noteq> 0 then [] else thread_loop cfg (snd r))"

definition memonitor_metrics_cb ::
  "memonitor_cfg \<Rightarrow> int \<times> memonitor_heap_entry list \<Rightarrow> int \<times> memonitor_thread_entry list \<Rightarrow>
     metric_set list" where
  "memonitor_metrics_cb cfg heaps threads = update_heap_metrics cfg heaps @ update_thread_metrics cfg threads"

subsection \<open>The table\<close>

text \<open>Only four switches matter to the table; the heap keys come on top.\<close>

definition table_cfg :: "bool \<Rightarrow> bool \<Rightarrow> bool \<Rightarrow> bool \<Rightarrow> memonitor_cfg" where
  "table_cfg h m b n = \<lparr>mc_heap_monitor = False, mc_thread_monitor = True, mc_system_heap = False,
     mc_mbedtls_heap = False, mc_https_client = h, mc_mqtt_client = m, mc_bt = b, mc_ntp = n\<rparr>"

lemma s_thread_table_cfg:
  "s_thread_table cfg = s_thread_table
     (table_cfg (mc_https_client cfg) (mc_mqtt_client cfg) (mc_bt cfg) (mc_ntp cfg))"
  by (simp add: s_thread_table_def table_cfg_def)

lemma heartbeat_metric_keys_cfg:
  "set (heartbeat_metric_keys
     (table_cfg (mc_https_client cfg) (mc_mqtt_client cfg) (mc_bt cfg) (mc_ntp cfg))) \<subseteq>
   set (heartbeat_metric_keys cfg)"
  unfolding heartbeat_metric_keys_def table_cfg_def set_append by (simp only: memonitor_cfg.simps) auto

lemma table_cfg_ok:
  "\<forall>h m b n. distinct (map fst (s_thread_table (table_cfg h m b n))) \<and>
     distinct (map snd (s_thread_table (table_cfg h m b n))) \<and>
     list_all (\<lambda>k. k \<in> set (heartbeat_metric_keys (table_cfg h m b n)))
       (map snd (s_thread_table (table_cfg h m b n)))"
  by code_simp

lemma s_thread_table_distinct: "distinct (map fst (s_thread_table cfg)) \<and> distinct (map snd (s_thread_table cfg))"
  using table_cfg_ok by (subst (1 2) s_thread_table_cfg) blast

lemma s_thread_table_keys: "set (map snd (s_thread_table cfg)) \<subseteq> set (heartbeat_metric_keys cfg)"
proof -
  let ?c = "table_cfg (mc_https_client cfg) (mc_mqtt_client cfg) (mc_bt cfg) (mc_ntp cfg)"
  have "set (map snd (s_thread_table ?c)) \<subseteq> set (heartbeat_metric_keys ?c)"
    using table_cfg_ok unfolding list_all_iff by blast
  then show ?thesis using heartbeat_metric_keys_cfg [of cfg] s_thread_table_cfg [of cfg] by simp
qed

lemma table_loop_map_of:
  "table_loop name unused tab = (case map_of tab name of Some k \<Rightarrow> [(k, unused)] | None \<Rightarrow> [])"
  by (induction tab) auto

lemma thread_loop_set:
  "(k, v) \<in> set (thread_loop cfg ts) \<longleftrightarrow>
     (\<exists>t \<in> set ts. mt_stack_size t \<noteq> 0 \<and> map_of (s_thread_table cfg) (mt_name t) = Some k \<and>
        v = mt_stack_size t - mt_stack_hwm t)"
  by (induction ts) (auto simp: table_loop_map_of split: option.splits)

lemma thread_loop_keys: "(k, v) \<in> set (thread_loop cfg ts) \<Longrightarrow> k \<in> set (heartbeat_metric_keys cfg)"
  using s_thread_table_keys [of cfg] by (auto simp: thread_loop_set dest!: map_of_SomeD)

lemma heap_keys:
  assumes "mc_heap_monitor cfg"
  shows "mc_system_heap cfg \<Longrightarrow> set [''ncs_system_heap_total'', ''ncs_system_heap_used'', ''ncs_system_heap_peak'']
      \<subseteq> set (heartbeat_metric_keys cfg)"
    and "mc_mbedtls_heap cfg \<Longrightarrow> set [''ncs_mbedtls_heap_total'', ''ncs_mbedtls_heap_used'', ''ncs_mbedtls_heap_peak'']
      \<subseteq> set (heartbeat_metric_keys cfg)"
  unfolding heartbeat_metric_keys_def set_append using assms by (simp_all only: simp_thms if_True) blast+

lemma heap_entry_keys:
  "mc_heap_monitor cfg \<Longrightarrow> set (map fst (heap_entry_metrics cfg h)) \<subseteq> set (heartbeat_metric_keys cfg)"
  using heap_keys [of cfg] unfolding heap_entry_metrics_def by auto

lemma heap_loop_keys:
  "mc_heap_monitor cfg \<Longrightarrow> (k, v) \<in> set (heap_loop cfg hs) \<Longrightarrow> k \<in> set (heartbeat_metric_keys cfg)"
proof (induction hs)
  case (Cons h hs)
  then show ?case using heap_entry_keys [of cfg h] by force
qed simp

subsection \<open>Properties\<close>

text \<open>
  Under every configuration the memory monitor only updates metric keys that the heartbeat
  configuration defines, and a thread's unused stack goes to the key of the one table entry with
  its name: a key receives exactly the values size minus high-water mark of the threads with that
  name and a known stack size, and no two thread names share a key.
\<close>

theorem memonitor_updates:
  "(\<forall>(k, v) \<in> set (memonitor_metrics_cb cfg heaps threads). k \<in> set (heartbeat_metric_keys cfg)) \<and>
   ((k, v) \<in> set (update_thread_metrics cfg threads) \<longleftrightarrow>
      mc_thread_monitor cfg \<and> fst threads = 0 \<and>
      (\<exists>t \<in> set (snd threads). mt_stack_size t \<noteq> 0 \<and> (mt_name t, k) \<in> set (s_thread_table cfg) \<and>
         v = mt_stack_size t - mt_stack_hwm t)) \<and>
   ((n, k) \<in> set (s_thread_table cfg) \<and> (n', k) \<in> set (s_thread_table cfg) \<longrightarrow> n = n')"
proof (intro conjI)
  show "\<forall>(k, v) \<in> set (memonitor_metrics_cb cfg heaps threads). k \<in> set (heartbeat_metric_keys cfg)"
    using thread_loop_keys heap_loop_keys
    by (auto simp: memonitor_metrics_cb_def update_heap_metrics_def update_thread_metrics_def split: if_splits)
  have d: "distinct (map fst (s_thread_table cfg))" using s_thread_table_distinct by blast
  show "(k, v) \<in> set (update_thread_metrics cfg threads) \<longleftrightarrow>
      mc_thread_monitor cfg \<and> fst threads = 0 \<and>
      (\<exists>t \<in> set (snd threads). mt_stack_size t \<noteq> 0 \<and> (mt_name t, k) \<in> set (s_thread_table cfg) \<and>
         v = mt_stack_size t - mt_stack_hwm t)"
    by (auto simp: update_thread_metrics_def thread_loop_set map_of_eq_Some_iff [OF d])
  show "(n, k) \<in> set (s_thread_table cfg) \<and> (n', k) \<in> set (s_thread_table cfg) \<longrightarrow> n = n'"
    using s_thread_table_distinct [of cfg] by (metis eq_key_imp_eq_value map_of_eq_Some_iff distinct_map inj_onD snd_conv fst_conv)
qed

definition memonitor_sample_cfg :: memonitor_cfg where
  "memonitor_sample_cfg = \<lparr>mc_heap_monitor = True, mc_thread_monitor = True, mc_system_heap = True,
     mc_mbedtls_heap = True, mc_https_client = True, mc_mqtt_client = True, mc_bt = False, mc_ntp = False\<rparr>"

theorem memonitor_updates_witness:
  "(''ncs_main_unused_stack'', 700) \<in> set (update_thread_metrics memonitor_sample_cfg
     (0, [\<lparr>mt_name = ''main'', mt_stack_size = 1024, mt_stack_hwm = 324\<rparr>]))"
  using memonitor_updates [of memonitor_sample_cfg "(0, [])"
      "(0, [\<lparr>mt_name = ''main'', mt_stack_size = 1024, mt_stack_hwm = 324\<rparr>])" "''ncs_main_unused_stack''" 700]
  by (simp add: memonitor_sample_cfg_def s_thread_table_def)

end
