(* ===== verification/Wifi_Metrics.thy ===== *)
theory Wifi_Metrics
  imports Complex_Main Zbus_Messages
begin

text \<open>
  The Wi-Fi metrics of the heartbeat,
  \<^verbatim>\<open>src/src/modules/app_memfault/metrics/app_memfault_wifi_metrics.c\<close>. The function-scope statics of
  the SSID/BSSID report are the record \<open>wm_state\<close>; the driver's status is an argument, with the
  enumerators of the Wi-Fi management API that the code tests.
\<close>

subsection \<open>Data\<close>

record wm_state =
  last_ssid :: "char list"
  last_bssid :: "char list"
  has_prev :: bool

definition wm_boot_state :: wm_state where
  "wm_boot_state = \<lparr>last_ssid = replicate 33 NUL, last_bssid = replicate 18 NUL, has_prev = False\<rparr>"

datatype wm_key =
    Wifi_ap_ssid | Wifi_ap_bssid | Wifi_ap_ssid_change_count | Wifi_ap_bssid_change_count
  | Wifi_standard_version | Wifi_security_type | Wifi_frequency_band | Wifi_ap_oui
  | Wifi_primary_channel | Wifi_sta_rssi | Wifi_beacon_interval | Wifi_dtim_interval
  | Wifi_twt_capable | Wifi_tx_rate_mbps

datatype wm_call =
    Wm_set_string wm_key string
  | Wm_add wm_key u32
  | Wm_set_unsigned wm_key u32
  | Wm_set_signed wm_key int

datatype wifi_link_mode = WIFI_0 | WIFI_1 | WIFI_2 | WIFI_3 | WIFI_4 | WIFI_5 | WIFI_6 | WIFI_6E | WIFI_7
  | WIFI_LINK_MODE_OTHER

datatype wifi_security =
    WIFI_SECURITY_TYPE_NONE | WIFI_SECURITY_TYPE_PSK | WIFI_SECURITY_TYPE_PSK_SHA256
  | WIFI_SECURITY_TYPE_SAE | WIFI_SECURITY_TYPE_WPA_PSK | WIFI_SECURITY_TYPE_WPA_AUTO_PERSONAL
  | WIFI_SECURITY_TYPE_OTHER

datatype wifi_band = WIFI_FREQ_BAND_2_4_GHZ | WIFI_FREQ_BAND_5_GHZ | WIFI_FREQ_BAND_6_GHZ | WIFI_FREQ_BAND_OTHER

record wifi_iface_status =
  ws_state_completed :: bool
  ws_mode_infra :: bool
  ws_link_mode :: wifi_link_mode
  ws_security :: wifi_security
  ws_band :: wifi_band
  ws_ssid :: "char list"
  ws_ssid_len :: nat
  ws_bssid :: "byte list"
  ws_channel :: u32
  ws_rssi :: int
  ws_beacon_interval :: u32
  ws_dtim_period :: u32
  ws_twt_capable :: bool
  ws_current_phy_tx_rate :: real

definition WIFI_SSID_MAX_LEN :: nat where "WIFI_SSID_MAX_LEN = 32"

subsection \<open>Reporting SSID and BSSID\<close>

text \<open>\<^verbatim>\<open>strncpy(dst, src, n)\<close>: at most \<open>n\<close> characters, padded with NULs up to \<open>n\<close>.\<close>

definition strncpy :: "char list \<Rightarrow> string \<Rightarrow> nat \<Rightarrow> char list" where
  "strncpy dst src n = take n (c_str src @ replicate n NUL) @ drop n dst"

definition strcmp_ne :: "string \<Rightarrow> string \<Rightarrow> bool" where
  "strcmp_ne a b \<longleftrightarrow> c_str a \<noteq> c_str b"

definition mflt_wifi_metrics_report_ssid_bssid ::
  "string option \<Rightarrow> string option \<Rightarrow> wm_state \<Rightarrow> wm_state \<times> wm_call list" where
  "mflt_wifi_metrics_report_ssid_bssid ssid_p bssid_p s =
     (case (ssid_p, bssid_p) of
        (Some ssid, Some bssid) \<Rightarrow>
          (let c1 = [Wm_set_string Wifi_ap_ssid (c_str ssid), Wm_set_string Wifi_ap_bssid (c_str bssid)];
               c2 = (if has_prev s
                     then (if strcmp_ne ssid (last_ssid s) then [Wm_add Wifi_ap_ssid_change_count 1] else []) @
                          (if strcmp_ne bssid (last_bssid s) then [Wm_add Wifi_ap_bssid_change_count 1] else [])
                     else [])
           in (s\<lparr>last_ssid := (strncpy (last_ssid s) ssid 32)[32 := NUL],
                 last_bssid := (strncpy (last_bssid s) bssid 17)[17 := NUL],
                 has_prev := True\<rparr>, c1 @ c2))
      | _ \<Rightarrow> (s, []))"

subsection \<open>Heartbeat collection\<close>

fun link_mode_str :: "wifi_link_mode \<Rightarrow> string" where
  "link_mode_str WIFI_0 = ''802.11''"
| "link_mode_str WIFI_1 = ''802.11b''"
| "link_mode_str WIFI_2 = ''802.11a''"
| "link_mode_str WIFI_3 = ''802.11g''"
| "link_mode_str WIFI_4 = ''802.11n''"
| "link_mode_str WIFI_5 = ''802.11ac''"
| "link_mode_str WIFI_6 = ''802.11ax''"
| "link_mode_str WIFI_6E = ''802.11ax/6GHz''"
| "link_mode_str WIFI_7 = ''802.11be''"
| "link_mode_str WIFI_LINK_MODE_OTHER = ''unknown''"

fun security_str :: "wifi_security \<Rightarrow> string" where
  "security_str WIFI_SECURITY_TYPE_NONE = ''NONE''"
| "security_str WIFI_SECURITY_TYPE_PSK = ''WPA2-PSK''"
| "security_str WIFI_SECURITY_TYPE_PSK_SHA256 = ''WPA2-PSK-SHA256''"
| "security_str WIFI_SECURITY_TYPE_SAE = ''WPA3-SAE''"
| "security_str WIFI_SECURITY_TYPE_WPA_PSK = ''WPA-PSK''"
| "security_str WIFI_SECURITY_TYPE_WPA_AUTO_PERSONAL = ''WPA-AUTO-PERSONAL''"
| "security_str WIFI_SECURITY_TYPE_OTHER = ''UNKNOWN''"

fun band_str :: "wifi_band \<Rightarrow> string" where
  "band_str WIFI_FREQ_BAND_2_4_GHZ = ''2.4''"
| "band_str WIFI_FREQ_BAND_5_GHZ = ''5''"
| "band_str WIFI_FREQ_BAND_6_GHZ = ''6''"
| "band_str WIFI_FREQ_BAND_OTHER = ''x''"

text \<open>\<^verbatim>\<open>"%02x:%02x:..."\<close> over a list of bytes.\<close>

fun fmt_mac :: "byte list \<Rightarrow> string" where
  "fmt_mac [] = []"
| "fmt_mac [b] = fmt_02x b"
| "fmt_mac (b # bs) = fmt_02x b @ '':'' @ fmt_mac bs"

definition mflt_wifi_metrics_collect ::
  "bool \<Rightarrow> int \<Rightarrow> wifi_iface_status \<Rightarrow> wm_state \<Rightarrow> wm_state \<times> wm_call list" where
  "mflt_wifi_metrics_collect iface net_mgmt_err status s =
     (if \<not> iface then (s, [])
      else if net_mgmt_err \<noteq> 0 then (s, [])
      else if \<not> ws_state_completed status \<or> \<not> ws_mode_infra status then (s, [])
      else let oui = snd (snprintk (replicate 9 NUL) (fmt_mac (take 3 (ws_bssid status))));
               ssid_len = min (ws_ssid_len status) WIFI_SSID_MAX_LEN;
               ssid = take ssid_len (ws_ssid status) @ [NUL];
               bssid = snd (snprintk (replicate 18 NUL) (fmt_mac (take 6 (ws_bssid status))));
               (s', c1) = mflt_wifi_metrics_report_ssid_bssid (Some ssid) (Some bssid) s
           in (s', [Wm_set_string Wifi_standard_version (link_mode_str (ws_link_mode status)),
                    Wm_set_string Wifi_security_type (security_str (ws_security status)),
                    Wm_set_string Wifi_frequency_band (band_str (ws_band status)),
                    Wm_set_string Wifi_ap_oui (c_str oui)] @ c1 @
                   [Wm_set_unsigned Wifi_primary_channel (ws_channel status),
                    Wm_set_signed Wifi_sta_rssi (ws_rssi status),
                    Wm_set_unsigned Wifi_beacon_interval (ws_beacon_interval status),
                    Wm_set_unsigned Wifi_dtim_interval (ws_dtim_period status),
                    Wm_set_unsigned Wifi_twt_capable (of_bool (ws_twt_capable status))] @
                   (if ws_current_phy_tx_rate status > 0
                    then [Wm_set_unsigned Wifi_tx_rate_mbps (of_int \<lfloor>ws_current_phy_tx_rate status\<rfloor>)]
                    else [])))"

subsection \<open>Change counting\<close>

text \<open>Adjacent reports that differ, the first one given.\<close>

fun changes :: "'a \<Rightarrow> 'a list \<Rightarrow> nat" where
  "changes a [] = 0"
| "changes a (b # bs) = (if a = b then 0 else 1) + changes b bs"

definition wm_report :: "(string \<times> string, wm_state, wm_call) machine" where
  "wm_report i s = mflt_wifi_metrics_report_ssid_bssid (Some (fst i)) (Some (snd i)) s"

definition wm_fits :: "string \<times> string \<Rightarrow> bool" where
  "wm_fits i \<longleftrightarrow> is_c_str (fst i) \<and> is_c_str (snd i) \<and> length (fst i) \<le> 32 \<and> length (snd i) \<le> 17"

definition wm_inv :: "wm_state \<Rightarrow> bool" where
  "wm_inv s \<longleftrightarrow> length (last_ssid s) = 33 \<and> length (last_bssid s) = 18"

lemma c_str_strncpy:
  assumes "is_c_str src" "length src \<le> n" "length dst = Suc n"
  shows "c_str ((strncpy dst src n)[n := NUL]) = src" and "length ((strncpy dst src n)[n := NUL]) = Suc n"
proof -
  have "(strncpy dst src n)[n := NUL] = src @ replicate (n - length src) NUL @ [NUL]"
  proof -
    have "drop n dst = [dst ! n]" using assms(3) by (simp add: Cons_nth_drop_Suc [symmetric])
    then show ?thesis using assms by (simp add: strncpy_def list_update_append)
  qed
  then have e: "(strncpy dst src n)[n := NUL] = src @ NUL # replicate (n - length src) NUL"
    by (simp add: replicate_append_same)
  show "c_str ((strncpy dst src n)[n := NUL]) = src" using assms(1) by (simp only: e c_str_terminated)
  show "length ((strncpy dst src n)[n := NUL]) = Suc n" using assms(2) by (simp add: e)
qed

lemma wm_report_step:
  assumes "wm_inv s" "wm_fits i"
  shows "wm_inv (fst (wm_report i s)) \<and> has_prev (fst (wm_report i s)) \<and>
    c_str (last_ssid (fst (wm_report i s))) = fst i \<and> c_str (last_bssid (fst (wm_report i s))) = snd i \<and>
    length (filter (\<lambda>c. c = Wm_add Wifi_ap_ssid_change_count 1) (snd (wm_report i s))) =
      (if has_prev s \<and> c_str (last_ssid s) \<noteq> fst i then 1 else 0) \<and>
    length (filter (\<lambda>c. c = Wm_add Wifi_ap_bssid_change_count 1) (snd (wm_report i s))) =
      (if has_prev s \<and> c_str (last_bssid s) \<noteq> snd i then 1 else 0) \<and>
    Wm_set_string Wifi_ap_ssid (fst i) \<in> set (snd (wm_report i s)) \<and>
    Wm_set_string Wifi_ap_bssid (snd i) \<in> set (snd (wm_report i s))"
proof -
  have l: "length (last_ssid s) = Suc 32" "length (last_bssid s) = Suc 17"
    and f: "is_c_str (fst i)" "length (fst i) \<le> 32" "is_c_str (snd i)" "length (snd i) \<le> 17"
    using assms by (simp_all add: wm_inv_def wm_fits_def)
  note S = c_str_strncpy [OF f(1,2) l(1)] and B = c_str_strncpy [OF f(3,4) l(2)]
  show ?thesis
    using S B f by (auto simp: wm_report_def mflt_wifi_metrics_report_ssid_bssid_def Let_def strcmp_ne_def
        wm_inv_def)
qed

lemma wm_report_run:
  assumes "wm_inv s" "list_all wm_fits is" "has_prev s" "c_str (last_ssid s) = a" "c_str (last_bssid s) = b"
  shows "length (filter (\<lambda>c. c = Wm_add Wifi_ap_ssid_change_count 1) (snd (run_machine wm_report is s))) =
      changes a (map fst is) \<and>
    length (filter (\<lambda>c. c = Wm_add Wifi_ap_bssid_change_count 1) (snd (run_machine wm_report is s))) =
      changes b (map snd is)"
  using assms
proof (induction "is" arbitrary: s a b)
  case (Cons i js)
  have st: "wm_inv (fst (wm_report i s))" "has_prev (fst (wm_report i s))"
    "c_str (last_ssid (fst (wm_report i s))) = fst i" "c_str (last_bssid (fst (wm_report i s))) = snd i"
    "length (filter (\<lambda>c. c = Wm_add Wifi_ap_ssid_change_count 1) (snd (wm_report i s))) =
      (if a \<noteq> fst i then 1 else 0)"
    "length (filter (\<lambda>c. c = Wm_add Wifi_ap_bssid_change_count 1) (snd (wm_report i s))) =
      (if b \<noteq> snd i then 1 else 0)"
    using wm_report_step [OF Cons.prems(1)] Cons.prems by auto
  then show ?case using Cons.IH [OF st(1) _ st(2-4)] Cons.prems(2) by auto
qed simp

subsection \<open>Properties\<close>



lemma fmt_mac_length: "bs \<noteq> [] \<Longrightarrow> length (fmt_mac bs) = 3 * length bs - 1"
  by (induction bs rule: fmt_mac.induct) auto

lemma fmt_mac_c_str: "is_c_str (fmt_mac bs)"
  by (induction bs rule: fmt_mac.induct) simp_all

text \<open>
  A heartbeat collected while associated in station mode reports the access point's address in
  full (17 characters, two lower-case digits per byte) and its vendor prefix as the first eight
  characters of the same text, an SSID of at most 32 characters, and the remaining values as the
  driver gave them; otherwise it reports nothing.
\<close>

theorem wifi_collect_reports:
  assumes "length (ws_bssid status) = 6"
    and "mflt_wifi_metrics_collect iface err status s = (s', cs)"
  shows "if iface \<and> err = 0 \<and> ws_state_completed status \<and> ws_mode_infra status
    then let mac = fmt_mac (ws_bssid status); ssid = c_str (take 32 (take (ws_ssid_len status) (ws_ssid status)))
         in length mac = 17 \<and> length ssid \<le> 32 \<and>
            Wm_set_string Wifi_ap_bssid mac \<in> set cs \<and> Wm_set_string Wifi_ap_oui (take 8 mac) \<in> set cs \<and>
            Wm_set_string Wifi_ap_ssid ssid \<in> set cs \<and>
            Wm_set_unsigned Wifi_primary_channel (ws_channel status) \<in> set cs \<and>
            Wm_set_signed Wifi_sta_rssi (ws_rssi status) \<in> set cs
    else s' = s \<and> cs = []"
proof (cases "iface \<and> err = 0 \<and> ws_state_completed status \<and> ws_mode_infra status")
  case False
  then have "s' = s \<and> cs = []" using assms(2) by (auto simp: mflt_wifi_metrics_collect_def split: if_splits)
  then show ?thesis using False by auto
next
  case True
  obtain b0 b1 b2 b3 b4 b5 where bs: "ws_bssid status = [b0, b1, b2, b3, b4, b5]"
    using assms(1) by (auto simp: numeral_eq_Suc length_Suc_conv)
  let ?mac = "fmt_mac (ws_bssid status)"
  have m: "length ?mac = 17" "is_c_str ?mac" using fmt_mac_length [of "ws_bssid status"] bs fmt_mac_c_str by simp_all
  have "c_str (snd (snprintk (replicate 18 NUL) ?mac)) = ?mac" using m by (intro snprintk_fits) simp_all
  moreover have o: "fmt_mac (take 3 (ws_bssid status)) = take 8 ?mac" by (simp add: bs fmt_02x_def)
  moreover have "c_str (snd (snprintk (replicate 9 NUL) (take 8 ?mac))) = take 8 ?mac"
    using m is_c_str_take [of ?mac 8] by (intro snprintk_fits) simp_all
  moreover have "take 6 (ws_bssid status) = ws_bssid status" using assms(1) by simp
  moreover have "c_str (take n x @ [NUL]) = c_str (take n x)" for n and x :: string
    by (rule c_str_snoc_NUL)
  moreover have "take (min (ws_ssid_len status) WIFI_SSID_MAX_LEN) (ws_ssid status) =
      take 32 (take (ws_ssid_len status) (ws_ssid status))"
    by (simp add: WIFI_SSID_MAX_LEN_def min.commute)
  moreover have "length (c_str (take 32 (take (ws_ssid_len status) (ws_ssid status)))) \<le> 32"
    using length_c_str_le [of "take 32 (take (ws_ssid_len status) (ws_ssid status))"] by simp
  ultimately show ?thesis
    using True m assms(2)
    by (simp add: mflt_wifi_metrics_collect_def mflt_wifi_metrics_report_ssid_bssid_def Let_def) auto
qed

definition wifi_sample_status :: wifi_iface_status where
  "wifi_sample_status = \<lparr>ws_state_completed = True, ws_mode_infra = True, ws_link_mode = WIFI_6,
     ws_security = WIFI_SECURITY_TYPE_SAE, ws_band = WIFI_FREQ_BAND_5_GHZ, ws_ssid = ''home'' @ replicate 28 NUL,
     ws_ssid_len = 4, ws_bssid = [0, 0x1A, 0x2B, 0x3C, 0x4D, 0x5E], ws_channel = 36, ws_rssi = - 60,
     ws_beacon_interval = 100, ws_dtim_period = 3, ws_twt_capable = True, ws_current_phy_tx_rate = 0\<rparr>"

theorem wifi_collect_reports_witness:
  "Wm_set_string Wifi_ap_oui ''00:1a:2b'' \<in>
     set (snd (mflt_wifi_metrics_collect True 0 wifi_sample_status wm_boot_state))"
proof -
  obtain s' cs where r: "mflt_wifi_metrics_collect True 0 wifi_sample_status wm_boot_state = (s', cs)"
    by (metis prod.collapse)
  have l: "length (ws_bssid wifi_sample_status) = 6" by (simp add: wifi_sample_status_def)
  have o: "take 8 (fmt_mac (ws_bssid wifi_sample_status)) = ''00:1a:2b''"
    unfolding wifi_sample_status_def by code_simp
  have "ws_state_completed wifi_sample_status" "ws_mode_infra wifi_sample_status"
    by (simp_all add: wifi_sample_status_def)
  then show ?thesis using wifi_collect_reports [OF l r] r o by (simp add: Let_def)
qed

end
