(* ===== verification/Net_Events.thy ===== *)
theory Net_Events
  imports Wifi_Metrics
begin

text \<open>
  The application's hooks into the zego bricks: the network event handlers of
  \<^verbatim>\<open>src/src/modules/network/net_event_mgmt.c\<close>, which turn driver events into messages on the zbus
  channels, the two button hooks of \<^verbatim>\<open>src/src/modules/ux/ux.c\<close>, and \<^verbatim>\<open>src/src/main.c\<close>. What
  \<^verbatim>\<open>zbus_chan_pub\<close> returns is an argument of the handlers: a failed publication is logged and does not stop the next.
\<close>

subsection \<open>Data\<close>

record net_cfg =
  nc_wifi_ble_prov :: bool
  nc_ntp :: bool

datatype zego_wifi_mode = ZEGO_WIFI_MODE_STA | ZEGO_WIFI_MODE_OTHER nat

datatype zego_ux_wifi_state = ZEGO_UX_WIFI_STATE_CONNECTED | ZEGO_UX_WIFI_STATE_ERROR

text \<open>
  How a publication ends. With an error either the listeners did not run (the channel was taken for longer than the timeout, the
  message was refused) or they did and another kind of observer could not be notified.
\<close>

datatype pub_result = Pub_ok | Pub_err int bool

fun pub_err :: "pub_result \<Rightarrow> int" where
  "pub_err Pub_ok = 0"
| "pub_err (Pub_err err reached) = err"

fun pub_reached :: "pub_result \<Rightarrow> bool" where
  "pub_reached Pub_ok = True"
| "pub_reached (Pub_err err reached) = reached"

datatype zbus_channel = WIFI_CHAN | NETWORK_CHAN | ZEGO_UX_WIFI_STATE_CHAN | ZEGO_NTP_NET_CHAN

record net_pubs =
  np_wifi :: pub_result
  np_network :: pub_result
  np_ux :: pub_result
  np_ntp :: pub_result

datatype net_call =
    Pub_WIFI_CHAN wifi_msg_type pub_result
  | Pub_NETWORK_CHAN network_msg pub_result
  | Pub_ZEGO_UX_WIFI_STATE_CHAN zego_ux_wifi_state zego_wifi_mode pub_result
  | Pub_ZEGO_NTP_NET_CHAN bool pub_result
  | Net_log_pub_failed zbus_channel int
  | Net_metric wm_call
  | Net_log_disconnect_reason int
  | Net_mgmt_add_event_callback

subsection \<open>Handlers\<close>

definition wifi_disconnect_reason_handler :: "int option \<Rightarrow> net_call list" where
  "wifi_disconnect_reason_handler status =
     [Net_log_disconnect_reason (case status of Some disconn_reason \<Rightarrow> disconn_reason | None \<Rightarrow> - 1)]"

definition net_event_app_init :: "int \<times> net_call list" where
  "net_event_app_init = (0, [Net_mgmt_add_event_callback])"

definition warn_failed :: "zbus_channel \<Rightarrow> pub_result \<Rightarrow> net_call list" where
  "warn_failed ch r = (if pub_err r \<noteq> 0 then [Net_log_pub_failed ch (pub_err r)] else [])"

definition zego_on_net_event_dhcp_bound ::
  "net_cfg \<Rightarrow> net_pubs \<Rightarrow> zego_wifi_mode \<Rightarrow> string option \<Rightarrow> string option \<Rightarrow> wm_state \<Rightarrow> wm_state \<times> net_call list" where
  "zego_on_net_event_dhcp_bound cfg rs mode mac_addr ssid s =
     (let (s', ms) = mflt_wifi_metrics_report_ssid_bssid ssid mac_addr s
      in (s', map Net_metric ms @
              (if nc_wifi_ble_prov cfg
               then Pub_WIFI_CHAN WIFI_STA_CONNECTED (np_wifi rs) # warn_failed WIFI_CHAN (np_wifi rs) else []) @
              Pub_NETWORK_CHAN \<lparr>nm_type = NETWORK_READY, nm_ready = True\<rparr> (np_network rs) #
              warn_failed NETWORK_CHAN (np_network rs) @
              Pub_ZEGO_UX_WIFI_STATE_CHAN ZEGO_UX_WIFI_STATE_CONNECTED mode (np_ux rs) #
              warn_failed ZEGO_UX_WIFI_STATE_CHAN (np_ux rs) @
              (if nc_ntp cfg then Pub_ZEGO_NTP_NET_CHAN True (np_ntp rs) # warn_failed ZEGO_NTP_NET_CHAN (np_ntp rs) else [])))"

definition zego_on_net_event_wifi_disconnect :: "net_cfg \<Rightarrow> net_pubs \<Rightarrow> bool \<Rightarrow> net_call list" where
  "zego_on_net_event_wifi_disconnect cfg rs will_retry =
     (if nc_wifi_ble_prov cfg
      then Pub_WIFI_CHAN WIFI_STA_DISCONNECTED (np_wifi rs) # warn_failed WIFI_CHAN (np_wifi rs) else []) @
     Pub_NETWORK_CHAN \<lparr>nm_type = NETWORK_NOT_READY, nm_ready = False\<rparr> (np_network rs) #
     warn_failed NETWORK_CHAN (np_network rs) @
     Pub_ZEGO_UX_WIFI_STATE_CHAN ZEGO_UX_WIFI_STATE_ERROR ZEGO_WIFI_MODE_STA (np_ux rs) #
     warn_failed ZEGO_UX_WIFI_STATE_CHAN (np_ux rs) @
     (if nc_ntp cfg then Pub_ZEGO_NTP_NET_CHAN False (np_ntp rs) # warn_failed ZEGO_NTP_NET_CHAN (np_ntp rs) else [])"

subsection \<open>Button hooks and main\<close>

text \<open>The overrides do nothing, which is what takes the default actions of the brick away.\<close>

definition zego_ux_on_single_click :: "net_call list" where "zego_ux_on_single_click = []"
definition zego_ux_on_long_press :: "net_call list" where "zego_ux_on_long_press = []"

definition banner_compiled_app_modules :: "bool \<Rightarrow> bool \<Rightarrow> bool \<Rightarrow> string list" where
  "banner_compiled_app_modules memfault https mqtt =
     [''----------------------------------------------'', ''APP:''] @
     (if memfault then [''app_memfault''] else []) @
     (if https then [''app_https_client''] else []) @
     (if mqtt then [''app_mqtt_client''] else [])"

definition main_result :: int where "main_result = 0"

subsection \<open>What the handlers put on the connectivity channels\<close>

text \<open>The messages the listeners of a channel get, and the warnings.\<close>

fun wifi_pubs :: "net_call list \<Rightarrow> wifi_msg_type list" where
  "wifi_pubs [] = []"
| "wifi_pubs (Pub_WIFI_CHAN m r # cs) = (if pub_reached r then m # wifi_pubs cs else wifi_pubs cs)"
| "wifi_pubs (_ # cs) = wifi_pubs cs"

fun network_pubs :: "net_call list \<Rightarrow> network_msg list" where
  "network_pubs [] = []"
| "network_pubs (Pub_NETWORK_CHAN m r # cs) = (if pub_reached r then m # network_pubs cs else network_pubs cs)"
| "network_pubs (_ # cs) = network_pubs cs"

fun failed_pubs :: "zbus_channel \<Rightarrow> net_call list \<Rightarrow> int list" where
  "failed_pubs ch [] = []"
| "failed_pubs ch (Net_log_pub_failed ch' err # cs) = (if ch' = ch then err # failed_pubs ch cs else failed_pubs ch cs)"
| "failed_pubs ch (_ # cs) = failed_pubs ch cs"

lemma wifi_pubs_append [simp]: "wifi_pubs (cs @ ds) = wifi_pubs cs @ wifi_pubs ds"
  by (induction cs rule: wifi_pubs.induct) auto

lemma network_pubs_append [simp]: "network_pubs (cs @ ds) = network_pubs cs @ network_pubs ds"
  by (induction cs rule: network_pubs.induct) auto

lemma failed_pubs_append [simp]: "failed_pubs ch (cs @ ds) = failed_pubs ch cs @ failed_pubs ch ds"
  by (induction cs rule: failed_pubs.induct) auto

lemma pubs_metrics [simp]:
  "wifi_pubs (map Net_metric ms) = []" "network_pubs (map Net_metric ms) = []" "failed_pubs ch (map Net_metric ms) = []"
  by (induction ms) auto

lemma pubs_warn [simp]:
  "wifi_pubs (warn_failed ch r) = []" "network_pubs (warn_failed ch r) = []"
  "failed_pubs ch' (warn_failed ch r) = (if ch' = ch \<and> pub_err r \<noteq> 0 then [pub_err r] else [])"
  by (simp_all add: warn_failed_def)

lemma dhcp_bound_pubs:
  "wifi_pubs (snd (zego_on_net_event_dhcp_bound cfg rs mode mac ssid s)) =
     (if nc_wifi_ble_prov cfg \<and> pub_reached (np_wifi rs) then [WIFI_STA_CONNECTED] else [])"
  "network_pubs (snd (zego_on_net_event_dhcp_bound cfg rs mode mac ssid s)) =
     (if pub_reached (np_network rs) then [\<lparr>nm_type = NETWORK_READY, nm_ready = True\<rparr>] else [])"
  "failed_pubs WIFI_CHAN (snd (zego_on_net_event_dhcp_bound cfg rs mode mac ssid s)) =
     (if nc_wifi_ble_prov cfg \<and> pub_err (np_wifi rs) \<noteq> 0 then [pub_err (np_wifi rs)] else [])"
  by (simp_all add: zego_on_net_event_dhcp_bound_def split_beta Let_def)

lemma wifi_disconnect_pubs:
  "wifi_pubs (zego_on_net_event_wifi_disconnect cfg rs r) =
     (if nc_wifi_ble_prov cfg \<and> pub_reached (np_wifi rs) then [WIFI_STA_DISCONNECTED] else [])"
  "network_pubs (zego_on_net_event_wifi_disconnect cfg rs r) =
     (if pub_reached (np_network rs) then [\<lparr>nm_type = NETWORK_NOT_READY, nm_ready = False\<rparr>] else [])"
  "failed_pubs WIFI_CHAN (zego_on_net_event_wifi_disconnect cfg rs r) =
     (if nc_wifi_ble_prov cfg \<and> pub_err (np_wifi rs) \<noteq> 0 then [pub_err (np_wifi rs)] else [])"
  by (simp_all add: zego_on_net_event_wifi_disconnect_def)

end
