(* ===== verification/Firmware.thy ===== *)
theory Firmware
  imports "HOL-Library.Multiset" Thread_Progress Coredump_Storage Platform_Time Memonitor_Metrics Net_Events
begin

text \<open>
  The whole application as one machine. Its inputs are everything that can happen to it: driver events,
  button messages, one transition of one of its threads, the delayed persist, a callback of the MQTT
  library, a call of the Memfault SDK into the recording, a heartbeat, a sample of the memory monitor.
  Zbus runs the listeners of a channel inside the publication, in an order the application does not
  fix (\<open>order\<close> for the Wi-Fi channel, \<open>border\<close> for the button channel). A publication of the network event
  hooks may fail: then the listeners do not run, and the hook goes on to the next one. The upload thread is blocked in
  \<^verbatim>\<open>k_sem_take(&upload_sem, K_FOREVER)\<close> while the count of the semaphore is 0.

  \<open>machine_view\<close> states what it means that a module, inside the application, runs as it does alone: its
  part of the state and of the trace is a run of the module's own machine over the inputs that concern
  it. What was proved of the modules for every interleaving so holds inside the application.
\<close>

subsection \<open>Views\<close>

locale machine_view =
  fixes big :: "('I, 'S, 'C) machine"
    and small :: "('i, 's, 'c) machine"
    and get :: "'S \<Rightarrow> 's"
    and view :: "'I \<Rightarrow> 'i list"
    and pick :: "'C \<Rightarrow> 'c option"
  assumes view_step: "run_machine small (view i) (get x) =
      (get (fst (big i x)), List.map_filter pick (snd (big i x)))"
begin

lemma view_run:
  "run_machine small (concat (map view is)) (get x) =
     (get (fst (run_machine big is x)), List.map_filter pick (snd (run_machine big is x)))"
proof (induction "is" arbitrary: x)
  case (Cons i js)
  show ?case
    using view_step [of i x] Cons.IH [of "fst (big i x)"]
    by (intro prod_eqI) (simp_all add: fst_run_machine_append snd_run_machine_append map_filter_append)
qed (simp add: List.map_filter_simps)

end

subsection \<open>State and inputs\<close>

text \<open>
  What the network brick reports, with how each publication of the handler ends, and the modules that listen on
  the Wi-Fi channel.
\<close>

datatype net_event = Dhcp_bound net_pubs zego_wifi_mode "string option" "string option" | Wifi_disconnect net_pubs bool

fun event_up :: "net_event \<Rightarrow> bool" where
  "event_up (Dhcp_bound rs mode mac ssid) = True"
| "event_up (Wifi_disconnect rs r) = False"

fun event_pubs :: "net_event \<Rightarrow> net_pubs" where
  "event_pubs (Dhcp_bound rs mode mac ssid) = rs"
| "event_pubs (Wifi_disconnect rs r) = rs"

text \<open>Whether the listeners of the Wi-Fi channel hear of the event.\<close>

definition event_reached :: "net_event \<Rightarrow> bool" where
  "event_reached e = pub_reached (np_wifi (event_pubs e))"

lemma event_reached_simps [simp]:
  "event_reached (Dhcp_bound rs mode mac ssid) = pub_reached (np_wifi rs)"
  "event_reached (Wifi_disconnect rs r) = pub_reached (np_wifi rs)"
  by (simp_all add: event_reached_def)

datatype wifi_observer = Obs_https | Obs_mqtt | Obs_core | Obs_ota

instantiation wifi_observer :: enum
begin

definition enum_wifi_observer :: "wifi_observer list" where
  "enum_wifi_observer = [Obs_https, Obs_mqtt, Obs_core, Obs_ota]"

definition enum_all_wifi_observer :: "(wifi_observer \<Rightarrow> bool) \<Rightarrow> bool" where
  "enum_all_wifi_observer P \<longleftrightarrow> list_all P [Obs_https, Obs_mqtt, Obs_core, Obs_ota]"

definition enum_ex_wifi_observer :: "(wifi_observer \<Rightarrow> bool) \<Rightarrow> bool" where
  "enum_ex_wifi_observer P \<longleftrightarrow> list_ex P [Obs_https, Obs_mqtt, Obs_core, Obs_ota]"

instance
proof
  have u: "(UNIV :: wifi_observer set) = set [Obs_https, Obs_mqtt, Obs_core, Obs_ota]" by (auto intro: wifi_observer.exhaust)
  show "(UNIV :: wifi_observer set) = set enum_class.enum" unfolding u enum_wifi_observer_def ..
  show "distinct (enum_class.enum :: wifi_observer list)" by (simp add: enum_wifi_observer_def)
  show "enum_class.enum_all P \<longleftrightarrow> Ball UNIV P" for P :: "wifi_observer \<Rightarrow> bool" unfolding u enum_all_wifi_observer_def by simp
  show "enum_class.enum_ex P \<longleftrightarrow> Bex UNIV P" for P :: "wifi_observer \<Rightarrow> bool" unfolding u enum_ex_wifi_observer_def by simp
qed

end

text \<open>A channel runs each of its listeners once, in some order.\<close>

definition full_order :: "'o list \<Rightarrow> bool" where
  "full_order order \<longleftrightarrow> distinct order \<and> set order = UNIV"

record fw_cfg =
  fc_https :: https_cfg
  fc_mqtt :: mqtt_cfg
  fc_core :: core_cfg
  fc_ota :: ota_cfg
  fc_net :: net_cfg
  fc_memonitor :: memonitor_cfg

record ('f, 'g, 'k) firmware =
  fw_https :: https_system
  fw_mqtt :: mqtt_system
  fw_core :: "('f, 'g) core_sys"
  fw_upload_sem :: 'k
  fw_ota :: "ota_pc \<times> 'k ota_state"
  fw_metrics :: wm_state

text \<open>What does not change: configuration, the two flash drivers, semaphores, listener orders.\<close>

datatype button_observer = Bobs_core | Bobs_cdr | Bobs_ota

instantiation button_observer :: enum
begin

definition enum_button_observer :: "button_observer list" where
  "enum_button_observer = [Bobs_core, Bobs_cdr, Bobs_ota]"

definition enum_all_button_observer :: "(button_observer \<Rightarrow> bool) \<Rightarrow> bool" where
  "enum_all_button_observer P \<longleftrightarrow> list_all P [Bobs_core, Bobs_cdr, Bobs_ota]"

definition enum_ex_button_observer :: "(button_observer \<Rightarrow> bool) \<Rightarrow> bool" where
  "enum_ex_button_observer P \<longleftrightarrow> list_ex P [Bobs_core, Bobs_cdr, Bobs_ota]"

instance
proof
  have u: "(UNIV :: button_observer set) = set [Bobs_core, Bobs_cdr, Bobs_ota]" by (auto intro: button_observer.exhaust)
  show "(UNIV :: button_observer set) = set enum_class.enum" unfolding u enum_button_observer_def ..
  show "distinct (enum_class.enum :: button_observer list)" by (simp add: enum_button_observer_def)
  show "enum_class.enum_all P \<longleftrightarrow> Ball UNIV P" for P :: "button_observer \<Rightarrow> bool" unfolding u enum_all_button_observer_def by simp
  show "enum_class.enum_ex P \<longleftrightarrow> Bex UNIV P" for P :: "button_observer \<Rightarrow> bool" unfolding u enum_ex_button_observer_def by simp
qed

end

record ('f, 'g, 'k) platform =
  pf_cfg :: fw_cfg
  pf_log_area :: "'f flash_area"
  pf_cdr_area :: "'g flash_area"
  pf_sem :: "'k ksem"
  pf_order :: "wifi_observer list"
  pf_border :: "button_observer list"

datatype fw_input =
    Fw_net net_event
  | Fw_button fmac_env button_msg
  | Fw_https_thread https_env
  | Fw_mqtt_thread mqtt_env
  | Fw_mqtt_connack int bool
  | Fw_mqtt_disconnect int
  | Fw_mqtt_publish string "char list"
  | Fw_mqtt_suback u16 int
  | Fw_upload_thread core_env
  | Fw_freeze_work fmac_env
  | Fw_ota_thread int
  | Fw_sdk_has_cdr
  | Fw_sdk_read_cdr u32 "byte list"
  | Fw_sdk_mark_cdr_read
  | Fw_heartbeat core_env bool int wifi_iface_status
  | Fw_memonitor "int \<times> memonitor_heap_entry list" "int \<times> memonitor_thread_entry list"

datatype fw_call =
    Fc_https https_call
  | Fc_mqtt mqtt_call
  | Fc_core core_call
  | Fc_ota ota_call
  | Fc_cdr cdr_call
  | Fc_net net_call
  | Fc_wifi_metric wm_call
  | Fc_memonitor metric_set

subsection \<open>Steps\<close>

definition fw_https_step :: "('f, 'g, 'k) platform \<Rightarrow> (https_input, ('f, 'g, 'k) firmware, fw_call) machine" where
  "fw_https_step pf i x =
     (let (y, cs) = https_handle (fc_https (pf_cfg pf)) i (fw_https x) in (x\<lparr>fw_https := y\<rparr>, map Fc_https cs))"

definition fw_mqtt_step :: "('f, 'g, 'k) platform \<Rightarrow> (mqtt_input, ('f, 'g, 'k) firmware, fw_call) machine" where
  "fw_mqtt_step pf i x =
     (let (y, cs) = mqtt_handle (fc_mqtt (pf_cfg pf)) i (fw_mqtt x) in (x\<lparr>fw_mqtt := y\<rparr>, map Fc_mqtt cs))"

definition fw_ota_step :: "('f, 'g, 'k) platform \<Rightarrow> (ota_input, ('f, 'g, 'k) firmware, fw_call) machine" where
  "fw_ota_step pf i x =
     (let (y, cs) = ota_handle (pf_sem pf) (fc_ota (pf_cfg pf)) i (fw_ota x) in (x\<lparr>fw_ota := y\<rparr>, map Fc_ota cs))"

text \<open>The kernel's side of \<^verbatim>\<open>upload_sem\<close> over the calls of the core.\<close>

fun upload_sem_after :: "'k ksem \<Rightarrow> 'k \<Rightarrow> core_call list \<Rightarrow> 'k" where
  "upload_sem_after ks k [] = k"
| "upload_sem_after ks k (Core_upload_sem_give # cs) = upload_sem_after ks (k_sem_give ks k) cs"
| "upload_sem_after ks k (Core_upload_sem_take # cs) = upload_sem_after ks (k_sem_take ks k) cs"
| "upload_sem_after ks k (_ # cs) = upload_sem_after ks k cs"

definition fw_core_step :: "('f, 'g, 'k) platform \<Rightarrow> (core_input, ('f, 'g, 'k) firmware, fw_call) machine" where
  "fw_core_step pf i x =
     (let (y, cs) = core_handle (fc_core (pf_cfg pf)) (pf_log_area pf) (pf_cdr_area pf) i (fw_core x)
      in (x\<lparr>fw_core := y, fw_upload_sem := upload_sem_after (pf_sem pf) (fw_upload_sem x) cs\<rparr>, map Fc_core cs))"

definition fw_cdr_step :: "('f, 'g, 'k) platform \<Rightarrow> (cdr_event, ('f, 'g, 'k) firmware, fw_call) machine" where
  "fw_cdr_step pf ev x =
     (let w = csy_world (fw_core x);
          ((cdr, f), cs) = cdr_exec (pf_cdr_area pf) ev (cw_cdr w, cw_cdr_flash w)
      in (x\<lparr>fw_core := (fw_core x)\<lparr>csy_world := w\<lparr>cw_cdr := cdr, cw_cdr_flash := f\<rparr>\<rparr>\<rparr>, map Fc_cdr cs))"

fun fw_notify_wifi :: "('f, 'g, 'k) platform \<Rightarrow> wifi_msg_type \<Rightarrow> (wifi_observer, ('f, 'g, 'k) firmware, fw_call) machine" where
  "fw_notify_wifi pf m Obs_https x = fw_https_step pf (Https_wifi m) x"
| "fw_notify_wifi pf m Obs_mqtt x = fw_mqtt_step pf (Mqtt_wifi m) x"
| "fw_notify_wifi pf m Obs_core x = fw_core_step pf (Core_in_wifi m) x"
| "fw_notify_wifi pf m Obs_ota x = fw_ota_step pf (Ota_wifi m) x"

fun fw_notify_button ::
  "('f, 'g, 'k) platform \<Rightarrow> fmac_env \<Rightarrow> button_msg \<Rightarrow> (button_observer, ('f, 'g, 'k) firmware, fw_call) machine" where
  "fw_notify_button pf env msg Bobs_core x = fw_core_step pf (Core_in_button msg) x"
| "fw_notify_button pf env msg Bobs_cdr x = fw_cdr_step pf (Ev_button env msg) x"
| "fw_notify_button pf env msg Bobs_ota x = fw_ota_step pf (Ota_button msg) x"

text \<open>A call of the network hooks: a publication that gets through reaches the listeners, metrics the SDK.\<close>

fun fw_deliver :: "('f, 'g, 'k) platform \<Rightarrow> (net_call, ('f, 'g, 'k) firmware, fw_call) machine" where
  "fw_deliver pf (Pub_WIFI_CHAN m r) x = (if pub_reached r then run_machine (fw_notify_wifi pf m) (pf_order pf) x else (x, []))"
| "fw_deliver pf (Pub_NETWORK_CHAN msg r) x = (if pub_reached r then fw_core_step pf (Core_in_network msg) x else (x, []))"
| "fw_deliver pf (Net_metric c) x = (x, [Fc_wifi_metric c])"
| "fw_deliver pf c x = (x, [Fc_net c])"

definition fw_net_event :: "('f, 'g, 'k) platform \<Rightarrow> (net_event, ('f, 'g, 'k) firmware, fw_call) machine" where
  "fw_net_event pf e x =
     (case e of
        Dhcp_bound rs mode mac ssid \<Rightarrow>
          (let (s, cs) = zego_on_net_event_dhcp_bound (fc_net (pf_cfg pf)) rs mode mac ssid (fw_metrics x)
           in run_machine (fw_deliver pf) cs (x\<lparr>fw_metrics := s\<rparr>))
      | Wifi_disconnect rs r \<Rightarrow>
          run_machine (fw_deliver pf) (zego_on_net_event_wifi_disconnect (fc_net (pf_cfg pf)) rs r) x)"

fun fw_step :: "('f, 'g, 'k) platform \<Rightarrow> (fw_input, ('f, 'g, 'k) firmware, fw_call) machine" where
  "fw_step pf (Fw_net e) x = fw_net_event pf e x"
| "fw_step pf (Fw_button env msg) x = run_machine (fw_notify_button pf env msg) (pf_border pf) x"
| "fw_step pf (Fw_https_thread env) x = fw_https_step pf (Https_thread env) x"
| "fw_step pf (Fw_mqtt_thread env) x = fw_mqtt_step pf (Mqtt_thread env) x"
| "fw_step pf (Fw_mqtt_connack rc sp) x = fw_mqtt_step pf (Mqtt_connack rc sp) x"
| "fw_step pf (Fw_mqtt_disconnect r) x = fw_mqtt_step pf (Mqtt_disconnect r) x"
| "fw_step pf (Fw_mqtt_publish topic payload) x = fw_mqtt_step pf (Mqtt_publish topic payload) x"
| "fw_step pf (Fw_mqtt_suback mid r) x = fw_mqtt_step pf (Mqtt_suback mid r) x"
| "fw_step pf (Fw_upload_thread env) x =
     (if csy_pc (fw_core x) = UP_take \<and> k_sem_count_get (pf_sem pf) (fw_upload_sem x) = 0 then (x, [])
      else fw_core_step pf (Core_in_thread env) x)"
| "fw_step pf (Fw_freeze_work env) x = fw_core_step pf (Core_in_work env) x"
| "fw_step pf (Fw_ota_thread ret) x = fw_ota_step pf (Ota_thread ret) x"
| "fw_step pf Fw_sdk_has_cdr x = fw_cdr_step pf Ev_has_cdr x"
| "fw_step pf (Fw_sdk_read_cdr off buf) x = fw_cdr_step pf (Ev_read off buf) x"
| "fw_step pf Fw_sdk_mark_cdr_read x = fw_cdr_step pf Ev_mark_read x"
| "fw_step pf (Fw_heartbeat env iface err status) x =
     (let (s, cs) = mflt_wifi_metrics_collect iface err status (fw_metrics x)
      in (x\<lparr>fw_metrics := s\<rparr>,
          map Fc_core (memfault_metrics_heartbeat_collect_data (fc_core (pf_cfg pf)) env) @ map Fc_wifi_metric cs))"
| "fw_step pf (Fw_memonitor heaps threads) x =
     (x, map Fc_memonitor (memonitor_metrics_cb (fc_memonitor (pf_cfg pf)) heaps threads))"

definition fw_boot :: "('f, 'g, 'k) platform \<Rightarrow> ('f, 'g) core_world \<Rightarrow> 'k \<Rightarrow> ('f, 'g, 'k) firmware" where
  "fw_boot pf w sem0 =
     \<lparr>fw_https = https_initial, fw_mqtt = mqtt_initial (fc_mqtt (pf_cfg pf)), fw_core = core_initial w,
      fw_upload_sem = sem0, fw_ota = ota_boot sem0, fw_metrics = wm_boot_state\<rparr>"

lemmas fw_steps = fw_https_step_def fw_mqtt_step_def fw_ota_step_def fw_core_step_def fw_cdr_step_def

subsection \<open>The order of the listeners\<close>

text \<open>Listeners that work on separate parts of the state: running them in another order ends in the same state
  and makes the same calls, in another order.\<close>

locale commuting_machine =
  fixes f :: "('i, 's, 'c) machine"
  assumes state_commutes: "a \<noteq> b \<Longrightarrow> fst (f a (fst (f b x))) = fst (f b (fst (f a x)))"
    and calls_commute: "a \<noteq> b \<Longrightarrow> snd (f a (fst (f b x))) = snd (f a x)"
begin

lemma run_remove:
  "a \<in> set xs \<Longrightarrow> distinct xs \<Longrightarrow>
   fst (run_machine f xs x) = fst (run_machine f (remove1 a xs) (fst (f a x))) \<and>
   mset (snd (run_machine f xs x)) = mset (snd (f a x)) + mset (snd (run_machine f (remove1 a xs) (fst (f a x))))"
  by (induction xs arbitrary: x) (auto simp: state_commutes calls_commute)

lemma run_perm:
  assumes "distinct xs" "distinct ys" "set xs = set ys"
  shows "fst (run_machine f xs x) = fst (run_machine f ys x) \<and> mset (snd (run_machine f xs x)) = mset (snd (run_machine f ys x))"
  using assms
proof (induction xs arbitrary: ys x)
  case (Cons a xs)
  have a: "a \<in> set ys" using Cons.prems(3) by auto
  have "set xs = set (remove1 a ys)" using Cons.prems by auto
  then show ?case
    using Cons.IH [of "remove1 a ys" "fst (f a x)"] Cons.prems run_remove [OF a Cons.prems(2), of x] by simp
qed simp

end

interpretation wifi_listeners: commuting_machine "fw_notify_wifi pf m" for pf m
proof (unfold_locales, goal_cases)
  case (1 a b x)
  then show ?case by (cases a; cases b) (simp_all add: fw_steps split_beta Let_def)
next
  case (2 a b x)
  then show ?case by (cases a; cases b) (simp_all add: fw_steps split_beta Let_def)
qed

interpretation button_listeners: commuting_machine "fw_notify_button pf env msg" for pf env msg
proof (unfold_locales, goal_cases)
  case (1 a b x)
  then show ?case by (cases a; cases b) (simp_all add: fw_steps core_handle_def split_beta Let_def)
next
  case (2 a b x)
  then show ?case by (cases a; cases b) (simp_all add: fw_steps core_handle_def split_beta Let_def)
qed

text \<open>Two machines that agree on a step up to the order of the calls agree on a run.\<close>

lemma run_machine_same:
  assumes "\<And>i s. fst (f i s) = fst (g i s) \<and> mset (snd (f i s)) = mset (snd (g i s))"
  shows "fst (run_machine f is s) = fst (run_machine g is s) \<and> mset (snd (run_machine f is s)) = mset (snd (run_machine g is s))"
  using assms by (induction "is" arbitrary: s) simp_all

definition same_listeners :: "('f, 'g, 'k) platform \<Rightarrow> ('f, 'g, 'k) platform \<Rightarrow> bool" where
  "same_listeners pf pf' \<longleftrightarrow> pf' = pf\<lparr>pf_order := pf_order pf', pf_border := pf_border pf'\<rparr> \<and>
     distinct (pf_order pf) \<and> distinct (pf_order pf') \<and> set (pf_order pf) = set (pf_order pf') \<and>
     distinct (pf_border pf) \<and> distinct (pf_border pf') \<and> set (pf_border pf) = set (pf_border pf')"

lemma same_listeners_steps:
  assumes "pf' = pf\<lparr>pf_order := os, pf_border := bs\<rparr>"
  shows "fw_https_step pf' = fw_https_step pf" "fw_mqtt_step pf' = fw_mqtt_step pf" "fw_ota_step pf' = fw_ota_step pf"
    "fw_core_step pf' = fw_core_step pf" "fw_cdr_step pf' = fw_cdr_step pf"
    "fw_notify_wifi pf' = fw_notify_wifi pf" "fw_notify_button pf' = fw_notify_button pf"
proof -
  show steps: "fw_https_step pf' = fw_https_step pf" "fw_mqtt_step pf' = fw_mqtt_step pf" "fw_ota_step pf' = fw_ota_step pf"
    "fw_core_step pf' = fw_core_step pf" "fw_cdr_step pf' = fw_cdr_step pf"
    using assms by (auto intro!: ext simp: fw_steps)
  show "fw_notify_wifi pf' = fw_notify_wifi pf"
  proof (intro ext)
    fix m ob x
    show "fw_notify_wifi pf' m ob x = fw_notify_wifi pf m ob x" by (cases ob) (simp_all add: steps)
  qed
  show "fw_notify_button pf' = fw_notify_button pf"
  proof (intro ext)
    fix env msg ob x
    show "fw_notify_button pf' env msg ob x = fw_notify_button pf env msg ob x" by (cases ob) (simp_all add: steps)
  qed
qed

lemma same_listeners_step:
  assumes "same_listeners pf pf'"
  shows "fst (fw_step pf i x) = fst (fw_step pf' i x) \<and> mset (snd (fw_step pf i x)) = mset (snd (fw_step pf' i x))"
proof -
  have e: "pf' = pf\<lparr>pf_order := pf_order pf', pf_border := pf_border pf'\<rparr>" using assms by (simp add: same_listeners_def)
  note steps = same_listeners_steps [OF e]
  have c: "pf_cfg pf' = pf_cfg pf" "pf_sem pf' = pf_sem pf" by (subst e; simp)+
  have "fst (fw_deliver pf c x) = fst (fw_deliver pf' c x) \<and> mset (snd (fw_deliver pf c x)) = mset (snd (fw_deliver pf' c x))" for c x
    using assms wifi_listeners.run_perm [of "pf_order pf" "pf_order pf'"] by (cases c) (auto simp: steps same_listeners_def)
  note d = run_machine_same [of "fw_deliver pf" "fw_deliver pf'", OF this]
  have n: "fst (fw_net_event pf e x) = fst (fw_net_event pf' e x) \<and>
      mset (snd (fw_net_event pf e x)) = mset (snd (fw_net_event pf' e x))" for e
    unfolding fw_net_event_def c by (cases e) (simp_all add: split_beta d)
  show ?thesis
    using n assms button_listeners.run_perm [of "pf_border pf" "pf_border pf'"]
    by (cases i) (simp_all add: steps c same_listeners_def)
qed

subsection \<open>The modules inside the application\<close>

fun pick_https :: "fw_call \<Rightarrow> https_call option" where
  "pick_https (Fc_https c) = Some c" | "pick_https _ = None"

fun pick_mqtt :: "fw_call \<Rightarrow> mqtt_call option" where
  "pick_mqtt (Fc_mqtt c) = Some c" | "pick_mqtt _ = None"

fun pick_ota :: "fw_call \<Rightarrow> ota_call option" where
  "pick_ota (Fc_ota c) = Some c" | "pick_ota _ = None"

definition pf_ok :: "('f, 'g, 'k) platform \<Rightarrow> bool" where
  "pf_ok pf \<longleftrightarrow> full_order (pf_order pf) \<and> nc_wifi_ble_prov (fc_net (pf_cfg pf)) \<and>
     full_order (pf_border pf)"

lemma concat_observers:
  "concat (map (\<lambda>a. if a = ob then [y] else []) obs) = replicate (count_list obs ob) y"
  by (induction obs) (auto simp: replicate_append_same)

lemma count_list_once: "distinct obs \<Longrightarrow> ob \<in> set obs \<Longrightarrow> count_list obs ob = 1"
  by (induction obs) (auto simp: count_list_0_iff)

text \<open>The messages an observer gets for one publication on the Wi-Fi channel: one for each registration.\<close>

definition deliveries :: "'o list \<Rightarrow> 'o \<Rightarrow> 'm list \<Rightarrow> 'm list" where
  "deliveries obs ob ms = concat (map (\<lambda>m. replicate (count_list obs ob) m) ms)"

lemma deliveries_append [simp]:
  "deliveries obs ob (ms @ ns) = deliveries obs ob ms @ deliveries obs ob ns" "deliveries obs ob [] = []"
  "deliveries obs ob [m] = replicate (count_list obs ob) m"
  by (simp_all add: deliveries_def)

lemma deliveries_once: "distinct obs \<Longrightarrow> ob \<in> set obs \<Longrightarrow> deliveries obs ob ms = ms"
  by (induction ms) (simp_all add: deliveries_def count_list_once)

fun event_msg :: "net_event \<Rightarrow> wifi_msg_type" where
  "event_msg (Dhcp_bound rs mode mac ssid) = WIFI_STA_CONNECTED"
| "event_msg (Wifi_disconnect rs r) = WIFI_STA_DISCONNECTED"

lemma concat_map_wifi_pubs:
  "concat (map (\<lambda>c. map f (deliveries obs ob (wifi_pubs [c]))) cs) = map f (deliveries obs ob (wifi_pubs cs))"
proof (induction cs)
  case (Cons c cs)
  have "wifi_pubs (c # cs) = wifi_pubs [c] @ wifi_pubs cs" using wifi_pubs_append [of "[c]" cs] by simp
  then show ?case using Cons by simp
qed simp

definition event_msgs :: "('f, 'g, 'k) platform \<Rightarrow> net_event \<Rightarrow> wifi_msg_type list" where
  "event_msgs pf e = (if nc_wifi_ble_prov (fc_net (pf_cfg pf)) \<and> event_reached e then [event_msg e] else [])"

lemma fw_net_event_eq:
  "\<exists>cs s. fw_net_event pf e x = run_machine (fw_deliver pf) cs (x\<lparr>fw_metrics := s\<rparr>) \<and>
     wifi_pubs cs = event_msgs pf e"
proof (cases e)
  case (Dhcp_bound rs mode mac ssid)
  let ?r = "zego_on_net_event_dhcp_bound (fc_net (pf_cfg pf)) rs mode mac ssid (fw_metrics x)"
  show ?thesis
    using dhcp_bound_pubs(1) [of "fc_net (pf_cfg pf)" rs mode mac ssid "fw_metrics x"] Dhcp_bound
    by (intro exI [of _ "snd ?r"] exI [of _ "fst ?r"]) (simp add: fw_net_event_def event_msgs_def split_beta)
next
  case (Wifi_disconnect rs r)
  then show ?thesis using wifi_disconnect_pubs(1) [of "fc_net (pf_cfg pf)" rs r]
    by (intro exI [of _ "zego_on_net_event_wifi_disconnect (fc_net (pf_cfg pf)) rs r"] exI [of _ "fw_metrics x"])
      (simp add: fw_net_event_def event_msgs_def)
qed


text \<open>A module with a listener on the Wi-Fi channel: what it sees of a publication, of a call of the
  network hooks and of a driver event is the message, once per registration.\<close>

locale wifi_module =
  fixes pf :: "('f, 'g, 'k) platform"
    and small :: "('i, 's, 'c) machine"
    and get :: "('f, 'g, 'k) firmware \<Rightarrow> 's"
    and pick :: "fw_call \<Rightarrow> 'c option"
    and ob :: wifi_observer
    and inp :: "wifi_msg_type \<Rightarrow> 'i"
  assumes notify_step: "run_machine small (if ob' = ob then [inp m] else []) (get x) =
      (get (fst (fw_notify_wifi pf m ob' x)), List.map_filter pick (snd (fw_notify_wifi pf m ob' x)))"
    and get_metrics: "get (x\<lparr>fw_metrics := s\<rparr>) = get x"
    and get_network: "get (fst (fw_core_step pf (Core_in_network msg) x)) = get x"
    and pick_other: "pick (Fc_core c1) = None" "pick (Fc_net c2) = None" "pick (Fc_wifi_metric c3) = None"

sublocale wifi_module \<subseteq> notified: machine_view "fw_notify_wifi pf m" small get "\<lambda>ob'. if ob' = ob then [inp m] else []" pick for m
  by unfold_locales (rule notify_step)

sublocale wifi_module \<subseteq> delivered: machine_view "fw_deliver pf" small get
  "\<lambda>c. map inp (deliveries (pf_order pf) ob (wifi_pubs [c]))" pick
proof (unfold_locales, goal_cases)
  case (1 c x)
  have "List.map_filter pick (snd (fw_core_step pf j x)) = []" for j
    by (simp add: fw_core_step_def split_beta pick_other Let_def)
  then show ?case
    using notified.view_run [of _ "pf_order pf" x]
    by (cases c) (simp_all add: concat_observers get_network pick_other List.map_filter_simps)
qed

context wifi_module
begin

lemma net_event_view:
  "run_machine small (map inp (deliveries (pf_order pf) ob (event_msgs pf e))) (get x) =
    (get (fst (fw_net_event pf e x)), List.map_filter pick (snd (fw_net_event pf e x)))"
proof -
  obtain cs s where n: "fw_net_event pf e x = run_machine (fw_deliver pf) cs (x\<lparr>fw_metrics := s\<rparr>)"
    "wifi_pubs cs = event_msgs pf e" using fw_net_event_eq [of pf e x] by blast
  show ?thesis
    using delivered.view_run [of cs "x\<lparr>fw_metrics := s\<rparr>"] n
    by (simp add: concat_map_wifi_pubs get_metrics)
qed

end

interpretation https_module: wifi_module pf "https_handle (fc_https (pf_cfg pf))" fw_https pick_https Obs_https Https_wifi for pf
proof (unfold_locales, goal_cases)
  case (1 ob' m x)
  show ?case by (cases ob') (simp_all add: fw_steps split_beta Let_def)
qed (simp_all add: fw_core_step_def split_beta Let_def)

interpretation mqtt_module: wifi_module pf "mqtt_handle (fc_mqtt (pf_cfg pf))" fw_mqtt pick_mqtt Obs_mqtt Mqtt_wifi for pf
proof (unfold_locales, goal_cases)
  case (1 ob' m x)
  show ?case by (cases ob') (simp_all add: fw_steps split_beta Let_def)
qed (simp_all add: fw_core_step_def split_beta Let_def)

interpretation ota_module: wifi_module pf "ota_handle (pf_sem pf) (fc_ota (pf_cfg pf))" fw_ota pick_ota Obs_ota Ota_wifi for pf
proof (unfold_locales, goal_cases)
  case (1 ob' m x)
  show ?case by (cases ob') (simp_all add: fw_steps split_beta Let_def)
qed (simp_all add: fw_core_step_def split_beta Let_def)

text \<open>The inputs of the application that concern a module.\<close>

fun https_view :: "('f, 'g, 'k) platform \<Rightarrow> fw_input \<Rightarrow> https_input list" where
  "https_view pf (Fw_net e) = map Https_wifi (deliveries (pf_order pf) Obs_https (event_msgs pf e))"
| "https_view pf (Fw_https_thread env) = [Https_thread env]"
| "https_view pf _ = []"

fun mqtt_view :: "('f, 'g, 'k) platform \<Rightarrow> fw_input \<Rightarrow> mqtt_input list" where
  "mqtt_view pf (Fw_net e) = map Mqtt_wifi (deliveries (pf_order pf) Obs_mqtt (event_msgs pf e))"
| "mqtt_view pf (Fw_mqtt_thread env) = [Mqtt_thread env]"
| "mqtt_view pf (Fw_mqtt_connack rc sp) = [Mqtt_connack rc sp]"
| "mqtt_view pf (Fw_mqtt_disconnect r) = [Mqtt_disconnect r]"
| "mqtt_view pf (Fw_mqtt_publish topic payload) = [Mqtt_publish topic payload]"
| "mqtt_view pf (Fw_mqtt_suback mid r) = [Mqtt_suback mid r]"
| "mqtt_view pf _ = []"

fun ota_view :: "('f, 'g, 'k) platform \<Rightarrow> fw_input \<Rightarrow> ota_input list" where
  "ota_view pf (Fw_net e) = map Ota_wifi (deliveries (pf_order pf) Obs_ota (event_msgs pf e))"
| "ota_view pf (Fw_button env msg) = map Ota_button (deliveries (pf_border pf) Bobs_ota [msg])"
| "ota_view pf (Fw_ota_thread ret) = [Ota_thread ret]"
| "ota_view pf _ = []"

lemma button_keeps_clients [simp]:
  "fw_https (fst (run_machine (fw_notify_button pf env msg) obs x)) = fw_https x \<and>
   List.map_filter pick_https (snd (run_machine (fw_notify_button pf env msg) obs x)) = []"
  "fw_mqtt (fst (run_machine (fw_notify_button pf env msg) obs x)) = fw_mqtt x \<and>
   List.map_filter pick_mqtt (snd (run_machine (fw_notify_button pf env msg) obs x)) = []"
proof -
  have "fw_https (fst (fw_notify_button pf env msg ob x)) = fw_https x \<and>
      List.map_filter pick_https (snd (fw_notify_button pf env msg ob x)) = [] \<and>
      fw_mqtt (fst (fw_notify_button pf env msg ob x)) = fw_mqtt x \<and>
      List.map_filter pick_mqtt (snd (fw_notify_button pf env msg ob x)) = []" for ob x
    by (cases ob) (simp_all add: fw_steps split_beta Let_def)
  then show "fw_https (fst (run_machine (fw_notify_button pf env msg) obs x)) = fw_https x \<and>
   List.map_filter pick_https (snd (run_machine (fw_notify_button pf env msg) obs x)) = []"
  "fw_mqtt (fst (run_machine (fw_notify_button pf env msg) obs x)) = fw_mqtt x \<and>
   List.map_filter pick_mqtt (snd (run_machine (fw_notify_button pf env msg) obs x)) = []"
    by (induction obs arbitrary: x) (simp_all add: List.map_filter_simps map_filter_append)
qed

lemma ota_view_button:
  "machine_view (fw_notify_button pf env msg) (ota_handle (pf_sem pf) (fc_ota (pf_cfg pf))) fw_ota
     (\<lambda>ob. if ob = Bobs_ota then [Ota_button msg] else []) pick_ota"
proof (rule machine_view.intro, goal_cases)
  case (1 i x)
  show ?case by (cases i) (simp_all add: fw_steps split_beta Let_def)
qed

interpretation https_in_fw: machine_view "fw_step pf" "https_handle (fc_https (pf_cfg pf))" fw_https "https_view pf" pick_https for pf
proof (rule machine_view.intro, goal_cases)
  case (1 i x)
  show ?case using https_module.net_event_view [where pf = pf and x = x]
    by (cases i) (simp_all add: fw_steps split_beta Let_def List.map_filter_simps map_filter_append)
qed

interpretation mqtt_in_fw: machine_view "fw_step pf" "mqtt_handle (fc_mqtt (pf_cfg pf))" fw_mqtt "mqtt_view pf" pick_mqtt for pf
proof (rule machine_view.intro, goal_cases)
  case (1 i x)
  show ?case using mqtt_module.net_event_view [where pf = pf and x = x]
    by (cases i) (simp_all add: fw_steps split_beta Let_def List.map_filter_simps map_filter_append)
qed

interpretation ota_in_fw: machine_view "fw_step pf" "ota_handle (pf_sem pf) (fc_ota (pf_cfg pf))" fw_ota "ota_view pf" pick_ota for pf
proof (rule machine_view.intro, goal_cases)
  case (1 i x)
  show ?case using ota_module.net_event_view [where pf = pf and x = x] machine_view.view_run [OF ota_view_button, of pf _ "pf_border pf" x]
    by (cases i) (simp_all add: fw_steps split_beta Let_def List.map_filter_simps map_filter_append concat_observers)
qed

subsection \<open>The link inside the application\<close>

fun net_event_of :: "fw_input \<Rightarrow> net_event option" where
  "net_event_of (Fw_net e) = Some e"
| "net_event_of _ = None"

text \<open>The messages that reach the Wi-Fi channel in a run, the link they leave, and the link as the driver last reported it.\<close>

definition fw_link_msgs :: "fw_input list \<Rightarrow> wifi_msg_type list" where
  "fw_link_msgs is = map event_msg (filter event_reached (List.map_filter net_event_of is))"

definition driver_link_up :: "fw_input list \<Rightarrow> bool" where
  "driver_link_up is = (case rev (List.map_filter net_event_of is) of [] \<Rightarrow> False | e # es \<Rightarrow> event_up e)"

definition fw_link_up :: "fw_input list \<Rightarrow> bool" where
  "fw_link_up is = link_after False (fw_link_msgs is)"

lemma fw_link_msgs_simps [simp]:
  "fw_link_msgs [] = []"
  "fw_link_msgs (i # is) = (case net_event_of i of Some e \<Rightarrow> if event_reached e then [event_msg e] else [] | None \<Rightarrow> []) @
     fw_link_msgs is"
  by (simp_all add: fw_link_msgs_def List.map_filter_simps split: option.splits)

lemma once_per_event:
  assumes "pf_ok pf"
  shows "deliveries (pf_order pf) ob (event_msgs pf e) = (if event_reached e then [event_msg e] else [])"
proof -
  have "ob \<in> set (pf_order pf)" "distinct (pf_order pf)" using assms by (simp_all add: pf_ok_def full_order_def)
  then show ?thesis using assms by (simp add: deliveries_once event_msgs_def pf_ok_def del: deliveries_append)
qed

text \<open>The two flags the core keeps of the link.\<close>

definition core_flags :: "('f, 'g, 'k) firmware \<Rightarrow> bool \<times> bool" where
  "core_flags x = (wifi_connected (csy_state (fw_core x)), network_ever_connected (csy_state (fw_core x)))"

definition link_flags :: "(wifi_msg_type, bool \<times> bool, unit) machine" where
  "link_flags m b = ((link_after (fst b) [m], snd b \<or> m = WIFI_STA_CONNECTED), [])"

lemma link_flags_run:
  "run_machine link_flags ms b = ((link_after (fst b) ms, snd b \<or> WIFI_STA_CONNECTED \<in> set ms), [])"
proof (induction ms arbitrary: b)
  case (Cons m ms)
  show ?case using Cons.IH [of "fst (link_flags m b)"] by (cases m) (auto simp: link_flags_def run_machine.simps(2))
qed simp

lemma core_handle_flags:
  "\<forall>m. i \<noteq> Core_in_wifi m \<Longrightarrow>
   wifi_connected (csy_state (fst (core_handle cfg fal fac i c))) = wifi_connected (csy_state c) \<and>
   network_ever_connected (csy_state (fst (core_handle cfg fal fac i c))) = network_ever_connected (csy_state c)"
  by (cases i) (auto simp: core_handle_def core_listener_defs log_freeze_work_fn_def split_beta Let_def)

lemma core_step_flags:
  "\<forall>m. i \<noteq> Core_in_wifi m \<Longrightarrow> core_flags (fst (fw_core_step pf i x)) = core_flags x"
  using core_handle_flags [of i "fc_core (pf_cfg pf)" "pf_log_area pf" "pf_cdr_area pf" "fw_core x"]
  by (simp add: core_flags_def fw_core_step_def split_beta Let_def)

lemma core_flags_frame [simp]:
  "core_flags (x\<lparr>fw_metrics := s\<rparr>) = core_flags x"
  "core_flags (fst (fw_https_step pf i x)) = core_flags x" "core_flags (fst (fw_mqtt_step pf j x)) = core_flags x"
  "core_flags (fst (fw_ota_step pf k x)) = core_flags x" "core_flags (fst (fw_cdr_step pf ev x)) = core_flags x"
  by (simp_all add: core_flags_def fw_steps split_beta Let_def)

interpretation core_module: wifi_module pf link_flags core_flags "\<lambda>_. None" Obs_core "\<lambda>m. m" for pf
proof (unfold_locales, goal_cases)
  case (1 ob' m x)
  have "core_flags (fst (fw_core_step pf (Core_in_wifi m) x)) = fst (link_flags m (core_flags x))"
    by (cases m) (auto simp: core_flags_def link_flags_def fw_core_step_def core_handle_def core_listener_defs split_beta Let_def)
  then show ?case by (cases ob') (simp_all add: link_flags_def)
qed (simp_all add: core_step_flags)

fun link_view :: "('f, 'g, 'k) platform \<Rightarrow> fw_input \<Rightarrow> wifi_msg_type list" where
  "link_view pf (Fw_net e) = deliveries (pf_order pf) Obs_core (event_msgs pf e)"
| "link_view pf _ = []"

lemma button_keeps_flags: "core_flags (fst (run_machine (fw_notify_button pf env msg) obs x)) = core_flags x"
proof (induction obs arbitrary: x)
  case (Cons ob obs)
  then show ?case by (cases ob) (simp_all add: core_step_flags)
qed simp

interpretation core_link_in_fw: machine_view "fw_step pf" link_flags core_flags "link_view pf" "\<lambda>_. None" for pf
proof (rule machine_view.intro, goal_cases)
  case (1 i x)
  show ?case using core_module.net_event_view [where pf = pf and x = x]
    by (cases i) (simp_all add: button_keeps_flags core_step_flags split_beta Let_def)
qed

text \<open>The clients: the flag of the MQTT client is written by its listener alone; the thread of the HTTPS client
  also clears its flag, when it cannot provision the certificates.\<close>

fun mqtt_wifi_of :: "mqtt_input \<Rightarrow> wifi_msg_type option" where
  "mqtt_wifi_of (Mqtt_wifi m) = Some m"
| "mqtt_wifi_of _ = None"

fun https_wifi_of :: "https_input \<Rightarrow> wifi_msg_type option" where
  "https_wifi_of (Https_wifi m) = Some m"
| "https_wifi_of _ = None"

lemma mqtt_thread_keeps_ready:
  assumes "app_mqtt_client_thread cfg env (ms_pc x) (ms_state x) = (pc, s, cs)"
  shows "mq_network_ready s = mq_network_ready (ms_state x) \<and>
    mq_has_seen_network_connection s = mq_has_seen_network_connection (ms_state x)"
proof (cases "ms_pc x")
  case (PC_connect_while r)
  obtain q s' cs' where b: "mqtt_do_connect_begin cfg env (ms_state x) = (q, s', cs')"
    by (cases "mqtt_do_connect_begin cfg env (ms_state x)")
  then show ?thesis
    using assms PC_connect_while mqtt_do_connect_begin_frame [OF b] by (auto split: mqtt_splits)
next
  case (PC_helper_connect r)
  then show ?thesis using assms by (auto simp: mqtt_do_connect_end_def Let_def split: mqtt_splits)
qed (use assms in \<open>auto simp: mqtt_const_defs mqtt_record_failed_attempt_def mqtt_publish_begin_def
       mqtt_publish_end_def Let_def split: mqtt_splits\<close>)

lemma mqtt_handle_link:
  assumes "mqtt_inv cfg x"
  shows "mq_network_ready (ms_state (fst (mqtt_handle cfg i x))) =
      link_after (mq_network_ready (ms_state x)) (List.map_filter mqtt_wifi_of [i]) \<and>
    mq_has_seen_network_connection (ms_state (fst (mqtt_handle cfg i x))) =
      (mq_has_seen_network_connection (ms_state x) \<or> WIFI_STA_CONNECTED \<in> set (List.map_filter mqtt_wifi_of [i]))"
proof (cases i)
  case (Mqtt_wifi m)
  then show ?thesis
    using mqtt_link.ready_run [of "ms_state x" "[m]"] mqtt_link.seen_run [of "ms_state x" "[m]"] assms
    by (auto simp: mqtt_handle_def mqtt_inv_def List.map_filter_simps split_beta)
next
  case (Mqtt_thread env)
  then show ?thesis using mqtt_thread_keeps_ready [of cfg env x]
    by (simp add: mqtt_handle_def List.map_filter_simps split: prod.split)
qed (auto simp: mqtt_handle_def List.map_filter_simps mqtt_callback_defs Let_def split: prod.splits if_splits)

lemma mqtt_run_link:
  assumes "mqtt_inv cfg x"
  shows "mq_network_ready (ms_state (fst (run_machine (mqtt_handle cfg) is x))) =
      link_after (mq_network_ready (ms_state x)) (List.map_filter mqtt_wifi_of is) \<and>
    mq_has_seen_network_connection (ms_state (fst (run_machine (mqtt_handle cfg) is x))) =
      (mq_has_seen_network_connection (ms_state x) \<or> WIFI_STA_CONNECTED \<in> set (List.map_filter mqtt_wifi_of is))"
  using assms
proof (induction "is" arbitrary: x)
  case (Cons i js)
  have "List.map_filter mqtt_wifi_of (i # js) = List.map_filter mqtt_wifi_of [i] @ List.map_filter mqtt_wifi_of js"
    by (simp add: List.map_filter_simps split: option.splits)
  then show ?case
    using Cons.IH [OF mqtt_handle_inv [OF Cons.prems]] mqtt_handle_link [OF Cons.prems, of i]
    by (simp add: link_after_append del: List.map_filter_simps)
qed (simp add: List.map_filter_simps)

lemma https_handle_link:
  "ht_network_ready (hs_state (fst (https_handle cfg i x))) \<longrightarrow>
     link_after (ht_network_ready (hs_state x)) (List.map_filter https_wifi_of [i])"
proof (cases i)
  case (Https_wifi m)
  then show ?thesis by (cases m) (auto simp: https_handle_def https_listener_defs List.map_filter_simps split: if_splits)
next
  case (Https_thread env)
  then show ?thesis
    by (cases "hs_pc x") (auto simp: send_http_request_frame https_handle_def https_record_failed_attempt_def Let_def
        List.map_filter_simps split: prod.splits if_splits option.splits)
qed

lemma https_run_link:
  "ht_network_ready (hs_state (fst (run_machine (https_handle cfg) is x))) \<longrightarrow>
     link_after (ht_network_ready (hs_state x)) (List.map_filter https_wifi_of is)"
proof (induction "is" arbitrary: x)
  case (Cons i js)
  have "List.map_filter https_wifi_of (i # js) = List.map_filter https_wifi_of [i] @ List.map_filter https_wifi_of js"
    by (simp add: List.map_filter_simps split: option.splits)
  then show ?case
    using Cons.IH [of "fst (https_handle cfg i x)"] link_after_mono [OF https_handle_link [of cfg i x]]
    by (simp add: link_after_append del: List.map_filter_simps)
qed (simp add: List.map_filter_simps)

text \<open>Under \<open>pf_ok\<close> each listener gets one message per event.\<close>

lemma fw_view_msgs:
  assumes "pf_ok pf"
  shows "concat (map (link_view pf) is) = fw_link_msgs is"
    "List.map_filter mqtt_wifi_of (concat (map (mqtt_view pf) is)) = fw_link_msgs is"
    "List.map_filter https_wifi_of (concat (map (https_view pf) is)) = fw_link_msgs is"
proof -
  note e = once_per_event [OF assms]
  have "link_view pf i = fw_link_msgs [i]" for i using e by (cases i) simp_all
  then show "concat (map (link_view pf) is) = fw_link_msgs is" by (induction "is") simp_all
  have "List.map_filter mqtt_wifi_of (mqtt_view pf i) = fw_link_msgs [i]" for i
    using e by (cases i) (simp_all add: List.map_filter_simps)
  then show "List.map_filter mqtt_wifi_of (concat (map (mqtt_view pf) is)) = fw_link_msgs is"
    by (induction "is") (simp_all add: map_filter_append List.map_filter_simps)
  have "List.map_filter https_wifi_of (https_view pf i) = fw_link_msgs [i]" for i
    using e by (cases i) (simp_all add: List.map_filter_simps)
  then show "List.map_filter https_wifi_of (concat (map (https_view pf) is)) = fw_link_msgs is"
    by (induction "is") (simp_all add: map_filter_append List.map_filter_simps)
qed

subsection \<open>The core inside the application\<close>

text \<open>
  The core, the recording it shares with the button channel and the SDK, and the upload semaphore form one unit:
  a step of the core, unless the upload thread is blocked on the semaphore, a call into the recording, or a
  heartbeat. The application runs the unit as it would run alone, over the inputs that \<open>unit_view\<close> selects.
\<close>

fun upload_blocked :: "'k ksem \<Rightarrow> core_input \<Rightarrow> upload_pc \<Rightarrow> 'k \<Rightarrow> bool" where
  "upload_blocked ks (Core_in_thread env) pc k = (pc = UP_take \<and> k_sem_count_get ks k = 0)"
| "upload_blocked ks _ pc k = False"

datatype unit_input = Unit_core core_input | Unit_cdr cdr_event | Unit_heartbeat core_env

fun core_unit :: "('f, 'g, 'k) platform \<Rightarrow> (unit_input, ('f, 'g) core_sys \<times> 'k, fw_call) machine" where
  "core_unit pf (Unit_core i) x =
     (if upload_blocked (pf_sem pf) i (csy_pc (fst x)) (snd x) then (x, [])
      else let (c, cs) = core_handle (fc_core (pf_cfg pf)) (pf_log_area pf) (pf_cdr_area pf) i (fst x)
           in ((c, upload_sem_after (pf_sem pf) (snd x) cs), map Fc_core cs))"
| "core_unit pf (Unit_cdr ev) x =
     (let w = csy_world (fst x);
          ((cdr, f), cs) = cdr_exec (pf_cdr_area pf) ev (cw_cdr w, cw_cdr_flash w)
      in (((fst x)\<lparr>csy_world := w\<lparr>cw_cdr := cdr, cw_cdr_flash := f\<rparr>\<rparr>, snd x), map Fc_cdr cs))"
| "core_unit pf (Unit_heartbeat env) x =
     (x, map Fc_core (memfault_metrics_heartbeat_collect_data (fc_core (pf_cfg pf)) env))"

definition fw_unit :: "('f, 'g, 'k) firmware \<Rightarrow> ('f, 'g) core_sys \<times> 'k" where
  "fw_unit x = (fw_core x, fw_upload_sem x)"

fun pick_core :: "fw_call \<Rightarrow> fw_call option" where
  "pick_core (Fc_core c) = Some (Fc_core c)"
| "pick_core (Fc_cdr c) = Some (Fc_cdr c)"
| "pick_core _ = None"

fun event_network :: "net_event \<Rightarrow> network_msg" where
  "event_network (Dhcp_bound rs mode mac ssid) = \<lparr>nm_type = NETWORK_READY, nm_ready = True\<rparr>"
| "event_network (Wifi_disconnect rs r) = \<lparr>nm_type = NETWORK_NOT_READY, nm_ready = False\<rparr>"

fun unit_button :: "fmac_env \<Rightarrow> button_msg \<Rightarrow> button_observer \<Rightarrow> unit_input list" where
  "unit_button env msg Bobs_core = [Unit_core (Core_in_button msg)]"
| "unit_button env msg Bobs_cdr = [Unit_cdr (Ev_button env msg)]"
| "unit_button env msg Bobs_ota = []"

fun unit_deliver :: "('f, 'g, 'k) platform \<Rightarrow> net_call \<Rightarrow> unit_input list" where
  "unit_deliver pf (Pub_WIFI_CHAN m r) =
     (if pub_reached r then replicate (count_list (pf_order pf) Obs_core) (Unit_core (Core_in_wifi m)) else [])"
| "unit_deliver pf (Pub_NETWORK_CHAN msg r) = (if pub_reached r then [Unit_core (Core_in_network msg)] else [])"
| "unit_deliver pf _ = []"

fun unit_view :: "('f, 'g, 'k) platform \<Rightarrow> fw_input \<Rightarrow> unit_input list" where
  "unit_view pf (Fw_net e) =
     map (\<lambda>m. Unit_core (Core_in_wifi m)) (deliveries (pf_order pf) Obs_core (event_msgs pf e)) @
     (if pub_reached (np_network (event_pubs e)) then [Unit_core (Core_in_network (event_network e))] else [])"
| "unit_view pf (Fw_button env msg) = concat (map (unit_button env msg) (pf_border pf))"
| "unit_view pf (Fw_upload_thread env) = [Unit_core (Core_in_thread env)]"
| "unit_view pf (Fw_freeze_work env) = [Unit_core (Core_in_work env)]"
| "unit_view pf Fw_sdk_has_cdr = [Unit_cdr Ev_has_cdr]"
| "unit_view pf (Fw_sdk_read_cdr off buf) = [Unit_cdr (Ev_read off buf)]"
| "unit_view pf Fw_sdk_mark_cdr_read = [Unit_cdr Ev_mark_read]"
| "unit_view pf (Fw_heartbeat env iface err status) = [Unit_heartbeat env]"
| "unit_view pf _ = []"

lemma pick_core_maps [simp]:
  "List.map_filter pick_core (map Fc_core cs) = map Fc_core cs" "List.map_filter pick_core (map Fc_cdr ds) = map Fc_cdr ds"
  "List.map_filter pick_core (map Fc_https hs) = []" "List.map_filter pick_core (map Fc_mqtt ms) = []"
  "List.map_filter pick_core (map Fc_ota os) = []" "List.map_filter pick_core (map Fc_wifi_metric ws) = []"
  "List.map_filter pick_core (map Fc_memonitor ns) = []"
  by (simp_all add: List.map_filter_def comp_def)

lemma unit_steps:
  "\<not> upload_blocked (pf_sem pf) i (csy_pc (fw_core x)) (fw_upload_sem x) \<Longrightarrow>
    core_unit pf (Unit_core i) (fw_unit x) = (fw_unit (fst (fw_core_step pf i x)), snd (fw_core_step pf i x))"
  "core_unit pf (Unit_cdr ev) (fw_unit x) = (fw_unit (fst (fw_cdr_step pf ev x)), snd (fw_cdr_step pf ev x))"
  by (simp_all add: fw_unit_def fw_core_step_def fw_cdr_step_def split_beta Let_def)

lemma unit_other_steps [simp]:
  "fw_unit (fst (fw_https_step pf hi x)) = fw_unit x" "List.map_filter pick_core (snd (fw_https_step pf hi x)) = []"
  "fw_unit (fst (fw_mqtt_step pf mi x)) = fw_unit x" "List.map_filter pick_core (snd (fw_mqtt_step pf mi x)) = []"
  "fw_unit (fst (fw_ota_step pf oi x)) = fw_unit x" "List.map_filter pick_core (snd (fw_ota_step pf oi x)) = []"
  "List.map_filter pick_core (snd (fw_core_step pf ci x)) = snd (fw_core_step pf ci x)"
  "List.map_filter pick_core (snd (fw_cdr_step pf ev x)) = snd (fw_cdr_step pf ev x)"
  "fw_unit (x\<lparr>fw_metrics := s\<rparr>) = fw_unit x"
  by (simp_all add: fw_unit_def fw_steps split_beta Let_def)

lemma unit_notified:
  "machine_view (fw_notify_wifi pf m) (core_unit pf) fw_unit (\<lambda>ob. if ob = Obs_core then [Unit_core (Core_in_wifi m)] else []) pick_core"
proof (rule machine_view.intro, goal_cases)
  case (1 i x)
  show ?case by (cases i) (simp_all add: unit_steps del: core_unit.simps)
qed

lemma unit_clicked:
  "machine_view (fw_notify_button pf env msg) (core_unit pf) fw_unit (unit_button env msg) pick_core"
proof (rule machine_view.intro, goal_cases)
  case (1 i x)
  show ?case by (cases i) (simp_all add: unit_steps del: core_unit.simps)
qed

lemma unit_delivered: "machine_view (fw_deliver pf) (core_unit pf) fw_unit (unit_deliver pf) pick_core"
proof (rule machine_view.intro, goal_cases)
  case (1 c x)
  show ?case using machine_view.view_run [OF unit_notified, of pf _ "pf_order pf" x]
    by (cases c) (simp_all add: unit_steps concat_observers List.map_filter_simps del: core_unit.simps)
qed

lemma unit_net_event:
  "run_machine (core_unit pf) (unit_view pf (Fw_net e)) (fw_unit x) =
    (fw_unit (fst (fw_net_event pf e x)), List.map_filter pick_core (snd (fw_net_event pf e x)))"
proof -
  have metrics: "concat (map (\<lambda>c. unit_deliver pf (Net_metric c)) ms) = []" for ms by (induction ms) simp_all
  have warn: "c \<in> set (warn_failed ch r) \<Longrightarrow> unit_deliver pf c = []" for c ch r by (auto simp: warn_failed_def split: if_splits)
  have warns: "concat (map (unit_deliver pf) (warn_failed ch r)) = []" for ch r by (simp add: warn_failed_def)
  have nothing: "concat (map (\<lambda>y. []) ys) = []" for ys :: "wm_call list" by simp
  show ?thesis
  proof (cases e)
    case (Dhcp_bound rs mode mac ssid)
    let ?r = "zego_on_net_event_dhcp_bound (fc_net (pf_cfg pf)) rs mode mac ssid (fw_metrics x)"
    have "concat (map (unit_deliver pf) (snd ?r)) = unit_view pf (Fw_net e)"
      by (simp add: zego_on_net_event_dhcp_bound_def split_beta Let_def comp_def metrics nothing warn warns event_msgs_def Dhcp_bound)
    then show ?thesis
      using machine_view.view_run [OF unit_delivered, of pf "snd ?r" "x\<lparr>fw_metrics := fst ?r\<rparr>"] Dhcp_bound
      by (simp add: fw_net_event_def split_beta)
  next
    case (Wifi_disconnect rs r)
    let ?cs = "zego_on_net_event_wifi_disconnect (fc_net (pf_cfg pf)) rs r"
    have "concat (map (unit_deliver pf) ?cs) = unit_view pf (Fw_net e)"
      by (auto simp: zego_on_net_event_wifi_disconnect_def warn warns event_msgs_def Wifi_disconnect)
    then show ?thesis
      using machine_view.view_run [OF unit_delivered, of pf ?cs x] Wifi_disconnect by (simp add: fw_net_event_def)
  qed
qed

interpretation core_in_fw: machine_view "fw_step pf" "core_unit pf" fw_unit "unit_view pf" pick_core for pf
proof (rule machine_view.intro, goal_cases)
  case (1 i x)
  show ?case
  proof (cases i)
    case (Fw_net e)
    then show ?thesis using unit_net_event [of pf e x] by (simp del: unit_view.simps)
  next
    case (Fw_button env msg)
    then show ?thesis using machine_view.view_run [OF unit_clicked, of pf env msg "pf_border pf" x] by simp
  next
    case (Fw_upload_thread env)
    then show ?thesis
      by (cases "upload_blocked (pf_sem pf) (Core_in_thread env) (csy_pc (fw_core x)) (fw_upload_sem x)")
        (auto simp: fw_unit_def fw_core_step_def split_beta Let_def List.map_filter_simps)
  qed (simp_all add: unit_steps map_filter_append split_beta Let_def List.map_filter_simps del: core_unit.simps(1,2))
qed

lemma core_unit_run:
  assumes "run_machine (fw_step pf) is x = (y, cs)"
  shows "run_machine (core_unit pf) (concat (map (unit_view pf) is)) (fw_unit x) = (fw_unit y, List.map_filter pick_core cs)"
  using core_in_fw.view_run [of pf "is" x] assms by simp

subsection \<open>Invariants and the time before the first connection\<close>

lemma unit_core_inv: "core_inv (fst x) \<Longrightarrow> core_inv (fst (fst (core_unit pf u x)))"
  using core_handle_inv [of "fst x" "fc_core (pf_cfg pf)" "pf_log_area pf" "pf_cdr_area pf"]
  by (cases u) (auto simp: split_beta Let_def core_inv_def)

lemma core_handle_cdr_inv:
  assumes "flash_ok img fac" "cdr_inv (cw_cdr (csy_world c))"
  shows "cdr_inv (cw_cdr (csy_world (fst (core_handle cfg fal fac i c))))"
proof -
  let ?w = "csy_world c"
  have p: "cdr_inv (fst (snd (mflt_nrf70_fw_stats_cdr_persist_to_flash fac env (cw_cdr ?w) (cw_cdr_flash ?w))))" for env
    using cdr_exec_inv [OF assms(1), of "(cw_cdr ?w, cw_cdr_flash ?w)" "Ev_persist env"] assms(2)
    by (simp add: split_beta)
  have r: "cdr_inv (fst (snd (mflt_nrf70_fw_stats_cdr_restore_from_flash fac (cw_cdr ?w) (cw_cdr_flash ?w))))"
    using cdr_exec_inv [OF assms(1), of "(cw_cdr ?w, cw_cdr_flash ?w)" Ev_restore] assms(2) by (simp add: split_beta)
  have o: "cdr_inv (cw_cdr (fst (on_connect cfg fal fac env ?w)))" for env
    using r assms(2) by (auto simp: on_connect_def split_beta Let_def)
  show ?thesis
  proof (cases i)
    case (Core_in_thread env)
    then show ?thesis using assms(2) o [of env] by (cases "csy_pc c") (auto simp: core_handle_def split_beta Let_def)
  next
    case (Core_in_work env)
    then show ?thesis using assms(2) p [of env] by (auto simp: core_handle_def log_freeze_work_fn_def split_beta Let_def)
  qed (use assms(2) in \<open>auto simp: core_handle_def split_beta Let_def\<close>)
qed

lemma unit_cdr_inv:
  assumes "flash_ok img (pf_cdr_area pf)" "cdr_inv (cw_cdr (csy_world (fst x)))"
  shows "cdr_inv (cw_cdr (csy_world (fst (fst (core_unit pf u x)))))"
  using assms(2) core_handle_cdr_inv [OF assms(1), of "fst x" "fc_core (pf_cfg pf)" "pf_log_area pf"]
    cdr_exec_inv [OF assms(1), of "(cw_cdr (csy_world (fst x)), cw_cdr_flash (csy_world (fst x)))"]
  by (cases u) (auto simp: split_beta Let_def)

text \<open>Calls that put something on the network, or read or write a persisted snapshot.\<close>

fun fw_traffic :: "fw_call \<Rightarrow> bool" where
  "fw_traffic (Fc_https c) = (case c of Https_sem_take t \<Rightarrow> False | _ \<Rightarrow> True)"
| "fw_traffic (Fc_mqtt c) = (case c of Mqtt_getaddrinfo h \<Rightarrow> True | Mqtt_helper_connect h d \<Rightarrow> True
     | Mqtt_helper_publish n t p \<Rightarrow> True | _ \<Rightarrow> False)"
| "fw_traffic (Fc_core c) = (case c of Core_getaddrinfo h p \<Rightarrow> True | Core_post_data \<Rightarrow> True | Core_log_call l \<Rightarrow> True
     | Core_cdr_call r \<Rightarrow> True | Core_log_trigger_collection \<Rightarrow> True | Core_work_schedule d \<Rightarrow> True
     | Core_upload_sem_give \<Rightarrow> True | Core_upload_sem_take \<Rightarrow> True | _ \<Rightarrow> False)"
| "fw_traffic _ = False"

definition core_offline :: "'k ksem \<Rightarrow> ('f, 'g) core_world \<Rightarrow> ('f, 'g) core_sys \<Rightarrow> 'k \<Rightarrow> bool" where
  "core_offline ks w c k \<longleftrightarrow> \<not> wifi_connected (csy_state c) \<and> \<not> network_ever_connected (csy_state c) \<and>
     \<not> csy_pending c \<and> csy_pc c = UP_take \<and> k_sem_count_get ks k = 0 \<and>
     cw_log_flash (csy_world c) = cw_log_flash w \<and>
     cw_cdr_flash (csy_world c) = cw_cdr_flash w"

text \<open>What the unit sees before the first connection: no connected message, and of the recording only the
  button and the reader.\<close>

fun fw_cdr_event :: "cdr_event \<Rightarrow> bool" where
  "fw_cdr_event (Ev_button env msg) = True"
| "fw_cdr_event Ev_has_cdr = True"
| "fw_cdr_event (Ev_read off buf) = True"
| "fw_cdr_event Ev_mark_read = True"
| "fw_cdr_event _ = False"

fun unit_offline_input :: "unit_input \<Rightarrow> bool" where
  "unit_offline_input (Unit_core i) = (i \<noteq> Core_in_wifi WIFI_STA_CONNECTED)"
| "unit_offline_input (Unit_cdr ev) = fw_cdr_event ev"
| "unit_offline_input (Unit_heartbeat env) = True"

lemma unit_offline_step:
  assumes "core_offline (pf_sem pf) w (fst x) (snd x)" "unit_offline_input u"
  shows "core_offline (pf_sem pf) w (fst (fst (core_unit pf u x))) (snd (fst (core_unit pf u x))) \<and>
    list_all (\<lambda>c. \<not> fw_traffic c) (snd (core_unit pf u x))"
proof (cases u)
  case (Unit_core i)
  then show ?thesis using assms
    by (cases i) (auto simp: core_offline_def core_handle_def core_listener_defs memfault_button_listener_def Let_def
        split: wifi_msg_type.splits)
next
  case (Unit_cdr ev)
  then show ?thesis using assms
    by (cases ev) (auto simp: core_offline_def split_beta Let_def list_all_iff)
qed (use assms in \<open>simp add: memfault_metrics_heartbeat_collect_data_def\<close>)

definition https_offline :: "https_system \<Rightarrow> bool" where
  "https_offline x \<longleftrightarrow> hs_pc x \<in> {HC_while_running, HC_sem_take, HC_after_sem} \<and> hs_state x = hs_state https_initial"

lemma https_offline_step:
  assumes "https_offline x" "i \<noteq> Https_wifi WIFI_STA_CONNECTED"
  shows "https_offline (fst (https_handle cfg i x)) \<and> list_all (\<lambda>c. \<not> fw_traffic (Fc_https c)) (snd (https_handle cfg i x))"
proof (cases i)
  case (Https_wifi m)
  then show ?thesis using assms
    by (cases m) (auto simp: https_offline_def https_handle_def https_listener_defs https_initial_def
        app_https_client_init_def https_boot_state_def)
next
  case (Https_thread env)
  then show ?thesis using assms(1)
    by (auto simp: https_offline_def https_handle_def https_initial_def app_https_client_init_def https_boot_state_def
        split_beta split: if_splits)
qed

definition mqtt_offline :: "mqtt_system \<Rightarrow> bool" where
  "mqtt_offline x \<longleftrightarrow> ms_pc x \<in> {PC_helper_init, PC_while_running, PC_sem_take, PC_after_sem, PC_exit} \<and>
     \<not> mq_network_ready (ms_state x) \<and> \<not> mq_has_seen_network_connection (ms_state x)"

lemma mqtt_offline_step:
  assumes "mqtt_offline x" "i \<noteq> Mqtt_wifi WIFI_STA_CONNECTED"
  shows "mqtt_offline (fst (mqtt_handle cfg i x)) \<and> list_all (\<lambda>c. \<not> fw_traffic (Fc_mqtt c)) (snd (mqtt_handle cfg i x))"
proof (cases i)
  case (Mqtt_thread env)
  then show ?thesis using assms(1)
    by (auto simp: mqtt_offline_def mqtt_handle_def split_beta split: if_splits)
next
  case (Mqtt_wifi m)
  then show ?thesis using assms by (cases m) (auto simp: mqtt_offline_def mqtt_handle_def mqtt_callback_defs split_beta Let_def)
qed (use assms(1) in \<open>auto simp: mqtt_offline_def mqtt_handle_def mqtt_callback_defs Let_def split: if_splits\<close>)

lemma picked:
  "Fc_https c \<in> set cs \<Longrightarrow> c \<in> set (List.map_filter pick_https cs)"
  "Fc_mqtt d \<in> set cs \<Longrightarrow> d \<in> set (List.map_filter pick_mqtt cs)"
  "Fc_core e \<in> set cs \<Longrightarrow> Fc_core e \<in> set (List.map_filter pick_core cs)"
  by (force simp: set_map_filter)+

subsection \<open>A sample application\<close>

definition sample_pf :: "(byte list, byte list, bool) platform" where
  "sample_pf =
     \<lparr>pf_cfg = \<lparr>fc_https = https_default_cfg, fc_mqtt = prj_mqtt_cfg, fc_core = core_default_cfg,
        fc_ota = ota_default_cfg, fc_net = \<lparr>nc_wifi_ble_prov = True, nc_ntp = False\<rparr>, fc_memonitor = memonitor_sample_cfg\<rparr>,
      pf_log_area = ram_flash 64, pf_cdr_area = ram_flash 2048, pf_sem = bool_sem,
      pf_order = [Obs_ota, Obs_core, Obs_https, Obs_mqtt], pf_border = [Bobs_cdr, Bobs_core, Bobs_ota]\<rparr>"

lemma sample_pf_ok: "pf_ok sample_pf"
  by (simp add: pf_ok_def sample_pf_def full_order_def UNIV_enum enum_wifi_observer_def enum_button_observer_def) auto

definition pubs_ok :: net_pubs where
  "pubs_ok = \<lparr>np_wifi = Pub_ok, np_network = Pub_ok, np_ux = Pub_ok, np_ntp = Pub_ok\<rparr>"

text \<open>The Wi-Fi channel stays taken for longer than the 100 ms.\<close>

definition pubs_wifi_busy :: net_pubs where
  "pubs_wifi_busy = pubs_ok\<lparr>np_wifi := Pub_err (- EAGAIN) False\<rparr>"

lemma pubs_samples [simp]:
  "np_wifi pubs_ok = Pub_ok" "np_network pubs_ok = Pub_ok" "np_wifi pubs_wifi_busy = Pub_err (- EAGAIN) False"
  "np_network pubs_wifi_busy = Pub_ok"
  by (simp_all add: pubs_ok_def pubs_wifi_busy_def)

definition sample_inputs :: "fw_input list" where
  "sample_inputs =
     [Fw_net (Wifi_disconnect pubs_ok True), Fw_https_thread https_broken_pipe_env, Fw_mqtt_thread mqtt_env_ok,
      Fw_net (Dhcp_bound pubs_ok ZEGO_WIFI_MODE_STA (Some ''f4:ce:36:00:00:01'') (Some ''lab'')),
      Fw_button \<lparr>rpu_ctx_present = True, fmac_stats_success = True, fmac_stats_fw = [7]\<rparr>
        \<lparr>bm_type = BUTTON_SINGLE_CLICK, bm_button_number = 0\<rparr>,
      Fw_ota_thread 0, Fw_sdk_has_cdr,
      Fw_memonitor (0, []) (0, [\<lparr>mt_name = ''main'', mt_stack_size = 1024, mt_stack_hwm = 324\<rparr>])]"

subsection \<open>Properties of the whole application\<close>

text \<open>The connectivity the core reports to Memfault.\<close>

fun pick_connectivity :: "fw_call \<Rightarrow> connectivity_state option" where
  "pick_connectivity (Fc_core (Core_connectivity_state_change st)) = Some st"
| "pick_connectivity _ = None"

fun event_connectivity :: "net_event \<Rightarrow> connectivity_state" where
  "event_connectivity (Dhcp_bound rs mode mac ssid) = Connectivity_Connected"
| "event_connectivity (Wifi_disconnect rs r) = Connectivity_ConnectionLost"

fun unit_connectivity :: "unit_input \<Rightarrow> connectivity_state list" where
  "unit_connectivity (Unit_core (Core_in_wifi WIFI_STA_CONNECTED)) = [Connectivity_Connected]"
| "unit_connectivity (Unit_core (Core_in_wifi WIFI_STA_DISCONNECTED)) = [Connectivity_ConnectionLost]"
| "unit_connectivity _ = []"

lemma connectivity_of_core: "List.map_filter pick_connectivity (List.map_filter pick_core cs) = List.map_filter pick_connectivity cs"
proof (induction cs)
  case (Cons c cs)
  then show ?case by (cases c) (simp_all add: List.map_filter_simps split: option.split)
qed (simp add: List.map_filter_simps)

lemma no_connectivity [simp]:
  "List.map_filter pick_connectivity (map Fc_cdr ds) = []"
  "List.map_filter pick_connectivity (map (\<lambda>c. Fc_core (Core_cdr_call c)) ds) = []"
  "List.map_filter pick_connectivity (map (\<lambda>c. Fc_core (Core_log_call c)) ls) = []"
  by (simp_all add: List.map_filter_def comp_def)

lemma unit_connectivity_step:
  "List.map_filter pick_connectivity (snd (core_unit pf u x)) = unit_connectivity u"
proof (cases u)
  case (Unit_core i)
  then show ?thesis
  proof (cases i)
    case (Core_in_thread env)
    then show ?thesis using Unit_core
      by (cases "csy_pc (fst x)") (auto simp: core_handle_def core_check_dns_ready_def on_connect_def split_beta Let_def
          List.map_filter_simps map_filter_append comp_def)
  next
    case (Core_in_wifi m)
    then show ?thesis using Unit_core
      by (cases m) (auto simp: core_handle_def core_listener_defs Let_def List.map_filter_simps)
  qed (auto simp: core_handle_def core_listener_defs memfault_button_listener_def log_freeze_work_fn_def split_beta Let_def
        List.map_filter_simps comp_def)
qed (auto simp: split_beta Let_def memfault_metrics_heartbeat_collect_data_def List.map_filter_simps)

lemma unit_connectivity_run:
  "List.map_filter pick_connectivity (snd (run_machine (core_unit pf) us x)) = concat (map unit_connectivity us)"
  by (induction us arbitrary: x) (simp_all add: unit_connectivity_step map_filter_append List.map_filter_simps)

lemma unit_connectivity_view:
  assumes "pf_ok pf"
  shows "concat (map unit_connectivity (unit_view pf i)) =
    (case net_event_of i of Some e \<Rightarrow> if event_reached e then [event_connectivity e] else [] | None \<Rightarrow> [])"
proof (cases i)
  case (Fw_net e)
  then show ?thesis using once_per_event [OF assms, of Obs_core e] by (cases e) simp_all
next
  case (Fw_button env msg)
  have "concat (map unit_connectivity (unit_button env msg ob)) = []" for ob by (cases ob) simp_all
  then have "concat (map unit_connectivity (concat (map (unit_button env msg) obs))) = []" for obs
    by (induction obs) simp_all
  then show ?thesis using Fw_button by simp
qed simp_all

text \<open>The warnings about a message that could not be put on the Wi-Fi channel.\<close>

fun pick_wifi_warning :: "fw_call \<Rightarrow> int option" where
  "pick_wifi_warning (Fc_net (Net_log_pub_failed WIFI_CHAN err)) = Some err"
| "pick_wifi_warning _ = None"

lemma no_wifi_warning [simp]:
  "List.map_filter pick_wifi_warning (map Fc_https hs) = []" "List.map_filter pick_wifi_warning (map Fc_mqtt ms) = []"
  "List.map_filter pick_wifi_warning (map Fc_core cs) = []" "List.map_filter pick_wifi_warning (map Fc_ota os) = []"
  "List.map_filter pick_wifi_warning (map Fc_cdr ds) = []" "List.map_filter pick_wifi_warning (map Fc_wifi_metric ws) = []"
  "List.map_filter pick_wifi_warning (map Fc_memonitor ns) = []"
  by (simp_all add: List.map_filter_def comp_def)

lemma warning_steps [simp]:
  "List.map_filter pick_wifi_warning (snd (fw_https_step pf hi x)) = []" "List.map_filter pick_wifi_warning (snd (fw_mqtt_step pf mi x)) = []"
  "List.map_filter pick_wifi_warning (snd (fw_ota_step pf oi x)) = []" "List.map_filter pick_wifi_warning (snd (fw_core_step pf ci x)) = []"
  "List.map_filter pick_wifi_warning (snd (fw_cdr_step pf ev x)) = []"
  by (simp_all add: fw_steps split_beta Let_def)

lemma warning_notify [simp]:
  "List.map_filter pick_wifi_warning (snd (run_machine (fw_notify_wifi pf m) obs x)) = []"
  "List.map_filter pick_wifi_warning (snd (run_machine (fw_notify_button pf env msg) bobs x)) = []"
proof -
  have "List.map_filter pick_wifi_warning (snd (fw_notify_wifi pf m ob y)) = []" for ob y by (cases ob) simp_all
  then show "List.map_filter pick_wifi_warning (snd (run_machine (fw_notify_wifi pf m) obs x)) = []"
    by (induction obs arbitrary: x) (simp_all add: map_filter_append List.map_filter_simps)
  have "List.map_filter pick_wifi_warning (snd (fw_notify_button pf env msg ob y)) = []" for ob y by (cases ob) simp_all
  then show "List.map_filter pick_wifi_warning (snd (run_machine (fw_notify_button pf env msg) bobs x)) = []"
    by (induction bobs arbitrary: x) (simp_all add: map_filter_append List.map_filter_simps)
qed

lemma warning_deliver: "List.map_filter pick_wifi_warning (snd (run_machine (fw_deliver pf) cs x)) = failed_pubs WIFI_CHAN cs"
proof (induction cs arbitrary: x)
  case (Cons c cs)
  have "List.map_filter pick_wifi_warning (snd (fw_deliver pf c x)) = failed_pubs WIFI_CHAN [c]"
  proof (cases c)
    case (Net_log_pub_failed ch err)
    then show ?thesis by (cases ch) (simp_all add: List.map_filter_simps)
  qed (simp_all add: List.map_filter_simps)
  then show ?case using Cons failed_pubs_append [of WIFI_CHAN "[c]" cs] by (simp add: map_filter_append)
qed (simp add: List.map_filter_simps)

definition event_warning :: "net_event \<Rightarrow> int list" where
  "event_warning e = (let err = pub_err (np_wifi (event_pubs e)) in if err \<noteq> 0 then [err] else [])"

lemma warning_step:
  assumes "pf_ok pf"
  shows "List.map_filter pick_wifi_warning (snd (fw_step pf i x)) = (case net_event_of i of Some e \<Rightarrow> event_warning e | None \<Rightarrow> [])"
proof (cases i)
  case (Fw_net e)
  then show ?thesis using assms dhcp_bound_pubs(3) wifi_disconnect_pubs(3)
    by (cases e) (simp_all add: fw_net_event_def split_beta warning_deliver pf_ok_def event_warning_def Let_def)
qed (auto simp: split_beta Let_def map_filter_append List.map_filter_simps)


definition lossy_inputs :: "fw_input list" where
  "lossy_inputs = [Fw_net (Dhcp_bound pubs_ok ZEGO_WIFI_MODE_STA None None), Fw_net (Wifi_disconnect pubs_wifi_busy True)]"


text \<open>
  The order in which zbus runs the listeners of a channel cannot be observed. Two builds that differ only
  in the order of the listeners of the Wi-Fi and of the button channel reach the same state of the whole
  application over any sequence of inputs and make the same calls, the same number of times.
\<close>

lemma firmware_order_irrelevant:
  assumes "same_listeners pf pf'"
  shows "fst (run_machine (fw_step pf) is x) = fst (run_machine (fw_step pf') is x) \<and>
    mset (snd (run_machine (fw_step pf) is x)) = mset (snd (run_machine (fw_step pf') is x))"
  by (rule run_machine_same) (rule same_listeners_step [OF assms])

lemma driver_link_if_reached:
  assumes "list_all event_reached (List.map_filter net_event_of is)"
  shows "fw_link_up is = driver_link_up is"
proof (cases "List.map_filter net_event_of is" rule: rev_cases)
  case (snoc es e)
  have "filter event_reached (es @ [e]) = es @ [e]" using assms snoc by (simp add: list_all_iff)
  then have "fw_link_msgs is = map event_msg es @ [event_msg e]" using snoc by (simp add: fw_link_msgs_def)
  then show ?thesis using snoc by (cases e) (simp_all add: fw_link_up_def driver_link_up_def link_after_append)
qed (simp add: fw_link_up_def fw_link_msgs_def driver_link_up_def)

lemma firmware_link_state:
  assumes "pf_ok pf" and "run_machine (fw_step pf) is (fw_boot pf w sem0) = (x, cs)"
  shows "wifi_connected (csy_state (fw_core x)) = fw_link_up is" "mq_network_ready (ms_state (fw_mqtt x)) = fw_link_up is"
    "ht_network_ready (hs_state (fw_https x)) \<longrightarrow> fw_link_up is"
    "network_ever_connected (csy_state (fw_core x)) = (WIFI_STA_CONNECTED \<in> set (fw_link_msgs is))"
    "mq_has_seen_network_connection (ms_state (fw_mqtt x)) = (WIFI_STA_CONNECTED \<in> set (fw_link_msgs is))"
proof -
  let ?b = "fw_boot pf w sem0" and ?m = "mqtt_handle (fc_mqtt (pf_cfg pf))"
  note v = fw_view_msgs [OF assms(1), of "is"]
  have c: "core_flags x = (fw_link_up is, WIFI_STA_CONNECTED \<in> set (fw_link_msgs is))"
    using core_link_in_fw.view_run [of pf "is" ?b] assms(2) v(1)
    by (simp add: link_flags_run fw_link_up_def core_flags_def fw_boot_def core_initial_def core_boot_state_def)
  have m: "mq_network_ready (ms_state (fw_mqtt x)) = fw_link_up is \<and>
      mq_has_seen_network_connection (ms_state (fw_mqtt x)) = (WIFI_STA_CONNECTED \<in> set (fw_link_msgs is))"
    using mqtt_in_fw.view_run [of pf "is" ?b] mqtt_run_link [OF mqtt_initial_inv, of "fc_mqtt (pf_cfg pf)" "concat (map (mqtt_view pf) is)"]
      assms(2) v(2)
    by (simp add: fw_link_up_def fw_boot_def mqtt_initial_def app_mqtt_client_init_def mqtt_boot_state_def)
  have h: "ht_network_ready (hs_state (fw_https x)) \<longrightarrow> fw_link_up is"
    using https_in_fw.view_run [of pf "is" ?b] https_run_link [of "fc_https (pf_cfg pf)" "concat (map (https_view pf) is)" https_initial]
      assms(2) v(3)
    by (simp add: fw_link_up_def fw_boot_def https_initial_def app_https_client_init_def https_boot_state_def)
  show "wifi_connected (csy_state (fw_core x)) = fw_link_up is" "mq_network_ready (ms_state (fw_mqtt x)) = fw_link_up is"
    "ht_network_ready (hs_state (fw_https x)) \<longrightarrow> fw_link_up is"
    "network_ever_connected (csy_state (fw_core x)) = (WIFI_STA_CONNECTED \<in> set (fw_link_msgs is))"
    "mq_has_seen_network_connection (ms_state (fw_mqtt x)) = (WIFI_STA_CONNECTED \<in> set (fw_link_msgs is))"
    using c m h by (simp_all add: core_flags_def)
qed

text \<open>
  C14: the modules agree on the network, whatever happens and whatever publications fail. After any interleaving of
  driver events with buttons, thread transitions, callbacks, heartbeats and delayed work, in any order of the listeners, the
  Memfault core and the MQTT client see the link up exactly when the last message that got through on the Wi-Fi
  channel was an address, both remember whether there ever was one, and the HTTPS client never takes a lost link
  for a working one. When every publication got through this is the link as the driver last reported it.
\<close>

theorem firmware_link_agreement:
  assumes "pf_ok pf" and "run_machine (fw_step pf) is (fw_boot pf w sem0) = (x, cs)"
  shows "wifi_connected (csy_state (fw_core x)) = fw_link_up is \<and> mq_network_ready (ms_state (fw_mqtt x)) = fw_link_up is \<and>
    (ht_network_ready (hs_state (fw_https x)) \<longrightarrow> fw_link_up is) \<and>
    network_ever_connected (csy_state (fw_core x)) = (WIFI_STA_CONNECTED \<in> set (fw_link_msgs is)) \<and>
    mq_has_seen_network_connection (ms_state (fw_mqtt x)) = (WIFI_STA_CONNECTED \<in> set (fw_link_msgs is)) \<and>
    (list_all event_reached (List.map_filter net_event_of is) \<longrightarrow> fw_link_up is = driver_link_up is)"
  using firmware_link_state [OF assms] driver_link_if_reached [of "is"] by blast

theorem firmware_link_agreement_witness:
  "\<exists>x. fst (run_machine (fw_step sample_pf) sample_inputs (fw_boot sample_pf core_sample_world False)) = x \<and>
     wifi_connected (csy_state (fw_core x)) \<and> mq_network_ready (ms_state (fw_mqtt x)) \<and> driver_link_up sample_inputs"
  using firmware_link_agreement [OF sample_pf_ok, of sample_inputs core_sample_world False, OF prod.collapse [symmetric]]
  by (simp add: fw_link_up_def driver_link_up_def sample_inputs_def List.map_filter_simps)

text \<open>A loss whose message did not get through within its 100 ms is not published again: the modules go on as if connected.\<close>

lemma firmware_stale_link:
  assumes "run_machine (fw_step sample_pf) lossy_inputs (fw_boot sample_pf core_sample_world False) = (x, cs)"
  shows "wifi_connected (csy_state (fw_core x)) \<and> mq_network_ready (ms_state (fw_mqtt x)) \<and> \<not> driver_link_up lossy_inputs"
  using firmware_link_state(1,2) [OF sample_pf_ok assms]
  by (simp add: lossy_inputs_def fw_link_up_def driver_link_up_def List.map_filter_simps)

text \<open>
  C19: the invariants of all modules hold together in every state the application can reach, on a flash
  driver and semaphores that behave as documented: the HTTPS thread is at a legal point with its
  certificates provisioned, the MQTT buffers and counters are in range, the guard of the persist work
  mirrors the work, the recorded statistics fit their buffer and are announced only when there are some,
  and a flagged OTA trigger has a thread that will serve it.
\<close>

theorem firmware_invariant:
  assumes "ksem_ok (pf_sem pf)" and "flash_ok img (pf_cdr_area pf)" and "cdr_inv (cw_cdr w)"
    and "run_machine (fw_step pf) is (fw_boot pf w sem0) = (x, cs)"
  shows "https_inv (fw_https x) (List.map_filter pick_https cs) \<and> mqtt_inv (fc_mqtt (pf_cfg pf)) (fw_mqtt x) \<and>
    core_inv (fw_core x) \<and> cdr_inv (cw_cdr (csy_world (fw_core x))) \<and> ota_inv (pf_sem pf) (fw_ota x)"
proof (intro conjI)
  let ?b = "fw_boot pf w sem0"
  have "run_machine (https_handle (fc_https (pf_cfg pf))) (concat (map (https_view pf) is)) https_initial =
      (fw_https x, List.map_filter pick_https cs)"
    using https_in_fw.view_run [of pf "is" ?b] assms(4) by (simp add: fw_boot_def)
  from https_run_reachable [OF https_reach_init this] https_reachable_inv
  show "https_inv (fw_https x) (List.map_filter pick_https cs)" by fastforce
  show "mqtt_inv (fc_mqtt (pf_cfg pf)) (fw_mqtt x)"
    using mqtt_in_fw.view_run [of pf "is" ?b] assms(4)
      run_machine_inv [of "mqtt_inv (fc_mqtt (pf_cfg pf))" "mqtt_handle (fc_mqtt (pf_cfg pf))" _
        "concat (map (mqtt_view pf) is)", OF mqtt_handle_inv mqtt_initial_inv]
    by (simp add: fw_boot_def)
  have b: "core_inv (core_initial w)" by (simp add: core_inv_def core_initial_def core_boot_state_def)
  note unit = core_unit_run [OF assms(4)]
  show "core_inv (fw_core x)"
    using run_machine_inv [of "\<lambda>u. core_inv (fst u)" "core_unit pf" "fw_unit ?b" "concat (map (unit_view pf) is)",
        OF unit_core_inv] b unit by (simp add: fw_unit_def fw_boot_def)
  show "cdr_inv (cw_cdr (csy_world (fw_core x)))"
    using run_machine_inv [of "\<lambda>u. cdr_inv (cw_cdr (csy_world (fst u)))" "core_unit pf" "fw_unit ?b"
        "concat (map (unit_view pf) is)", OF unit_cdr_inv [OF assms(2)]] assms(3) unit
    by (simp add: fw_unit_def fw_boot_def core_initial_def)
  have "ota_inv (pf_sem pf) (ota_boot sem0)" by (simp add: ota_inv_def ota_boot_def)
  then show "ota_inv (pf_sem pf) (fw_ota x)"
    using ota_in_fw.view_run [of pf "is" ?b] assms(4)
      run_machine_inv [of "ota_inv (pf_sem pf)" "ota_handle (pf_sem pf) (fc_ota (pf_cfg pf))" "ota_boot sem0"
        "concat (map (ota_view pf) is)", OF ota_handle_inv [OF assms(1)]]
    by (simp add: fw_boot_def)
qed

theorem firmware_invariant_witness:
  "cdr_inv (cw_cdr (csy_world (fw_core (fst (run_machine (fw_step sample_pf) sample_inputs
     (fw_boot sample_pf core_sample_world False))))))"
proof -
  have "ksem_ok (pf_sem sample_pf)" "flash_ok (ram_image 2048) (pf_cdr_area sample_pf)" "cdr_inv (cw_cdr core_sample_world)"
    using bool_sem_ok ram_flash_ok [of 2048] cdr_boot_inv by (simp_all add: sample_pf_def core_sample_world_def)
  from firmware_invariant [OF this, of sample_inputs False, OF prod.collapse [symmetric]] show ?thesis by blast
qed

definition never_up :: "fw_input list \<Rightarrow> bool" where
  "never_up is \<longleftrightarrow> list_all (\<lambda>i. case net_event_of i of Some e \<Rightarrow> \<not> event_up e | None \<Rightarrow> True) is"

lemma never_up_msgs:
  assumes "never_up is"
  shows "WIFI_STA_CONNECTED \<notin> set (fw_link_msgs is)"
    and "Https_wifi WIFI_STA_CONNECTED \<notin> set (concat (map (https_view pf) is))"
    and "Mqtt_wifi WIFI_STA_CONNECTED \<notin> set (concat (map (mqtt_view pf) is))"
proof -
  have ev: "event_msg e \<noteq> WIFI_STA_CONNECTED" if "Fw_net e \<in> set is" for e
    using assms that by (cases e) (auto simp: never_up_def list_all_iff split: option.splits)
  have del: "WIFI_STA_CONNECTED \<notin> set (deliveries obs ob (event_msgs pf e))" if "Fw_net e \<in> set is"
    for e ob and obs :: "wifi_observer list"
    using ev [OF that] by (auto simp: deliveries_def event_msgs_def split: if_splits)
  have "net_event_of i = Some e \<Longrightarrow> i = Fw_net e" for i e by (cases i) simp_all
  with ev show "WIFI_STA_CONNECTED \<notin> set (fw_link_msgs is)"
    by (fastforce simp: fw_link_msgs_def List.map_filter_def)
  have "Https_wifi WIFI_STA_CONNECTED \<notin> set (https_view pf i) \<and> Mqtt_wifi WIFI_STA_CONNECTED \<notin> set (mqtt_view pf i)"
    if "i \<in> set is" for i
    by (insert that del, cases i) auto
  then show "Https_wifi WIFI_STA_CONNECTED \<notin> set (concat (map (https_view pf) is))"
    "Mqtt_wifi WIFI_STA_CONNECTED \<notin> set (concat (map (mqtt_view pf) is))" by auto
qed

lemma clients_silent:
  assumes "never_up is" "run_machine (fw_step pf) is (fw_boot pf w sem0) = (x, cs)"
  shows "https_offline (fw_https x) \<and> list_all (\<lambda>c. \<not> fw_traffic (Fc_https c)) (List.map_filter pick_https cs)"
    and "mqtt_offline (fw_mqtt x) \<and> list_all (\<lambda>c. \<not> fw_traffic (Fc_mqtt c)) (List.map_filter pick_mqtt cs)"
proof -
  let ?h = "run_machine (https_handle (fc_https (pf_cfg pf))) (concat (map (https_view pf) is)) https_initial"
  have "https_offline (fst ?h) \<and> list_all (\<lambda>c. \<not> fw_traffic (Fc_https c)) (snd ?h)"
    using never_up_msgs(2) [OF assms(1), of pf]
    by (intro run_machine_safe https_offline_step) (auto simp: https_offline_def https_initial_def)
  then show "https_offline (fw_https x) \<and> list_all (\<lambda>c. \<not> fw_traffic (Fc_https c)) (List.map_filter pick_https cs)"
    using https_in_fw.view_run [of pf "is" "fw_boot pf w sem0"] assms(2) by (simp add: fw_boot_def)
  let ?m = "run_machine (mqtt_handle (fc_mqtt (pf_cfg pf))) (concat (map (mqtt_view pf) is)) (mqtt_initial (fc_mqtt (pf_cfg pf)))"
  have "mqtt_offline (fst ?m) \<and> list_all (\<lambda>c. \<not> fw_traffic (Fc_mqtt c)) (snd ?m)"
    using never_up_msgs(3) [OF assms(1), of pf]
    by (intro run_machine_safe mqtt_offline_step)
      (auto simp: mqtt_offline_def mqtt_initial_def app_mqtt_client_init_def mqtt_boot_state_def)
  then show "mqtt_offline (fw_mqtt x) \<and> list_all (\<lambda>c. \<not> fw_traffic (Fc_mqtt c)) (List.map_filter pick_mqtt cs)"
    using mqtt_in_fw.view_run [of pf "is" "fw_boot pf w sem0"] assms(2) by (simp add: fw_boot_def)
qed

lemma never_up_units:
  assumes "never_up is" "u \<in> set (concat (map (unit_view pf) is))"
  shows "unit_offline_input u"
proof -
  obtain i where i: "i \<in> set is" "u \<in> set (unit_view pf i)" using assms(2) by auto
  have ev: "event_msg e \<noteq> WIFI_STA_CONNECTED" if "i = Fw_net e" for e
    using assms(1) i(1) that by (cases e) (auto simp: never_up_def list_all_iff)
  have "unit_offline_input v" if "v \<in> set (unit_button env msg ob)" for v env msg ob using that by (cases ob) auto
  with i(2) ev show ?thesis
    by (cases i) (auto simp: deliveries_def event_msgs_def split: if_splits)
qed

lemma core_silent:
  assumes "never_up is" "k_sem_count_get (pf_sem pf) sem0 = 0" "run_machine (fw_step pf) is (fw_boot pf w sem0) = (x, cs)"
  shows "core_offline (pf_sem pf) w (fw_core x) (fw_upload_sem x) \<and>
    list_all (\<lambda>c. \<not> fw_traffic c) (List.map_filter pick_core cs)"
proof -
  have b: "core_offline (pf_sem pf) w (fst (fw_unit (fw_boot pf w sem0))) (snd (fw_unit (fw_boot pf w sem0)))"
    using assms(2) by (simp add: fw_unit_def core_offline_def fw_boot_def core_initial_def core_boot_state_def)
  show ?thesis
    using run_machine_safe [of "concat (map (unit_view pf) is)" "\<lambda>u. core_offline (pf_sem pf) w (fst u) (snd u)" "core_unit pf",
        OF unit_offline_step [OF _ never_up_units [OF assms(1)]] b] core_unit_run [OF assms(3)]
    by (simp add: fw_unit_def)
qed



end
