(* ===== verification/Snapshot_Box.thy ===== *)
theory Snapshot_Box
  imports Memfault_Core
begin

text \<open>
  What the two snapshot partitions promise, as an abstract box that holds at most one snapshot, and the proof
  that the log and the CDR functions implement it.

  \<open>mailbox\<close> is the box of a flash that works: a put replaces the content, a take returns and removes it.
  \<open>box_step\<close> is the box of a flash that fails, or loses its power, at any point of any operation: a put that
  fails leaves the old snapshot, none, or the new one; a take that succeeds may leave the snapshot behind (the
  erase failed); a take that fails leaves the snapshot or none. What the box then still guarantees is
  \<open>box_got_newest\<close>: what is taken was put before, whole, and no put that succeeded came after it.
\<close>

subsection \<open>The box\<close>

datatype 'p box_event = Box_put 'p bool | Box_got 'p | Box_none

datatype 'p box_op = Put 'p | Take

fun mailbox :: "('p box_op, 'p option, 'p box_event) machine" where
  "mailbox (Put p) m = (Some p, [Box_put p True])"
| "mailbox Take m = (None, [case m of Some p \<Rightarrow> Box_got p | None \<Rightarrow> Box_none])"

inductive box_step :: "'p option \<Rightarrow> 'p box_event \<Rightarrow> 'p option \<Rightarrow> bool" where
  put_stored: "box_step m (Box_put p True) (Some p)"
| put_kept: "box_step m (Box_put p False) m"
| put_lost: "box_step m (Box_put p False) None"
| put_landed: "box_step m (Box_put p False) (Some p)"
| got_gone: "box_step (Some p) (Box_got p) None"
| got_left: "box_step (Some p) (Box_got p) (Some p)"
| none_kept: "box_step m Box_none m"
| none_lost: "box_step m Box_none None"

code_pred box_step .

inductive_cases box_step_SomeE: "box_step m e (Some p)"
inductive_simps box_got_iff: "box_step m (Box_got p) m'"

inductive box_run :: "'p option \<Rightarrow> 'p box_event list \<Rightarrow> 'p option \<Rightarrow> bool" where
  box_nil: "box_run m [] m"
| box_cons: "box_step m e m1 \<Longrightarrow> box_run m1 es m2 \<Longrightarrow> box_run m (e # es) m2"

inductive_simps box_run_Nil [simp]: "box_run m [] m'"
inductive_simps box_run_Cons: "box_run m (e # es) m'"

lemma box_run_append: "box_run m (es @ fs) m' \<longleftrightarrow> (\<exists>m1. box_run m es m1 \<and> box_run m1 fs m')"
  by (induction es arbitrary: m) (auto simp: box_run_Cons)

text \<open>\<open>p\<close> was put in \<open>es\<close>, and every put after it failed.\<close>

definition newest :: "'p \<Rightarrow> 'p box_event list \<Rightarrow> bool" where
  "newest p es \<longleftrightarrow> (\<exists>es0 b es1. es = es0 @ Box_put p b # es1 \<and> (\<forall>q. Box_put q True \<notin> set es1))"

lemma newest_put: "newest p (es @ [Box_put p b])"
  unfolding newest_def by (intro exI [of _ es] exI [of _ b] exI [of _ "[]"]) simp

lemma newest_snoc:
  assumes "newest p es" "\<forall>q. e \<noteq> Box_put q True"
  shows "newest p (es @ [e])"
proof -
  obtain es0 b es1 where "es = es0 @ Box_put p b # es1" "\<forall>q. Box_put q True \<notin> set es1"
    using assms(1) unfolding newest_def by blast
  then show ?thesis
    unfolding newest_def using assms(2) by (intro exI [of _ es0] exI [of _ b] exI [of _ "es1 @ [e]"]) auto
qed

lemma box_holds_newest: "box_run None es (Some p) \<Longrightarrow> newest p es"
proof (induction es arbitrary: p rule: rev_induct)
  case (snoc e es)
  then obtain m where m: "box_run None es m" "box_step m e (Some p)" by (auto simp: box_run_append box_run_Cons)
  from m(2) show ?case
    by (cases rule: box_step_SomeE) (use m(1) snoc.IH in \<open>auto intro: newest_put newest_snoc\<close>)
qed simp

lemma box_got_newest:
  assumes "box_run None (es @ Box_got p # fs) m"
  shows "newest p es"
  using assms box_holds_newest by (auto simp: box_run_append box_run_Cons box_got_iff)

text \<open>The operations a list of events records.\<close>

fun box_op_of :: "'p box_event \<Rightarrow> 'p box_op" where
  "box_op_of (Box_put p b) = Put p"
| "box_op_of (Box_got p) = Take"
| "box_op_of Box_none = Take"

subsection \<open>A machine that uses a box\<close>

text \<open>
  \<open>content\<close> is what the box of a state holds. Each step of the machine is at most one operation on the box.
  On a flash that works (\<open>works\<close>) it is the operation of the mailbox.
\<close>

locale boxed_machine =
  fixes step :: "('i, 's, 'p box_event) machine"
    and ok :: "'s \<Rightarrow> bool"
    and legal :: "'i \<Rightarrow> bool"
    and works :: bool
    and content :: "'s \<Rightarrow> 'p option"
  assumes ok_kept: "ok s \<Longrightarrow> legal i \<Longrightarrow> ok (fst (step i s))"
    and step_box: "ok s \<Longrightarrow> legal i \<Longrightarrow> box_run (content s) (snd (step i s)) (content (fst (step i s)))"
    and step_mailbox: "ok s \<Longrightarrow> legal i \<Longrightarrow> works \<Longrightarrow>
      run_machine mailbox (map box_op_of (snd (step i s))) (content s) = (content (fst (step i s)), snd (step i s))"
begin

lemma run_ok: "ok s \<Longrightarrow> list_all legal is \<Longrightarrow> ok (fst (run_machine step is s))"
  by (induction "is" arbitrary: s) (simp_all add: ok_kept)

lemma run_box:
  "ok s \<Longrightarrow> list_all legal is \<Longrightarrow>
   box_run (content s) (snd (run_machine step is s)) (content (fst (run_machine step is s)))"
proof (induction "is" arbitrary: s)
  case (Cons i js)
  then show ?case using step_box [of s i] ok_kept [of s i] by (auto simp: box_run_append)
qed simp

lemma run_mailbox:
  "ok s \<Longrightarrow> list_all legal is \<Longrightarrow> works \<Longrightarrow>
   run_machine mailbox (map box_op_of (snd (run_machine step is s))) (content s) =
     (content (fst (run_machine step is s)), snd (run_machine step is s))"
proof (induction "is" arbitrary: s)
  case (Cons i js)
  then show ?case
    using step_mailbox [of s i] ok_kept [of s i]
    by (intro prod_eqI) (simp_all add: fst_run_machine_append snd_run_machine_append)
qed simp

end

subsection \<open>The log partition\<close>

text \<open>
  The operations on the log: the SDK writes into its live buffers, whose sizes are fixed (\<open>log_shape\<close>); the two
  functions of the module move them to and from the partition.
\<close>

datatype log_op = Log_op_write "byte list" "byte list" | Log_op_persist | Log_op_restore

definition log_live :: "byte list \<times> byte list \<Rightarrow> log_save_state" where
  "log_live p = \<lparr>ls_context = Some (fst p), ls_storage = Some (snd p)\<rparr>"

text \<open>The event for the payload in the live buffers; the SDK may have none.\<close>

definition log_event :: "(byte list \<times> byte list \<Rightarrow> 'e) \<Rightarrow> log_save_state \<Rightarrow> 'e list" where
  "log_event ev live = (case (ls_context live, ls_storage live) of (Some c, Some s) \<Rightarrow> [ev (c, s)] | _ \<Rightarrow> [])"

fun log_exec :: "'f flash_area \<Rightarrow> (log_op, log_save_state \<times> 'f, (byte list \<times> byte list) box_event) machine" where
  "log_exec fa (Log_op_write c s) x = ((log_live (c, s), snd x), [])"
| "log_exec fa Log_op_persist x =
     (let (err, f) = memfault_log_state_persist_now fa (fst x) (snd x)
      in ((fst x, f), log_event (\<lambda>p. Box_put p (err = 0)) (fst x)))"
| "log_exec fa Log_op_restore x =
     (let (err, live, cs, f) = memfault_log_state_restore_on_connect fa (fst x) (snd x)
      in ((live, f), if err = 0 then log_event Box_got live else [Box_none]))"

definition log_shape :: "nat \<Rightarrow> nat \<Rightarrow> log_save_state \<Rightarrow> bool" where
  "log_shape lc ls live \<longleftrightarrow> (\<exists>c s. live = log_live (c, s) \<and> length c = lc \<and> length s = ls)"

fun log_op_shape :: "nat \<Rightarrow> nat \<Rightarrow> log_op \<Rightarrow> bool" where
  "log_op_shape lc ls (Log_op_write c s) = (length c = lc \<and> length s = ls)"
| "log_op_shape lc ls _ = True"

definition log_content :: "nat \<Rightarrow> nat \<Rightarrow> byte list \<Rightarrow> (byte list \<times> byte list) option" where
  "log_content lc ls img = log_stored (replicate lc 0, replicate ls 0) img"

lemma log_event_live [simp]: "log_event ev (log_live p) = [ev p]"
  by (simp add: log_live_def log_event_def)

lemma log_shape_live [simp]: "log_shape lc ls (log_live p) \<longleftrightarrow> length (fst p) = lc \<and> length (snd p) = ls"
  by (auto simp: log_shape_def log_live_def prod_eq_iff)

lemma log_stored_shape: "length c = lc \<Longrightarrow> length s = ls \<Longrightarrow> log_stored (c, s) img = log_content lc ls img"
  by (simp add: log_stored_def log_content_def)

lemma log_restore_shape:
  assumes ok: "flash_ok img fa" and "log_shape lc ls live"
    and "memfault_log_state_restore_on_connect fa live f = (e, live', cs, f')"
  shows "log_shape lc ls live'"
  using assms(2,3) flash_ok_read(2) [OF ok]
  by (fastforce simp: log_restore_defs log_shape_def log_live_def Let_def split: prod.splits if_splits)

text \<open>The sizes of the live buffers, and the flash that works.\<close>

definition log_sizes :: "nat \<Rightarrow> nat \<Rightarrow> bool" where
  "log_sizes lc ls \<longleftrightarrow> 0 < lc \<and> 0 < ls \<and> 16 + lc + ls < 2 ^ 32"

lemma log_step_box:
  assumes ok: "flash_ok img fa" and pr: "flash_progressive img fa" and sz: "log_sizes lc ls"
    and "log_shape lc ls (fst x)" "log_op_shape lc ls i"
  shows "box_run (log_content lc ls (img (snd x))) (snd (log_exec fa i x)) (log_content lc ls (img (snd (fst (log_exec fa i x)))))"
proof -
  obtain c s where live: "fst x = log_live (c, s)" and len: "length c = lc" "length s = ls"
    using assms(4) by (auto simp: log_shape_def)
  have fit: "log_fits (c, s) (c, s)" using sz len by (simp add: log_fits_def log_sizes_def)
  note st = log_stored_shape [OF len]
  show ?thesis
  proof (cases i)
    case Log_op_persist
    obtain e f where p: "log_persist_payload fa (c, s) (snd x) = (e, f)" by (cases "log_persist_payload fa (c, s) (snd x)")
    then have "memfault_log_state_persist_now fa (fst x) (snd x) = (e, f)"
      by (simp add: live log_live_def memfault_log_state_persist_now_def)
    moreover have "box_step (log_content lc ls (img (snd x))) (Box_put (c, s) (e = 0)) (log_content lc ls (img f))"
      using log_store.persist_stores [OF ok fit] log_store.persist_interrupted [OF ok pr fit p] p st
      by (cases "e = 0") (auto intro: box_step.intros)
    ultimately show ?thesis using Log_op_persist live by (simp add: box_run_Cons)
  next
    case Log_op_restore
    obtain e live' cs f where r: "memfault_log_state_restore_on_connect fa (fst x) (snd x) = (e, live', cs, f)"
      by (cases "memfault_log_state_restore_on_connect fa (fst x) (snd x)") 
    note int = log_restore_interrupted [OF ok pr r, of "(c, s)", unfolded st]
    show ?thesis
    proof (cases "e = 0")
      case True
      obtain p where "live' = log_live p" "log_content lc ls (img (snd x)) = Some p"
        using log_restore_success(1) [OF ok, of c s "snd x" live' cs f] r True st by (auto simp: live log_live_def)
      then show ?thesis using Log_op_restore r True int by (auto simp: box_run_Cons intro: box_step.intros)
    next
      case False
      then show ?thesis using Log_op_restore r int by (auto simp: box_run_Cons intro: box_step.intros)
    qed
  qed simp
qed

lemma log_step_mailbox:
  assumes ok: "flash_ok img fa" and rel: "flash_reliable fa" and sz: "log_sizes lc ls"
    and fit: "16 + lc + ls \<le> unat (fa_size fa)"
    and "log_shape lc ls (fst x)" "log_op_shape lc ls i"
  shows "run_machine mailbox (map box_op_of (snd (log_exec fa i x))) (log_content lc ls (img (snd x))) =
    (log_content lc ls (img (snd (fst (log_exec fa i x)))), snd (log_exec fa i x))"
proof -
  obtain c s where live: "fst x = log_live (c, s)" and len: "length c = lc" "length s = ls"
    using assms(5) by (auto simp: log_shape_def)
  have fits: "log_fits (c, s) p" if "length (fst p) = lc" "length (snd p) = ls" for p
    using sz len that by (simp add: log_fits_def log_sizes_def)
  note st = log_stored_shape [OF len]
  have er: "fst (fa_erase fa 0 (fa_size fa) g) = 0" for g using rel by (simp add: flash_reliable_def)
  show ?thesis
  proof (cases i)
    case Log_op_persist
    obtain f where p: "memfault_log_state_persist_now fa (fst x) (snd x) = (0, f)"
      using log_persist_reliable [OF rel, of c s "snd x"] fit len live by (metis log_live_def fst_conv snd_conv prod.collapse)
    then have "log_persist_payload fa (c, s) (snd x) = (0, f)"
      by (simp add: live log_live_def memfault_log_state_persist_now_def)
    then show ?thesis using Log_op_persist p live st log_store.persist_stores [OF ok fits, of "(c, s)" "snd x" f] len by simp
  next
    case Log_op_restore
    obtain e live' cs f where r: "memfault_log_state_restore_on_connect fa (log_live (c, s)) (snd x) = (e, live', cs, f)"
      by (cases "memfault_log_state_restore_on_connect fa (log_live (c, s)) (snd x)")
    note r' = r [unfolded log_live_def fst_conv snd_conv]
    show ?thesis
    proof (cases "e = 0")
      case True
      obtain p where "live' = log_live p" "log_content lc ls (img (snd x)) = Some p"
        using log_restore_success(1) [OF ok r' [unfolded True]] st by (auto simp: log_live_def)
      moreover have "log_content lc ls (img f) = None"
        using log_restore_success(2) [OF ok r' [unfolded True] er] log_store.erased_empty st by metis
      ultimately show ?thesis using Log_op_restore r True live by simp
    next
      case False
      then have "log_content lc ls (img (snd x)) = None"
        using log_restore_reliable [OF ok rel, of c s "snd x"] r' st by (cases "log_content lc ls (img (snd x))") auto
      moreover from this have "log_content lc ls (img f) = None"
        using log_restore_flash [OF ok r] er flash_ok_erase_all [OF ok] log_store.erased_empty st by (metis prod.collapse)
      ultimately show ?thesis using Log_op_restore r False live by simp
    qed
  qed simp
qed

subsection \<open>The CDR partition\<close>

text \<open>The recording in the buffer, and what a call into the module does to the box.\<close>

definition cdr_recorded :: "cdr_state \<Rightarrow> byte list" where
  "cdr_recorded s = take (unat (s_nrf70_fw_stats_blob_size s)) (s_nrf70_fw_stats_blob s)"

fun cdr_box_events :: "'f flash_area \<Rightarrow> cdr_event \<Rightarrow> cdr_state \<times> 'f \<Rightarrow> byte list box_event list" where
  "cdr_box_events fa (Ev_persist env) (s, f) =
     (let (err, s', cs, f') = mflt_nrf70_fw_stats_cdr_persist_to_flash fa env s f
      in if s_cdr_data_ready s' then [Box_put (cdr_recorded s') (err = 0)] else [])"
| "cdr_box_events fa Ev_restore (s, f) =
     (let (err, s', f') = mflt_nrf70_fw_stats_cdr_restore_from_flash fa s f
      in [if err = 0 then Box_got (cdr_recorded s') else Box_none])"
| "cdr_box_events fa _ (s, f) = []"

definition cdr_box_exec :: "'f flash_area \<Rightarrow> (cdr_event, cdr_state \<times> 'f, byte list box_event) machine" where
  "cdr_box_exec fa ev x = (fst (cdr_exec fa ev x), cdr_box_events fa ev x)"

abbreviation cdr_content :: "byte list \<Rightarrow> byte list option" where
  "cdr_content \<equiv> cdr_stored []"

lemma cdr_recorded_fits:
  assumes "cdr_inv s" "s_cdr_data_ready s"
  shows "cdr_fits k (cdr_recorded s)"
proof -
  have "unat (s_nrf70_fw_stats_blob_size s) \<le> 1024" "s_nrf70_fw_stats_blob_size s \<noteq> 0"
    using assms by (auto simp: cdr_inv_def NRF70_FW_STATS_BLOB_MAX_SIZE_def word_le_nat_alt)
  then show ?thesis using assms(1) by (auto simp: cdr_fits_def cdr_recorded_def cdr_inv_def unat_gt_0)
qed

text \<open>A call that persists either recorded nothing and left the partition alone, or stores what it recorded.\<close>

lemma cdr_persist_recorded:
  assumes "flash_ok img fa" "cdr_inv s" "mflt_nrf70_fw_stats_cdr_persist_to_flash fa env s f = (e, s', cs, f')"
  shows "cdr_inv s'"
    and "if s_cdr_data_ready s' then cdr_persist_blob fa (cdr_recorded s') f = (e, f') else f' = f"
proof -
  show "cdr_inv s'" using cdr_exec_inv [OF assms(1), of "(s, f)" "Ev_persist env"] assms(2,3) by simp
  show "if s_cdr_data_ready s' then cdr_persist_blob fa (cdr_recorded s') f = (e, f') else f' = f"
    using assms(3)
    by (auto simp: mflt_nrf70_fw_stats_cdr_persist_to_flash_def collect_nrf70_fw_stats_def cdr_recorded_def Let_def
        split: prod.splits if_splits)
qed

lemma cdr_restore_recorded:
  assumes "flash_ok img fa" "cdr_inv s" "mflt_nrf70_fw_stats_cdr_restore_from_flash fa s f = (0, s', f')"
  shows "cdr_content (img f) = Some (cdr_recorded s')"
proof -
  have len: "length (s_nrf70_fw_stats_blob s) = 1024" using assms(2) by (simp add: cdr_inv_def)
  obtain p where p: "cdr_content (img f) = Some p" "length p \<le> 1024"
    "s_nrf70_fw_stats_blob s' = splice 0 p (s_nrf70_fw_stats_blob s)" "s_nrf70_fw_stats_blob_size s' = of_nat (length p)"
    using cdr_restore_success(1) [OF assms(1) len assms(3), of "[]"] by auto
  then have "unat (s_nrf70_fw_stats_blob_size s') = length p" using unat_of_nat_u32 [of "length p"] by simp
  then show ?thesis using p len by (simp add: cdr_recorded_def splice_0)
qed

lemma cdr_step_box:
  assumes ok: "flash_ok img fa" and pr: "flash_progressive img fa" and inv: "cdr_inv (fst x)"
  shows "box_run (cdr_content (img (snd x))) (snd (cdr_box_exec fa ev x)) (cdr_content (img (snd (fst (cdr_box_exec fa ev x)))))"
proof -
  obtain s f where x: "x = (s, f)" by (cases x)
  show ?thesis
  proof (cases ev)
    case (Ev_persist env)
    obtain e s' cs f' where p: "mflt_nrf70_fw_stats_cdr_persist_to_flash fa env s f = (e, s', cs, f')"
      by (cases "mflt_nrf70_fw_stats_cdr_persist_to_flash fa env s f")
    note rec = cdr_persist_recorded [OF ok _ p] and fit = cdr_recorded_fits [of s' "[]"]
    have "box_step (cdr_content (img f)) (Box_put (cdr_recorded s') (e = 0)) (cdr_content (img f'))" if "s_cdr_data_ready s'"
      using cdr_store.persist_stores [OF ok fit] cdr_store.persist_interrupted [OF ok pr fit] rec inv that x
      by (cases "e = 0") (fastforce intro: box_step.intros)+
    then show ?thesis using Ev_persist p x rec(2) inv by (simp add: cdr_box_exec_def box_run_Cons)
  next
    case Ev_restore
    obtain e s' f' where r: "mflt_nrf70_fw_stats_cdr_restore_from_flash fa s f = (e, s', f')"
      by (cases "mflt_nrf70_fw_stats_cdr_restore_from_flash fa s f")
    have "box_step (cdr_content (img f)) (if e = 0 then Box_got (cdr_recorded s') else Box_none) (cdr_content (img f'))"
      using cdr_restore_recorded [OF ok, of s f s' f'] cdr_restore_interrupted [OF ok pr r, of "[]"] r inv x
      by (cases "e = 0") (auto intro: box_step.intros)
    then show ?thesis using Ev_restore r x by (simp add: cdr_box_exec_def box_run_Cons)
  qed (simp_all add: x cdr_box_exec_def split_beta Let_def)
qed

lemma cdr_step_mailbox:
  assumes ok: "flash_ok img fa" and rel: "flash_reliable fa" and sz: "16 + 1024 \<le> unat (fa_size fa)" and inv: "cdr_inv (fst x)"
  shows "run_machine mailbox (map box_op_of (snd (cdr_box_exec fa ev x))) (cdr_content (img (snd x))) =
    (cdr_content (img (snd (fst (cdr_box_exec fa ev x)))), snd (cdr_box_exec fa ev x))"
proof -
  obtain s f where x: "x = (s, f)" by (cases x)
  have er: "fst (fa_erase fa 0 (fa_size fa) g) = 0" for g using rel by (simp add: flash_reliable_def)
  have len: "length (s_nrf70_fw_stats_blob s) = 1024" using inv x by (simp add: cdr_inv_def)
  show ?thesis
  proof (cases ev)
    case (Ev_persist env)
    obtain e s' cs f' where p: "mflt_nrf70_fw_stats_cdr_persist_to_flash fa env s f = (e, s', cs, f')"
      by (cases "mflt_nrf70_fw_stats_cdr_persist_to_flash fa env s f")
    note rec = cdr_persist_recorded [OF ok _ p] and fit = cdr_recorded_fits [of s' "[]"]
    have "e = 0 \<and> cdr_content (img f') = Some (cdr_recorded s')" if "s_cdr_data_ready s'"
    proof -
      have b: "cdr_persist_blob fa (cdr_recorded s') f = (e, f')" and f: "cdr_fits [] (cdr_recorded s')"
        using rec fit that inv x by simp_all
      have "e = 0" using cdr_persist_blob_reliable [OF rel, of "cdr_recorded s'" f] sz b f by (simp add: cdr_fits_def)
      then show ?thesis using cdr_store.persist_stores [OF ok f] b by simp
    qed
    then show ?thesis using Ev_persist p x rec(2) inv by (simp add: cdr_box_exec_def)
  next
    case Ev_restore
    obtain e s' f' where r: "mflt_nrf70_fw_stats_cdr_restore_from_flash fa s f = (e, s', f')"
      by (cases "mflt_nrf70_fw_stats_cdr_restore_from_flash fa s f")
    show ?thesis
    proof (cases "e = 0")
      case True
      then have "cdr_content (img f) = Some (cdr_recorded s')" "cdr_content (img f') = None"
        using cdr_restore_recorded [OF ok, of s f s' f'] cdr_restore_success(2) [OF ok len, of f s' f'] er
          cdr_store.erased_empty r inv x by simp_all
      then show ?thesis using Ev_restore r x True by (simp add: cdr_box_exec_def)
    next
      case False
      then have "cdr_content (img f) = None"
        using cdr_restore_reliable [OF ok rel _ len, of "[]" f] r by (cases "cdr_content (img f)") auto
      moreover from this have "cdr_content (img f') = None"
        using cdr_restore_flash [OF ok r] er flash_ok_erase_all [OF ok] cdr_store.erased_empty by (metis prod.collapse)
      ultimately show ?thesis using Ev_restore r x False by (simp add: cdr_box_exec_def)
    qed
  qed (simp_all add: x cdr_box_exec_def split_beta Let_def)
qed

interpretation log_box: boxed_machine "log_exec fa"
  "\<lambda>x. flash_ok img fa \<and> flash_progressive img fa \<and> log_sizes lc ls \<and> log_shape lc ls (fst x)" "log_op_shape lc ls"
  "flash_reliable fa \<and> 16 + lc + ls \<le> unat (fa_size fa)" "\<lambda>x. log_content lc ls (img (snd x))" for fa img lc ls
proof (unfold_locales, goal_cases)
  case (1 s i)
  then show ?case
    using log_restore_shape [of img fa lc ls "fst s" "snd s"]
    by (cases i) (auto simp: log_shape_def split_beta Let_def prod_eq_iff)
next
  case (2 s i)
  then show ?case using log_step_box [of img fa lc ls s i] by blast
next
  case (3 s i)
  then show ?case using log_step_mailbox [of img fa lc ls s i] by blast
qed

interpretation cdr_box: boxed_machine "cdr_box_exec fa"
  "\<lambda>x. flash_ok img fa \<and> flash_progressive img fa \<and> cdr_inv (fst x)" "\<lambda>_. True"
  "flash_reliable fa \<and> 16 + 1024 \<le> unat (fa_size fa)" "\<lambda>x. cdr_content (img (snd x))" for fa img
proof (unfold_locales, goal_cases)
  case (1 s i)
  then show ?case using cdr_exec_inv [of img fa s i] by (simp add: cdr_box_exec_def)
next
  case (2 s i)
  then show ?case using cdr_step_box [of img fa s i] by blast
next
  case (3 s i)
  then show ?case using cdr_step_mailbox [of img fa s i] by blast
qed

subsection \<open>Properties\<close>

text \<open>
  C2: the log partition is a box for one snapshot, and stays one when the flash fails or the power is cut at
  any byte of any operation. Over any sequence of writes to the live log, persists and restores: a persist that
  fails leaves the previous snapshot, none, or the new one, a restore never delivers anything else than what a
  persist was given, whole, and never something older than the last persist that succeeded. On a flash
  that works and is large enough the sequence is exactly that of the mailbox: every persist is kept, every
  restore returns the newest snapshot and removes it.
\<close>

theorem log_partition_is_box:
  assumes "flash_ok img fa" and "flash_progressive img fa" and "log_sizes lc ls" and "log_shape lc ls live"
    and "list_all (log_op_shape lc ls) ops"
    and "run_machine (log_exec fa) ops (live, f) = ((live', f'), es)"
  shows "box_run (log_content lc ls (img f)) es (log_content lc ls (img f')) \<and>
    (log_content lc ls (img f) = None \<longrightarrow> (\<forall>es1 p es2. es = es1 @ Box_got p # es2 \<longrightarrow> newest p es1)) \<and>
    (flash_reliable fa \<and> 16 + lc + ls \<le> unat (fa_size fa) \<longrightarrow>
       run_machine mailbox (map box_op_of es) (log_content lc ls (img f)) = (log_content lc ls (img f'), es))"
proof -
  have "box_run (log_content lc ls (img f)) es (log_content lc ls (img f'))"
    using log_box.run_box [of img fa lc ls "(live, f)" ops] assms by simp
  moreover have "flash_reliable fa \<and> 16 + lc + ls \<le> unat (fa_size fa) \<longrightarrow>
      run_machine mailbox (map box_op_of es) (log_content lc ls (img f)) = (log_content lc ls (img f'), es)"
    using log_box.run_mailbox [of img fa lc ls "(live, f)" ops] assms by simp
  ultimately show ?thesis using box_got_newest by metis
qed

text \<open>The power goes while the header is written; the restore after the reboot finds nothing.\<close>

theorem log_partition_is_box_witness:
  "\<exists>x es. run_machine (log_exec (cut_flash 64)) [Log_op_persist, Log_op_restore]
       (log_live ([1, 2], [3, 4, 5]), ([], 75)) = (x, es) \<and>
     es = [Box_put ([1, 2], [3, 4, 5]) False, Box_none] \<and>
     box_run (log_content 2 3 (ram_image 64 [])) es (log_content 2 3 (ram_image 64 (fst (snd x))))"
proof -
  have e: "snd (run_machine (log_exec (cut_flash 64)) [Log_op_persist, Log_op_restore]
      (log_live ([1, 2], [3, 4, 5]), ([], 75))) = [Box_put ([1, 2], [3, 4, 5]) False, Box_none]" by code_simp
  have "log_sizes 2 3" "log_shape 2 3 (log_live ([1, 2], [3, 4, 5]))" by (simp_all add: log_sizes_def)
  note box = log_partition_is_box [OF cut_flash_ok cut_flash_progressive this, of "[Log_op_persist, Log_op_restore]" 64 "([], 75)"]
  obtain live' f' es where "run_machine (log_exec (cut_flash 64)) [Log_op_persist, Log_op_restore]
      (log_live ([1, 2], [3, 4, 5]), ([], 75)) = ((live', f'), es)" by (metis prod.collapse)
  then show ?thesis using box [of live' f' es] e by auto
qed

text \<open>
  C4: the CDR partition is a box for one recording in the same sense, over any sequence of calls into the
  module (collections, readers, buttons, persists, restores), whatever the Wi-Fi firmware answers and wherever
  the flash fails: what a restore offers for upload is a recording that was persisted, whole, and none that
  is older than the last persist that succeeded; on a flash that works it is the mailbox.
\<close>

theorem cdr_partition_is_box:
  assumes "flash_ok img fa" and "flash_progressive img fa" and "cdr_inv s"
    and "run_machine (cdr_box_exec fa) evs (s, f) = ((s', f'), es)"
  shows "box_run (cdr_content (img f)) es (cdr_content (img f')) \<and>
    (cdr_content (img f) = None \<longrightarrow> (\<forall>es1 p es2. es = es1 @ Box_got p # es2 \<longrightarrow> newest p es1)) \<and>
    (flash_reliable fa \<and> 16 + 1024 \<le> unat (fa_size fa) \<longrightarrow>
       run_machine mailbox (map box_op_of es) (cdr_content (img f)) = (cdr_content (img f'), es))"
proof -
  have "box_run (cdr_content (img f)) es (cdr_content (img f'))"
    using cdr_box.run_box [of img fa "(s, f)" evs] assms by (simp add: list_all_iff)
  moreover have "flash_reliable fa \<and> 16 + 1024 \<le> unat (fa_size fa) \<longrightarrow>
      run_machine mailbox (map box_op_of es) (cdr_content (img f)) = (cdr_content (img f'), es)"
    using cdr_box.run_mailbox [of img fa "(s, f)" evs] assms by (simp add: list_all_iff)
  ultimately show ?thesis using box_got_newest by metis
qed

theorem cdr_partition_is_box_witness:
  "\<exists>x es. run_machine (cdr_box_exec (cut_flash 64)) [Ev_persist cdr_sample_env, Ev_restore] (cdr_boot_state, ([], 76)) = (x, es) \<and>
     es = [Box_put [1, 2, 3] False, Box_none] \<and>
     box_run (cdr_content (ram_image 64 [])) es (cdr_content (ram_image 64 (fst (snd x))))"
proof -
  have e: "snd (run_machine (cdr_box_exec (cut_flash 64)) [Ev_persist cdr_sample_env, Ev_restore]
      (cdr_boot_state, ([], 76))) = [Box_put [1, 2, 3] False, Box_none]" by code_simp
  obtain s' f' es where "run_machine (cdr_box_exec (cut_flash 64)) [Ev_persist cdr_sample_env, Ev_restore]
      (cdr_boot_state, ([], 76)) = ((s', f'), es)" by (metis prod.collapse)
  then show ?thesis using cdr_partition_is_box [OF cut_flash_ok cut_flash_progressive cdr_boot_inv, of 64 _ "([], 76)" s' f' es] e by auto
qed

end
