(* ===== verification/Firmware_Sessions.thy ===== *)
theory Firmware_Sessions
  imports Firmware Snapshot_Box
begin

text \<open>
  The life of a device: it is powered on, runs, loses its power, and is powered on again with the flash
  it had. Powering on runs the functions the modules registered with \<^verbatim>\<open>SYS_INIT\<close>, in the order of their
  priorities; functions of equal priority run in the order of the linker, which the application does not
  fix (\<open>order\<close>). Between two inputs of the application the Memfault SDK may write to the live log.

  The two snapshot partitions over such a life are boxes in the sense of \<^theory_text>\<open>Snapshot_Box\<close>, and what the
  delayed persist saved after a loss is restored for upload after the next connection, across the loss of power.
  The persist and the restore are one transition each, as every call of a module is in \<^theory_text>\<open>Firmware\<close>: this theory is
  about lives in which the work queue and the upload thread are not inside them at the same time. The code
  does not prevent that; \<^theory_text>\<open>Snapshot_Race\<close> shows what can happen then.
\<close>

subsection \<open>Powering on\<close>

datatype init_fn = Init_net_event | Init_https | Init_mqtt | Init_cdr | Init_core

instantiation init_fn :: enum
begin

definition enum_init_fn :: "init_fn list" where
  "enum_init_fn = [Init_net_event, Init_https, Init_mqtt, Init_cdr, Init_core]"

definition enum_all_init_fn :: "(init_fn \<Rightarrow> bool) \<Rightarrow> bool" where
  "enum_all_init_fn P \<longleftrightarrow> list_all P [Init_net_event, Init_https, Init_mqtt, Init_cdr, Init_core]"

definition enum_ex_init_fn :: "(init_fn \<Rightarrow> bool) \<Rightarrow> bool" where
  "enum_ex_init_fn P \<longleftrightarrow> list_ex P [Init_net_event, Init_https, Init_mqtt, Init_cdr, Init_core]"

instance
proof
  have u: "(UNIV :: init_fn set) = set [Init_net_event, Init_https, Init_mqtt, Init_cdr, Init_core]" by (auto intro: init_fn.exhaust)
  show "(UNIV :: init_fn set) = set enum_class.enum" unfolding u enum_init_fn_def ..
  show "distinct (enum_class.enum :: init_fn list)" by (simp add: enum_init_fn_def)
  show "enum_class.enum_all P \<longleftrightarrow> Ball UNIV P" for P :: "init_fn \<Rightarrow> bool" unfolding u enum_all_init_fn_def by simp
  show "enum_class.enum_ex P \<longleftrightarrow> Bex UNIV P" for P :: "init_fn \<Rightarrow> bool" unfolding u enum_ex_init_fn_def by simp
qed

end

text \<open>The priorities at the level \<^verbatim>\<open>APPLICATION\<close>; \<open>prio\<close> is \<^verbatim>\<open>CONFIG_APPLICATION_INIT_PRIORITY\<close> of the kernel.\<close>

fun init_priority :: "nat \<Rightarrow> init_fn \<Rightarrow> nat" where
  "init_priority prio Init_net_event = 1"
| "init_priority prio Init_https = 2"
| "init_priority prio Init_mqtt = 2"
| "init_priority prio Init_cdr = 2"
| "init_priority prio Init_core = prio"

definition init_order :: "nat \<Rightarrow> init_fn list \<Rightarrow> bool" where
  "init_order prio order \<longleftrightarrow> full_order order \<and> sorted (map (init_priority prio) order)"

text \<open>The variables as their initialisers leave them, before any of the functions ran.\<close>

definition fw_static :: "('f, 'g, 'k) platform \<Rightarrow> ('f, 'g) core_world \<Rightarrow> 'k \<Rightarrow> ('f, 'g, 'k) firmware" where
  "fw_static pf w sem0 =
     \<lparr>fw_https = \<lparr>hs_pc = HC_while_running, hs_cert = False, hs_state = https_boot_state\<rparr>,
      fw_mqtt = \<lparr>ms_pc = PC_helper_init, ms_state = mqtt_boot_state (fc_mqtt (pf_cfg pf))\<rparr>,
      fw_core = core_initial w, fw_upload_sem = sem0, fw_ota = ota_boot sem0, fw_metrics = wm_boot_state\<rparr>"

fun fw_init :: "('f, 'g, 'k) platform \<Rightarrow> core_env \<Rightarrow> bool \<Rightarrow> (init_fn, ('f, 'g, 'k) firmware, fw_call) machine" where
  "fw_init pf env reg Init_net_event x = (x, map Fc_net (snd net_event_app_init))"
| "fw_init pf env reg Init_https x =
     (x\<lparr>fw_https := (fw_https x)\<lparr>hs_state := snd (app_https_client_init (hs_state (fw_https x)))\<rparr>\<rparr>, [])"
| "fw_init pf env reg Init_mqtt x =
     (x\<lparr>fw_mqtt := (fw_mqtt x)\<lparr>ms_state := snd (app_mqtt_client_init (ms_state (fw_mqtt x)))\<rparr>\<rparr>, [])"
| "fw_init pf env reg Init_cdr x = fw_cdr_step pf (Ev_init reg) x"
| "fw_init pf env reg Init_core x = (x, map Fc_core (snd (memfault_core_init env)))"

definition fw_power_on ::
  "('f, 'g, 'k) platform \<Rightarrow> init_fn list \<Rightarrow> core_env \<Rightarrow> bool \<Rightarrow> ('f, 'g) core_world \<Rightarrow> 'k \<Rightarrow> ('f, 'g, 'k) firmware \<times> fw_call list" where
  "fw_power_on pf order env reg w sem0 = run_machine (fw_init pf env reg) order (fw_static pf w sem0)"

interpretation init_functions: commuting_machine "fw_init pf env reg" for pf env reg
proof (unfold_locales, goal_cases)
  case (1 a b x)
  then show ?case by (cases a; cases b) (simp_all add: fw_cdr_step_def split_beta Let_def)
next
  case (2 a b x)
  then show ?case by (cases a; cases b) (simp_all add: fw_cdr_step_def split_beta Let_def)
qed

text \<open>RAM is lost with the power: the recording starts afresh; the flash keeps its content.\<close>

definition cdr_power_on :: "bool \<Rightarrow> cdr_state" where
  "cdr_power_on reg = cdr_boot_state\<lparr>cdr_initialized := reg\<rparr>"

lemma cdr_power_on_inv [simp]: "cdr_inv (cdr_power_on reg)"
  using cdr_boot_inv by (simp add: cdr_power_on_def cdr_inv_def)

lemma fw_power_on_canonical:
  assumes "full_order order" "cw_cdr w = cdr_boot_state"
  shows "fst (fw_power_on pf order env reg w sem0) = fw_boot pf (w\<lparr>cw_cdr := cdr_power_on reg\<rparr>) sem0 \<and>
    mset (snd (fw_power_on pf order env reg w sem0)) =
      mset ([Fc_net Net_mgmt_add_event_callback, Fc_cdr Cdr_register_source] @ map Fc_core (snd (memfault_core_init env)))"
proof -
  let ?r = "run_machine (fw_init pf env reg) (enum_class.enum :: init_fn list) (fw_static pf w sem0)"
  have "fst ?r = fw_boot pf (w\<lparr>cw_cdr := cdr_power_on reg\<rparr>) sem0 \<and>
      snd ?r = [Fc_net Net_mgmt_add_event_callback, Fc_cdr Cdr_register_source] @ map Fc_core (snd (memfault_core_init env))"
    using assms(2) by (cases reg)
      (simp_all add: enum_init_fn_def fw_static_def fw_boot_def fw_cdr_step_def mflt_nrf70_fw_stats_cdr_init_def
        cdr_boot_state_def cdr_power_on_def net_event_app_init_def https_initial_def mqtt_initial_def core_initial_def)
  then show ?thesis
    using init_functions.run_perm [of order enum_class.enum pf env reg "fw_static pf w sem0"] assms(1)
    unfolding fw_power_on_def full_order_def by (simp add: enum_distinct UNIV_enum [symmetric])
qed

text \<open>
  C21: the application starts in one state, however the linker arranged the initialisation functions. Powering
  on runs each of them once, in the order of the priorities: the network events are hooked up before any
  module starts, both clients are running, the recording is registered, the image is confirmed if it was
  not, the log level is set and the connectivity tracking started; no persisted snapshot is touched.
\<close>

theorem firmware_boot_order:
  assumes "init_order prio order" and "1 < prio" and "cw_cdr w = cdr_boot_state"
    and "fw_power_on pf order env reg w sem0 = (x, cs)"
  shows "x = fw_boot pf (w\<lparr>cw_cdr := cdr_power_on reg\<rparr>) sem0 \<and>
    (\<exists>ds. cs = Fc_net Net_mgmt_add_event_callback # ds \<and>
      mset ds = mset (Fc_cdr Cdr_register_source # map Fc_core (snd (memfault_core_init env)))) \<and>
    https_client_running (hs_state (fw_https x)) \<and> mqtt_client_running (ms_state (fw_mqtt x))"
proof -
  have full: "full_order order" using assms(1) by (simp add: init_order_def)
  note c = fw_power_on_canonical [OF full assms(3), of pf env reg sem0]
  obtain a as where o: "order = a # as" using full by (cases order) (auto simp: full_order_def)
  have "Init_net_event \<in> set order" using full by (simp add: full_order_def)
  then have "init_priority prio a \<le> 1" using assms(1) o by (auto simp: init_order_def)
  then have "a = Init_net_event" using assms(2) by (cases a) auto
  then obtain ds where ds: "cs = Fc_net Net_mgmt_add_event_callback # ds"
    using assms(4) o by (auto simp: fw_power_on_def run_machine.simps(2) net_event_app_init_def split_beta Let_def)
  then have "mset ds = mset (Fc_cdr Cdr_register_source # map Fc_core (snd (memfault_core_init env)))"
    using c assms(4) by simp
  then show ?thesis using c assms(4) ds
    by (simp add: fw_boot_def https_initial_def mqtt_initial_def app_https_client_init_def app_mqtt_client_init_def)
qed

definition sample_core_env :: core_env where
  "sample_core_env = \<lparr>ce_has_valid_coredump = False, ce_data_available = True, ce_unsent_bytes = 0,
     ce_getaddrinfo = 0, ce_getaddrinfo_res = True, ce_img_confirmed = False\<rparr>"

definition sample_init_order :: "init_fn list" where
  "sample_init_order = [Init_net_event, Init_cdr, Init_mqtt, Init_https, Init_core]"

lemma sample_init_order_ok: "init_order 90 sample_init_order"
  by (simp add: init_order_def full_order_def sample_init_order_def UNIV_enum enum_init_fn_def) auto

theorem firmware_boot_order_witness:
  "\<exists>x cs. fw_power_on sample_pf sample_init_order sample_core_env True core_sample_world False = (x, cs) \<and>
     hd cs = Fc_net Net_mgmt_add_event_callback \<and> mqtt_client_running (ms_state (fw_mqtt x))"
proof -
  obtain x cs where r: "fw_power_on sample_pf sample_init_order sample_core_env True core_sample_world False = (x, cs)"
    by (metis prod.collapse)
  have "cw_cdr core_sample_world = cdr_boot_state" by (simp add: core_sample_world_def)
  from firmware_boot_order [OF sample_init_order_ok _ this r] r show ?thesis by auto
qed

subsection \<open>The device\<close>

datatype dev_input =
    Dev_run fw_input
  | Dev_log_write "byte list" "byte list"
  | Dev_power_cycle "byte list" "byte list" core_env bool

definition fw_log_write :: "byte list \<times> byte list \<Rightarrow> ('f, 'g, 'k) firmware \<Rightarrow> ('f, 'g, 'k) firmware" where
  "fw_log_write p x = x\<lparr>fw_core := (fw_core x)\<lparr>csy_world := (csy_world (fw_core x))\<lparr>cw_log := log_live p\<rparr>\<rparr>\<rparr>"

definition power_world :: "byte list \<times> byte list \<Rightarrow> ('f, 'g) core_world \<Rightarrow> ('f, 'g) core_world" where
  "power_world p w = w\<lparr>cw_log := log_live p, cw_cdr := cdr_boot_state\<rparr>"

fun dev_step :: "('f, 'g, 'k) platform \<Rightarrow> init_fn list \<Rightarrow> 'k \<Rightarrow> (dev_input, ('f, 'g, 'k) firmware, fw_call) machine" where
  "dev_step pf order sem0 (Dev_run i) x = fw_step pf i x"
| "dev_step pf order sem0 (Dev_log_write c s) x = (fw_log_write (c, s) x, [])"
| "dev_step pf order sem0 (Dev_power_cycle c s env reg) x =
     fw_power_on pf order env reg (power_world (c, s) (csy_world (fw_core x))) sem0"

text \<open>The part of the device that touches the partitions, and its inputs.\<close>

datatype store_input =
    Store_unit unit_input
  | Store_write "byte list" "byte list"
  | Store_power "byte list" "byte list" bool

fun store_next :: "('f, 'g, 'k) platform \<Rightarrow> 'k \<Rightarrow> store_input \<Rightarrow> ('f, 'g) core_sys \<times> 'k \<Rightarrow> ('f, 'g) core_sys \<times> 'k" where
  "store_next pf sem0 (Store_unit u) x = fst (core_unit pf u x)"
| "store_next pf sem0 (Store_write c s) x = ((fst x)\<lparr>csy_world := (csy_world (fst x))\<lparr>cw_log := log_live (c, s)\<rparr>\<rparr>, snd x)"
| "store_next pf sem0 (Store_power c s reg) x =
     (core_initial (power_world (c, s) (csy_world (fst x))\<lparr>cw_cdr := cdr_power_on reg\<rparr>), sem0)"

fun store_view :: "('f, 'g, 'k) platform \<Rightarrow> dev_input \<Rightarrow> store_input list" where
  "store_view pf (Dev_run i) = map Store_unit (unit_view pf i)"
| "store_view pf (Dev_log_write c s) = [Store_write c s]"
| "store_view pf (Dev_power_cycle c s env reg) = [Store_power c s reg]"

lemma store_run_unit:
  "run_machine (\<lambda>i x. (store_next pf sem0 i x, [])) (map Store_unit us) x = (fst (run_machine (core_unit pf) us x), [])"
  by (induction us arbitrary: x) (simp_all add: prod_eq_iff)

lemma store_in_dev:
  assumes "full_order order"
  shows "machine_view (dev_step pf order sem0) (\<lambda>i x. (store_next pf sem0 i x, [] :: unit list)) fw_unit (store_view pf) (\<lambda>_. None)"
proof (rule machine_view.intro, goal_cases)
  case (1 i x)
  show ?case
  proof (cases i)
    case (Dev_run j)
    then show ?thesis using core_in_fw.view_step [of pf j x] store_run_unit [of pf sem0 "unit_view pf j" "fw_unit x"] by simp
  next
    case (Dev_power_cycle c s env reg)
    let ?w = "power_world (c, s) (csy_world (fw_core x))"
    have "cw_cdr ?w = cdr_boot_state" by (simp add: power_world_def)
    from fw_power_on_canonical [OF assms this, of pf env reg sem0] show ?thesis
      using Dev_power_cycle by (simp add: fw_unit_def fw_boot_def)
  qed (simp add: fw_unit_def fw_log_write_def)
qed

subsection \<open>What the device does to the partitions\<close>

text \<open>The restore of the upload thread: it is past the name server, connected, and no crash dump goes first.\<close>

definition restores_now :: "core_cfg \<Rightarrow> core_env \<Rightarrow> ('f, 'g) core_sys \<Rightarrow> bool" where
  "restores_now cfg env c \<longleftrightarrow> csy_pc c = UP_after_dns \<and> wifi_connected (csy_state c) \<and>
     \<not> (cc_post_coredump_on_connect cfg \<and> ce_has_valid_coredump env)"

fun log_ops :: "core_cfg \<Rightarrow> store_input \<Rightarrow> ('f, 'g) core_sys \<Rightarrow> log_op list" where
  "log_ops cfg (Store_unit (Unit_core (Core_in_work env))) c =
     (if csy_pending c \<and> cc_log_state_restore cfg then [Log_op_persist] else [])"
| "log_ops cfg (Store_unit (Unit_core (Core_in_thread env))) c =
     (if restores_now cfg env c \<and> cc_log_state_restore cfg then [Log_op_restore] else [])"
| "log_ops cfg (Store_write c s) x = [Log_op_write c s]"
| "log_ops cfg (Store_power c s reg) x = [Log_op_write c s]"
| "log_ops cfg _ c = []"

fun cdr_ops :: "core_cfg \<Rightarrow> store_input \<Rightarrow> ('f, 'g) core_sys \<Rightarrow> cdr_event list" where
  "cdr_ops cfg (Store_unit (Unit_core (Core_in_work env))) c =
     (if csy_pending c \<and> cc_cdr_state_restore cfg then [Ev_persist env] else [])"
| "cdr_ops cfg (Store_unit (Unit_core (Core_in_thread env))) c =
     (if restores_now cfg env c \<and> cc_cdr_state_restore cfg then [Ev_restore] else [])"
| "cdr_ops cfg (Store_unit (Unit_cdr ev)) c = [ev]"
| "cdr_ops cfg _ c = []"

definition log_side :: "('f, 'g) core_sys \<times> 'k \<Rightarrow> log_save_state \<times> 'f" where
  "log_side x = (cw_log (csy_world (fst x)), cw_log_flash (csy_world (fst x)))"

definition cdr_side :: "('f, 'g) core_sys \<times> 'k \<Rightarrow> cdr_state \<times> 'g" where
  "cdr_side x = (cw_cdr (csy_world (fst x)), cw_cdr_flash (csy_world (fst x)))"

lemma thread_world:
  "csy_world (fst (core_handle cfg fal fac (Core_in_thread env) c)) =
     (if csy_pc c = UP_after_dns \<and> wifi_connected (csy_state c) then fst (on_connect cfg fal fac env (csy_world c)) else csy_world c)"
  by (cases "csy_pc c") (simp_all add: core_handle_def split_beta Let_def)

lemma listener_world:
  "csy_world (fst (core_handle cfg fal fac (Core_in_wifi m) c)) = csy_world c"
  "csy_world (fst (core_handle cfg fal fac (Core_in_network msg) c)) = csy_world c"
  "csy_world (fst (core_handle cfg fal fac (Core_in_button b) c)) = csy_world c"
  by (simp_all add: core_handle_def split_beta Let_def)

lemma work_world:
  "csy_world (fst (core_handle cfg fal fac (Core_in_work env) c)) =
     (if csy_pending c then fst (snd (log_freeze_work_fn cfg fal fac env (csy_state c) (csy_world c))) else csy_world c)"
  by (simp add: core_handle_def split_beta Let_def)

lemma log_side_next:
  "log_side (store_next pf sem0 i x) = fst (run_machine (log_exec (pf_log_area pf)) (log_ops (fc_core (pf_cfg pf)) i (fst x)) (log_side x))"
proof (cases i)
  case (Store_unit u)
  show ?thesis
  proof (cases u)
    case (Unit_core j)
    then show ?thesis using Store_unit
      by (cases j) (auto simp: log_side_def thread_world listener_world work_world on_connect_def restores_now_def
          log_freeze_work_fn_def split_beta Let_def)
  next
    case (Unit_cdr ev)
    then show ?thesis using Store_unit by (simp add: log_side_def split_beta Let_def)
  qed (use Store_unit in simp)
qed (simp_all add: log_side_def core_initial_def power_world_def)

lemma cdr_side_next:
  assumes "\<forall>c s reg. i \<noteq> Store_power c s reg"
  shows "cdr_side (store_next pf sem0 i x) =
    fst (run_machine (cdr_box_exec (pf_cdr_area pf)) (cdr_ops (fc_core (pf_cfg pf)) i (fst x)) (cdr_side x))"
proof (cases i)
  case (Store_unit u)
  show ?thesis
  proof (cases u)
    case (Unit_core j)
    then show ?thesis using Store_unit
      by (cases j) (auto simp: cdr_side_def thread_world listener_world work_world on_connect_def restores_now_def
          log_freeze_work_fn_def cdr_box_exec_def split_beta Let_def)
  next
    case (Unit_cdr ev)
    then show ?thesis using Store_unit by (simp add: cdr_side_def cdr_box_exec_def split_beta Let_def)
  qed (use Store_unit in simp)
qed (use assms in \<open>simp_all add: cdr_side_def\<close>)

text \<open>The run of the storage side with the events of a box.\<close>

definition log_trace :: "('f, 'g, 'k) platform \<Rightarrow> 'k \<Rightarrow> (store_input, ('f, 'g) core_sys \<times> 'k, (byte list \<times> byte list) box_event) machine" where
  "log_trace pf sem0 i x = (store_next pf sem0 i x,
     snd (run_machine (log_exec (pf_log_area pf)) (log_ops (fc_core (pf_cfg pf)) i (fst x)) (log_side x)))"

definition cdr_trace :: "('f, 'g, 'k) platform \<Rightarrow> 'k \<Rightarrow> (store_input, ('f, 'g) core_sys \<times> 'k, byte list box_event) machine" where
  "cdr_trace pf sem0 i x = (store_next pf sem0 i x,
     snd (run_machine (cdr_box_exec (pf_cdr_area pf)) (cdr_ops (fc_core (pf_cfg pf)) i (fst x)) (cdr_side x)))"

lemma trace_states:
  "fst (run_machine (log_trace pf sem0) is x) = fst (run_machine (\<lambda>i x. (store_next pf sem0 i x, [] :: unit list)) is x)"
  "fst (run_machine (cdr_trace pf sem0) is x) = fst (run_machine (\<lambda>i x. (store_next pf sem0 i x, [] :: unit list)) is x)"
  by (induction "is" arbitrary: x) (simp_all add: log_trace_def cdr_trace_def)

text \<open>The SDK keeps the sizes of the live buffers.\<close>

fun store_shape :: "nat \<Rightarrow> nat \<Rightarrow> store_input \<Rightarrow> bool" where
  "store_shape lc ls (Store_write c s) = (length c = lc \<and> length s = ls)"
| "store_shape lc ls (Store_power c s reg) = (length c = lc \<and> length s = ls)"
| "store_shape lc ls _ = True"

fun dev_shape :: "nat \<Rightarrow> nat \<Rightarrow> dev_input \<Rightarrow> bool" where
  "dev_shape lc ls (Dev_log_write c s) = (length c = lc \<and> length s = ls)"
| "dev_shape lc ls (Dev_power_cycle c s env reg) = (length c = lc \<and> length s = ls)"
| "dev_shape lc ls _ = True"

lemma dev_shape_view: "dev_shape lc ls i \<Longrightarrow> list_all (store_shape lc ls) (store_view pf i)"
  by (cases i) (simp_all add: list.pred_map comp_def list_all_iff)

lemma dev_shapes_view: "list_all (dev_shape lc ls) is \<Longrightarrow> list_all (store_shape lc ls) (concat (map (store_view pf) is))"
  by (induction "is") (simp_all add: dev_shape_view)

lemma log_ops_shape: "store_shape lc ls i \<Longrightarrow> list_all (log_op_shape lc ls) (log_ops cfg i c)"
proof (cases i)
  case (Store_unit u)
  show ?thesis
  proof (cases u)
    case (Unit_core j)
    then show ?thesis using Store_unit by (cases j) simp_all
  qed (use Store_unit in simp_all)
qed simp_all

interpretation dev_log: boxed_machine "log_trace pf sem0"
  "\<lambda>x. flash_ok img (pf_log_area pf) \<and> flash_progressive img (pf_log_area pf) \<and> log_sizes lc ls \<and> log_shape lc ls (fst (log_side x))"
  "store_shape lc ls" "flash_reliable (pf_log_area pf) \<and> 16 + lc + ls \<le> unat (fa_size (pf_log_area pf))"
  "\<lambda>x. log_content lc ls (img (snd (log_side x)))" for pf sem0 img lc ls
proof (unfold_locales, goal_cases)
  case (1 s i)
  then show ?case
    using log_box.run_ok [of img "pf_log_area pf" lc ls "log_side s"]
    by (simp add: log_trace_def log_side_next log_ops_shape)
next
  case (2 s i)
  then show ?case
    using log_box.run_box [of img "pf_log_area pf" lc ls "log_side s"]
    by (simp add: log_trace_def log_side_next log_ops_shape)
next
  case (3 s i)
  then show ?case
    using log_box.run_mailbox [of img "pf_log_area pf" lc ls "log_side s"]
    by (simp add: log_trace_def log_side_next log_ops_shape)
qed

lemma cdr_side_power:
  "cdr_side (store_next pf sem0 (Store_power c s reg) x) = (cdr_power_on reg, snd (cdr_side x))"
  by (simp add: cdr_side_def core_initial_def power_world_def)

interpretation dev_cdr: boxed_machine "cdr_trace pf sem0"
  "\<lambda>x. flash_ok img (pf_cdr_area pf) \<and> flash_progressive img (pf_cdr_area pf) \<and> cdr_inv (fst (cdr_side x))"
  "\<lambda>_. True" "flash_reliable (pf_cdr_area pf) \<and> 16 + 1024 \<le> unat (fa_size (pf_cdr_area pf))"
  "\<lambda>x. cdr_content (img (snd (cdr_side x)))" for pf sem0 img
proof (unfold_locales, goal_cases)
  case (1 x i)
  then show ?case
    using cdr_box.run_ok [of img "pf_cdr_area pf" "cdr_side x"]
    by (cases i) (simp_all add: cdr_trace_def cdr_side_next cdr_side_power list_all_iff del: store_next.simps)
next
  case (2 x i)
  then show ?case
    using cdr_box.run_box [of img "pf_cdr_area pf" "cdr_side x"]
    by (cases i) (simp_all add: cdr_trace_def cdr_side_next cdr_side_power list_all_iff del: store_next.simps)
next
  case (3 x i)
  then show ?case
    using cdr_box.run_mailbox [of img "pf_cdr_area pf" "cdr_side x"]
    by (cases i) (simp_all add: cdr_trace_def cdr_side_next cdr_side_power list_all_iff del: store_next.simps)
qed

subsection \<open>From a stored snapshot to the upload\<close>

text \<open>
  The device is connected, the upload thread has a reason to run, no persist is scheduled, and the partitions
  hold the snapshots \<open>p\<close> and \<open>q\<close>.
\<close>

definition store_ready ::
  "'k ksem \<Rightarrow> ('f \<Rightarrow> byte list) \<Rightarrow> ('g \<Rightarrow> byte list) \<Rightarrow> byte list \<times> byte list \<Rightarrow> byte list \<Rightarrow> ('f, 'g) core_sys \<times> 'k \<Rightarrow> bool" where
  "store_ready ks imgl imgc p q x \<longleftrightarrow> core_online (fst x) \<and> \<not> csy_pending (fst x) \<and>
     (csy_pc (fst x) = UP_take \<longrightarrow> 0 < k_sem_count_get ks (snd x)) \<and>
     log_shape (length (fst p)) (length (snd p)) (fst (log_side x)) \<and> cdr_inv (fst (cdr_side x)) \<and>
     log_content (length (fst p)) (length (snd p)) (imgl (snd (log_side x))) = Some p \<and>
     cdr_content (imgc (snd (cdr_side x))) = Some q"

text \<open>Inputs that leave the connection and the partitions alone.\<close>

fun store_quiet :: "nat \<Rightarrow> nat \<Rightarrow> store_input \<Rightarrow> bool" where
  "store_quiet lc ls (Store_unit (Unit_core i)) =
     (upload_quiet i \<and> (case i of Core_in_network msg \<Rightarrow> nm_type msg \<noteq> NETWORK_NOT_READY | _ \<Rightarrow> True))"
| "store_quiet lc ls (Store_unit (Unit_cdr ev)) = fw_cdr_event ev"
| "store_quiet lc ls (Store_unit (Unit_heartbeat env)) = True"
| "store_quiet lc ls (Store_write c s) = (length c = lc \<and> length s = ls)"
| "store_quiet lc ls (Store_power c s reg) = False"

fun dev_quiet :: "nat \<Rightarrow> nat \<Rightarrow> dev_input \<Rightarrow> bool" where
  "dev_quiet lc ls (Dev_run i) = (case i of Fw_net e \<Rightarrow> event_up e | Fw_upload_thread env \<Rightarrow> False | _ \<Rightarrow> True)"
| "dev_quiet lc ls (Dev_log_write c s) = (length c = lc \<and> length s = ls)"
| "dev_quiet lc ls (Dev_power_cycle c s env reg) = False"

fun dev_tick :: "core_cfg \<Rightarrow> dev_input \<Rightarrow> bool" where
  "dev_tick cfg (Dev_run (Fw_upload_thread env)) = (\<not> (cc_post_coredump_on_connect cfg \<and> ce_has_valid_coredump env))"
| "dev_tick cfg _ = False"

lemma dev_quiet_view: "dev_quiet lc ls i \<Longrightarrow> list_all (store_quiet lc ls) (store_view pf i)"
proof (cases i)
  case (Dev_run j)
  assume q: "dev_quiet lc ls i"
  show ?thesis
  proof (cases j)
    case (Fw_net e)
    then show ?thesis using q Dev_run
      by (cases e) (auto simp: list_all_iff deliveries_def event_msgs_def split: if_splits)
  next
    case (Fw_button env msg)
    have "list_all (store_quiet lc ls) (map Store_unit (unit_button env msg ob))" for ob by (cases ob) simp_all
    then show ?thesis using Dev_run Fw_button by (simp add: list_all_iff)
  qed (use q Dev_run in simp_all)
qed simp_all

lemma give_counts: "ksem_ok ks \<Longrightarrow> 0 < k_sem_count_get ks k \<Longrightarrow> 0 < k_sem_count_get ks (k_sem_give ks k)"
  by (simp add: ksem_ok_def)

lemma store_quiet_step:
  assumes "ksem_ok (pf_sem pf)" "flash_ok imgc (pf_cdr_area pf)" "store_ready (pf_sem pf) imgl imgc p q x"
    and "store_quiet (length (fst p)) (length (snd p)) i"
  shows "store_ready (pf_sem pf) imgl imgc p q (store_next pf sem0 i x) \<and> csy_pc (fst (store_next pf sem0 i x)) = csy_pc (fst x)"
proof (cases i)
  case (Store_unit u)
  show ?thesis
  proof (cases u)
    case (Unit_core j)
    let ?r = "core_handle (fc_core (pf_cfg pf)) (pf_log_area pf) (pf_cdr_area pf) j (fst x)"
    have on: "core_online (fst ?r) \<and> csy_pc (fst ?r) = csy_pc (fst x)"
      using core_online_quiet [of "fst x" j] assms(3,4) Store_unit Unit_core by (simp add: store_ready_def)
    have nb: "\<not> upload_blocked (pf_sem pf) j (csy_pc (fst x)) (snd x)" using assms(4) Store_unit Unit_core by (cases j) simp_all
    have "\<not> csy_pending (fst ?r) \<and> csy_world (fst ?r) = csy_world (fst x) \<and>
        (0 < k_sem_count_get (pf_sem pf) (snd x) \<longrightarrow> 0 < k_sem_count_get (pf_sem pf) (upload_sem_after (pf_sem pf) (snd x) (snd ?r)))"
      using assms(3,4) Store_unit Unit_core give_counts [OF assms(1)]
      by (cases j) (auto simp: store_ready_def core_handle_def core_listener_defs memfault_button_listener_def Let_def
          split: wifi_msg_type.splits)
    then show ?thesis using Store_unit Unit_core nb on assms(3)
      by (auto simp: store_ready_def log_side_def cdr_side_def split_beta Let_def)
  next
    case (Unit_cdr ev)
    obtain cdr g cs where e: "cdr_exec (pf_cdr_area pf) ev (cdr_side x) = ((cdr, g), cs)" by (metis prod.collapse)
    have "g = snd (cdr_side x)" using e assms(4) Store_unit Unit_cdr
      by (cases ev) (auto simp: cdr_side_def split: prod.splits)
    moreover have "cdr_inv cdr" using cdr_exec_inv [OF assms(2), of "cdr_side x" ev] e assms(3) by (simp add: store_ready_def)
    ultimately show ?thesis using Store_unit Unit_cdr assms(3) e
      by (auto simp: store_ready_def core_online_def core_inv_def log_side_def cdr_side_def split_beta Let_def)
  qed (use Store_unit assms(3) in simp)
qed (use assms(3,4) in \<open>auto simp: store_ready_def core_online_def core_inv_def log_side_def cdr_side_def\<close>)

lemma store_quiet_run:
  assumes "ksem_ok (pf_sem pf)" "flash_ok imgc (pf_cdr_area pf)" "store_ready (pf_sem pf) imgl imgc p q x"
    and "list_all (store_quiet (length (fst p)) (length (snd p))) is"
  shows "store_ready (pf_sem pf) imgl imgc p q (fst (run_machine (\<lambda>i x. (store_next pf sem0 i x, [] :: unit list)) is x)) \<and>
    csy_pc (fst (fst (run_machine (\<lambda>i x. (store_next pf sem0 i x, [] :: unit list)) is x))) = csy_pc (fst x)"
  using assms(3,4)
proof (induction "is" arbitrary: x)
  case (Cons i js)
  then show ?case using store_quiet_step [OF assms(1,2) Cons.prems(1), of i sem0] by simp
qed simp

lemma heartbeat_from_thread:
  "Core_heartbeat_debug_trigger \<in> set (snd (core_handle cfg fal fac (Core_in_thread env) c)) \<Longrightarrow>
   csy_pc c = UP_after_dns \<and> wifi_connected (csy_state c)"
  by (cases "csy_pc c") (auto simp: core_handle_def core_check_dns_ready_def split_beta Let_def split: if_splits)

lemma store_tick_step:
  assumes "store_ready (pf_sem pf) imgl imgc p q x" "upload_tick (fc_core (pf_cfg pf)) (Core_in_thread env)"
  shows "Fc_core Core_heartbeat_debug_trigger \<in> set (snd (core_unit pf (Unit_core (Core_in_thread env)) x)) \<or>
    store_ready (pf_sem pf) imgl imgc p q (fst (core_unit pf (Unit_core (Core_in_thread env)) x)) \<and>
    upload_rank (csy_pc (fst (fst (core_unit pf (Unit_core (Core_in_thread env)) x)))) < upload_rank (csy_pc (fst x))"
proof -
  let ?r = "core_handle (fc_core (pf_cfg pf)) (pf_log_area pf) (pf_cdr_area pf) (Core_in_thread env) (fst x)"
  have on: "core_online (fst x)" using assms(1) by (simp add: store_ready_def)
  have u: "core_unit pf (Unit_core (Core_in_thread env)) x =
      ((fst ?r, upload_sem_after (pf_sem pf) (snd x) (snd ?r)), map Fc_core (snd ?r))"
    using assms(1) by (auto simp: store_ready_def split_beta Let_def)
  note t = core_online_thread [OF on assms(2), of "pf_log_area pf" "pf_cdr_area pf"]
  show ?thesis
  proof (cases "csy_pc (fst x) = UP_after_dns")
    case True
    then have "Core_heartbeat_debug_trigger \<in> set (snd ?r)"
      using on assms(2) on_connect_heartbeat [of "fc_core (pf_cfg pf)" env]
      by (simp add: core_online_def core_handle_def split_beta Let_def)
    then show ?thesis using u by simp
  next
    case False
    then have "csy_world (fst ?r) = csy_world (fst x)" by (simp add: thread_world)
    moreover have "csy_pending (fst ?r) = csy_pending (fst x)" by (simp add: core_handle_def split_beta Let_def)
    moreover have "csy_pc (fst ?r) \<noteq> UP_take" using False on
      by (cases "csy_pc (fst x)") (auto simp: core_handle_def core_online_def split_beta Let_def)
    ultimately show ?thesis using u t assms(1) by (auto simp: store_ready_def log_side_def cdr_side_def)
  qed
qed

interpretation dev_progress: progress_machine "dev_step pf order sem0" "dev_tick (fc_core (pf_cfg pf))"
  "dev_quiet (length (fst p)) (length (snd p))"
  "\<lambda>x. ksem_ok (pf_sem pf) \<and> full_order order \<and> flash_ok imgc (pf_cdr_area pf) \<and> store_ready (pf_sem pf) imgl imgc p q (fw_unit x)"
  "\<lambda>x. upload_rank (csy_pc (fw_core x))" "\<lambda>c. c = Fc_core Core_heartbeat_debug_trigger" for pf order sem0 imgl imgc p q
proof (unfold_locales, goal_cases)
  case (1 x i)
  then obtain env where i: "i = Dev_run (Fw_upload_thread env)" "upload_tick (fc_core (pf_cfg pf)) (Core_in_thread env)"
    by (auto elim!: dev_tick.elims)
  have "core_unit pf (Unit_core (Core_in_thread env)) (fw_unit x) =
      (fw_unit (fst (dev_step pf order sem0 i x)), List.map_filter pick_core (snd (dev_step pf order sem0 i x)))"
    using core_in_fw.view_step [of pf "Fw_upload_thread env" x] i by simp
  then show ?case using 1 store_tick_step [of pf imgl imgc p q "fw_unit x" env] i(2)
    by (auto simp: fw_unit_def set_map_filter elim: pick_core.elims)
next
  case (2 x i)
  then show ?case
    using machine_view.view_step [OF store_in_dev, of order pf sem0 i x]
      store_quiet_run [of pf imgc imgl p q "fw_unit x" "store_view pf i" sem0] dev_quiet_view [of _ _ i pf]
    by (simp add: fw_unit_def)
qed

text \<open>The build the store works for: both features on, drivers and semaphores that behave, room in the partitions.\<close>

definition store_platform ::
  "('f, 'g, 'k) platform \<Rightarrow> ('f \<Rightarrow> byte list) \<Rightarrow> ('g \<Rightarrow> byte list) \<Rightarrow> nat \<Rightarrow> nat \<Rightarrow> bool" where
  "store_platform pf imgl imgc lc ls \<longleftrightarrow> pf_ok pf \<and> ksem_ok (pf_sem pf) \<and>
     flash_ok imgl (pf_log_area pf) \<and> flash_reliable (pf_log_area pf) \<and>
     flash_ok imgc (pf_cdr_area pf) \<and> flash_reliable (pf_cdr_area pf) \<and>
     cc_log_state_restore (fc_core (pf_cfg pf)) \<and> cc_cdr_state_restore (fc_core (pf_cfg pf)) \<and>
     log_sizes lc ls \<and> 16 + lc + ls \<le> unat (fa_size (pf_log_area pf)) \<and> 16 + 1024 \<le> unat (fa_size (pf_cdr_area pf))"

lemma store_platformD:
  assumes "store_platform pf imgl imgc lc ls"
  shows "pf_ok pf" "ksem_ok (pf_sem pf)" "flash_ok imgl (pf_log_area pf)" "flash_reliable (pf_log_area pf)"
    "flash_ok imgc (pf_cdr_area pf)" "flash_reliable (pf_cdr_area pf)" "cc_log_state_restore (fc_core (pf_cfg pf))"
    "cc_cdr_state_restore (fc_core (pf_cfg pf))" "log_sizes lc ls" "16 + lc + ls \<le> unat (fa_size (pf_log_area pf))"
    "16 + 1024 \<le> unat (fa_size (pf_cdr_area pf))"
  using assms by (simp_all add: store_platform_def)

text \<open>What the upload thread does when its turn comes.\<close>

definition restore_calls :: "core_env \<Rightarrow> fw_call list" where
  "restore_calls env = map Fc_core ([Core_log_call Memfault_log_data_source_reset, Core_log_call Log_restore_marker,
     Core_log_call Log_flush, Core_log_trigger_collection, Core_heartbeat_debug_trigger] @
     (if ce_data_available env then [Core_post_data] else []))"

lemma store_restores:
  assumes pf: "store_platform pf imgl imgc (length (fst p)) (length (snd p))" and "store_ready (pf_sem pf) imgl imgc p q x"
    and "csy_pc (fst x) = UP_after_dns" and "upload_tick (fc_core (pf_cfg pf)) (Core_in_thread env)"
    and "core_unit pf (Unit_core (Core_in_thread env)) x = (y, cs)"
  shows "fst (log_side y) = log_live p \<and> cdr_recorded (fst (cdr_side y)) = q \<and> s_cdr_data_ready (fst (cdr_side y)) \<and>
    cs = restore_calls env"
proof -
  note P = store_platformD [OF pf]
  let ?w = "csy_world (fst x)"
  obtain c0 s0 where live: "cw_log ?w = log_live (c0, s0)" "length c0 = length (fst p)" "length s0 = length (snd p)"
    using assms(2) by (auto simp: store_ready_def log_shape_def log_side_def)
  have ct: "log_stored (c0, s0) (imgl (cw_log_flash ?w)) = Some p" "cdr_content (imgc (cw_cdr_flash ?w)) = Some q"
    and inv: "cdr_inv (cw_cdr ?w)"
    using assms(2) log_stored_shape [OF live(2,3)] by (simp_all add: store_ready_def log_side_def cdr_side_def)
  obtain live' lcs fl where rl: "memfault_log_state_restore_on_connect (pf_log_area pf) (log_live (c0, s0)) (cw_log_flash ?w) = (0, live', lcs, fl)"
    using log_restore_reliable [OF P(3,4) ct(1)] by (metis log_live_def fst_conv snd_conv prod.collapse)
  have live': "live' = log_live p" and lcs: "lcs = [Memfault_log_data_source_reset, Log_restore_marker, Log_flush]"
    using log_restore_success(1) [OF P(3) rl [unfolded log_live_def fst_conv snd_conv]] ct(1) by (auto simp: log_live_def)
  have len: "length (s_nrf70_fw_stats_blob (cw_cdr ?w)) = 1024" using inv by (simp add: cdr_inv_def)
  obtain cdr fc where rc: "mflt_nrf70_fw_stats_cdr_restore_from_flash (pf_cdr_area pf) (cw_cdr ?w) (cw_cdr_flash ?w) = (0, cdr, fc)"
    using cdr_restore_reliable [OF P(5,6) ct(2) len] by (metis prod.collapse)
  have "cdr_recorded cdr = q" using cdr_restore_recorded [OF P(5) inv rc] ct(2) by simp
  moreover have "s_cdr_data_ready cdr" using rc by (auto simp: cdr_restore_def Let_def split: prod.splits if_splits)
  moreover have "fst (core_unit pf (Unit_core (Core_in_thread env)) x) = y" "snd (core_unit pf (Unit_core (Core_in_thread env)) x) = cs"
    using assms(5) by simp_all
  moreover have "wifi_connected (csy_state (fst x))" using assms(2) by (simp add: store_ready_def core_online_def)
  ultimately show ?thesis
    using assms(3,4) live(1) rl rc live' lcs P(7,8)
    by (auto simp: core_handle_def on_connect_def restore_calls_def log_side_def cdr_side_def split_beta Let_def split: if_splits)
qed

text \<open>The delayed persist after a loss.\<close>

lemma persist_work_stores:
  assumes pf: "store_platform pf imgl imgc (length (fst p)) (length (snd p))" and "csy_pending (fst x)"
    and "fst (log_side x) = log_live p" and "cdr_inv (fst (cdr_side x))"
    and env: "rpu_ctx_present env" "fmac_stats_success env" "fmac_stats_fw env \<noteq> []" "length (fmac_stats_fw env) < 2 ^ 32"
  shows "log_content (length (fst p)) (length (snd p)) (imgl (snd (log_side (store_next pf sem0 (Store_unit (Unit_core (Core_in_work env))) x)))) = Some p \<and>
    cdr_content (imgc (snd (cdr_side (store_next pf sem0 (Store_unit (Unit_core (Core_in_work env))) x)))) = Some (take 1024 (fmac_stats_fw env))"
proof
  note P = store_platformD [OF pf]
  let ?i = "Store_unit (Unit_core (Core_in_work env))" and ?fa = "pf_log_area pf" and ?fc = "pf_cdr_area pf"
  have sh: "log_shape (length (fst p)) (length (snd p)) (fst (log_side x))" using assms(3) by simp
  have "log_side (store_next pf sem0 ?i x) = fst (log_exec ?fa Log_op_persist (log_side x))"
    using assms(2) P(7) by (simp add: log_side_next del: log_exec.simps store_next.simps)
  moreover have "box_op_of ` set (snd (log_exec ?fa Log_op_persist (log_side x))) = {Put p}" "length (snd (log_exec ?fa Log_op_persist (log_side x))) = 1"
    using assms(3) by (simp_all add: split_beta Let_def)
  moreover from this have "map box_op_of (snd (log_exec ?fa Log_op_persist (log_side x))) = [Put p]"
    by (cases "snd (log_exec ?fa Log_op_persist (log_side x))") auto
  ultimately show "log_content (length (fst p)) (length (snd p)) (imgl (snd (log_side (store_next pf sem0 ?i x)))) = Some p"
    using log_step_mailbox [OF P(3,4,9,10) sh, of Log_op_persist] by (simp del: log_exec.simps)
  let ?per = "mflt_nrf70_fw_stats_cdr_persist_to_flash ?fc env (fst (cdr_side x)) (snd (cdr_side x))"
  have "16 + length (take 1024 (fmac_stats_fw env)) \<le> unat (fa_size ?fc)" using P(11) by simp
  then obtain s' cs f' where per: "?per = (0, s', cs, f')"
    using cdr_persist_reliable [OF P(6) assms(4) env] by (metis prod.collapse)
  note pay = cdr_persist_payload [OF assms(4) env(4) per]
  have "cdr_fits [] (take 1024 (fmac_stats_fw env))" using pay by (simp add: cdr_fits_def)
  then have "cdr_content (imgc f') = Some (take 1024 (fmac_stats_fw env))" using cdr_store.persist_stores [OF P(5)] pay by blast
  moreover have "snd (cdr_side (store_next pf sem0 ?i x)) = f'"
    using per assms(2) P(8) cdr_side_next [of ?i pf sem0 x]
    by (cases "cdr_side x") (simp add: cdr_box_exec_def del: store_next.simps)
  ultimately show "cdr_content (imgc (snd (cdr_side (store_next pf sem0 ?i x)))) = Some (take 1024 (fmac_stats_fw env))" by simp
qed

text \<open>Without an address nothing touches the partitions, whatever happens and however often the power goes.\<close>

fun store_offline :: "store_input \<Rightarrow> bool" where
  "store_offline (Store_unit u) = unit_offline_input u"
| "store_offline _ = True"

fun dev_offline :: "dev_input \<Rightarrow> bool" where
  "dev_offline (Dev_run i) = never_up [i]"
| "dev_offline _ = True"

lemma dev_offline_view: "dev_offline i \<Longrightarrow> list_all store_offline (store_view pf i)"
  using never_up_units [of "[_]" _ pf] by (cases i) (auto simp: list_all_iff)

lemma store_offline_run:
  assumes "k_sem_count_get (pf_sem pf) sem0 = 0" "core_offline (pf_sem pf) w (fst x) (snd x)" "list_all store_offline is"
  shows "core_offline (pf_sem pf) w (fst (fst (run_machine (\<lambda>i x. (store_next pf sem0 i x, [] :: unit list)) is x)))
    (snd (fst (run_machine (\<lambda>i x. (store_next pf sem0 i x, [] :: unit list)) is x)))"
  using assms(2,3)
proof (induction "is" arbitrary: x)
  case (Cons i js)
  have "core_offline (pf_sem pf) w (fst (store_next pf sem0 i x)) (snd (store_next pf sem0 i x))"
    using Cons.prems assms(1) unit_offline_step [of pf w x]
    by (cases i) (auto simp: core_offline_def core_initial_def core_boot_state_def power_world_def)
  then show ?case using Cons by simp
qed simp

text \<open>The invariants of the storage side over the life of a device.\<close>

definition store_inv :: "nat \<Rightarrow> nat \<Rightarrow> ('f, 'g) core_sys \<times> 'k \<Rightarrow> bool" where
  "store_inv lc ls x \<longleftrightarrow> core_inv (fst x) \<and> log_shape lc ls (fst (log_side x)) \<and> cdr_inv (fst (cdr_side x))"

lemma store_inv_next:
  assumes "flash_ok imgl (pf_log_area pf)" "flash_ok imgc (pf_cdr_area pf)" "store_inv lc ls x" "store_shape lc ls i"
  shows "store_inv lc ls (store_next pf sem0 i x)"
proof -
  have "core_inv (fst (store_next pf sem0 i x))"
    using assms(3) unit_core_inv [of x pf]
    by (cases i) (simp_all add: store_inv_def core_inv_def core_initial_def core_boot_state_def)
  moreover have "log_shape lc ls (fst (log_side (store_next pf sem0 i x)))"
  proof -
    have "log_shape lc ls (fst (fst (log_exec (pf_log_area pf) op y)))"
      if "log_shape lc ls (fst y)" "log_op_shape lc ls op" for op y
      using that log_restore_shape [OF assms(1)] by (cases op) (auto simp: split_beta Let_def prod_eq_iff)
    then have "log_shape lc ls (fst (fst (run_machine (log_exec (pf_log_area pf)) ops y)))"
      if "log_shape lc ls (fst y)" "list_all (log_op_shape lc ls) ops" for ops y
      using that by (induction ops arbitrary: y) simp_all
    then show ?thesis using assms(3) by (simp add: log_side_next store_inv_def log_ops_shape [OF assms(4)])
  qed
  moreover have "cdr_inv (fst (cdr_side (store_next pf sem0 i x)))"
    using assms(3) unit_cdr_inv [OF assms(2), of x] cdr_side_power [of pf sem0 _ _ _ x]
    by (cases i) (simp_all add: store_inv_def cdr_side_def)
  ultimately show ?thesis by (simp add: store_inv_def)
qed

lemma store_inv_run:
  assumes "flash_ok imgl (pf_log_area pf)" "flash_ok imgc (pf_cdr_area pf)" "store_inv lc ls x" "list_all (store_shape lc ls) is"
  shows "store_inv lc ls (fst (run_machine (\<lambda>i x. (store_next pf sem0 i x, [] :: unit list)) is x))"
  using assms(3,4) by (induction "is" arbitrary: x) (simp_all add: store_inv_next [OF assms(1,2)])

text \<open>An address is bound and the listeners hear of it: the upload thread is woken and no persist is scheduled.\<close>

lemma connect_makes_ready:
  assumes "pub_reached (np_wifi rs)" "pf_ok pf" "ksem_ok (pf_sem pf)" "store_inv (length (fst p)) (length (snd p)) (fw_unit x)"
    "log_content (length (fst p)) (length (snd p)) (imgl (snd (log_side (fw_unit x)))) = Some p"
    "cdr_content (imgc (snd (cdr_side (fw_unit x)))) = Some q"
  shows "store_ready (pf_sem pf) imgl imgc p q (fw_unit (fst (fw_step pf (Fw_net (Dhcp_bound rs mode mac ssid)) x))) \<and>
    csy_pc (fw_core (fst (fw_step pf (Fw_net (Dhcp_bound rs mode mac ssid)) x))) = csy_pc (fw_core x)"
proof -
  let ?e = "Dhcp_bound rs mode mac ssid" and ?y = "fst (fw_step pf (Fw_net (Dhcp_bound rs mode mac ssid)) x)"
  have v: "unit_view pf (Fw_net ?e) = Unit_core (Core_in_wifi WIFI_STA_CONNECTED) #
      (if pub_reached (np_network rs) then [Unit_core (Core_in_network (event_network ?e))] else [])"
    using once_per_event [OF assms(2), of Obs_core ?e] assms(1) by simp
  have y: "fw_unit ?y = fst (run_machine (core_unit pf) (unit_view pf (Fw_net ?e)) (fw_unit x))"
    using core_in_fw.view_step [of pf "Fw_net ?e" x] by (simp only: fst_conv)
  have give: "0 < k_sem_count_get (pf_sem pf) (k_sem_give (pf_sem pf) k)" for k using assms(3) by (simp add: ksem_ok_def)
  have "core_inv (fst (fst (run_machine (core_unit pf) (unit_view pf (Fw_net ?e)) (fw_unit x))))"
    using assms(4) by (simp add: v store_inv_def unit_core_inv del: core_unit.simps unit_view.simps)
  then have "store_ready (pf_sem pf) imgl imgc p q (fw_unit ?y) \<and> csy_pc (fst (fw_unit ?y)) = csy_pc (fst (fw_unit x))"
    unfolding y v using assms(4-6) give
    by (auto simp: store_ready_def core_online_def store_inv_def log_side_def cdr_side_def
        core_handle_def memfault_wifi_listener_def memfault_network_listener_def Let_def)
  then show ?thesis by (simp add: fw_unit_def)
qed

text \<open>The device and its storage side.\<close>

abbreviation store_run :: "('f, 'g, 'k) platform \<Rightarrow> 'k \<Rightarrow> store_input list \<Rightarrow> ('f, 'g) core_sys \<times> 'k \<Rightarrow> ('f, 'g) core_sys \<times> 'k" where
  "store_run pf sem0 is x \<equiv> fst (run_machine (\<lambda>i x. (store_next pf sem0 i x, [] :: unit list)) is x)"

abbreviation dev_run :: "('f, 'g, 'k) platform \<Rightarrow> init_fn list \<Rightarrow> 'k \<Rightarrow> dev_input list \<Rightarrow> ('f, 'g, 'k) firmware \<Rightarrow> ('f, 'g, 'k) firmware" where
  "dev_run pf order sem0 is x \<equiv> fst (run_machine (dev_step pf order sem0) is x)"

lemma dev_run_store:
  "full_order order \<Longrightarrow> fw_unit (dev_run pf order sem0 is x) = store_run pf sem0 (concat (map (store_view pf) is)) (fw_unit x)"
  using machine_view.view_run [OF store_in_dev, of order pf sem0 "is" x] by simp

lemma dev_run_inv:
  assumes "full_order order" "flash_ok imgl (pf_log_area pf)" "flash_ok imgc (pf_cdr_area pf)"
    "store_inv lc ls (fw_unit x)" "list_all (dev_shape lc ls) is"
  shows "store_inv lc ls (fw_unit (dev_run pf order sem0 is x))"
  unfolding dev_run_store [OF assms(1)] by (rule store_inv_run [OF assms(2-4) dev_shapes_view [OF assms(5)]])

lemma store_inv_boot:
  "log_shape lc ls (cw_log w) \<Longrightarrow> cdr_inv (cw_cdr w) \<Longrightarrow> store_inv lc ls (fw_unit (fw_boot pf w sem0))"
  by (simp add: store_inv_def fw_unit_def fw_boot_def core_initial_def core_boot_state_def core_inv_def log_side_def cdr_side_def)

text \<open>What the partitions hold, and that the upload thread waits.\<close>

definition store_holds ::
  "('f \<Rightarrow> byte list) \<Rightarrow> ('g \<Rightarrow> byte list) \<Rightarrow> byte list \<times> byte list \<Rightarrow> byte list \<Rightarrow> ('f, 'g) core_sys \<times> 'k \<Rightarrow> bool" where
  "store_holds imgl imgc p q x \<longleftrightarrow> store_inv (length (fst p)) (length (snd p)) x \<and>
     log_content (length (fst p)) (length (snd p)) (imgl (snd (log_side x))) = Some p \<and> cdr_content (imgc (snd (cdr_side x))) = Some q"

lemma loss_is_stored:
  assumes pf: "store_platform pf imgl imgc (length (fst p)) (length (snd p))"
    and "store_inv (length (fst p)) (length (snd p)) (fw_unit x)" and "csy_pending (fw_core x)" and "cw_log (csy_world (fw_core x)) = log_live p"
    and "rpu_ctx_present env" "fmac_stats_success env" "fmac_stats_fw env \<noteq> []" "length (fmac_stats_fw env) < 2 ^ 32"
  shows "store_holds imgl imgc p (take 1024 (fmac_stats_fw env)) (fw_unit (fst (fw_step pf (Fw_freeze_work env) x)))"
proof -
  note P = store_platformD [OF pf]
  let ?i = "Store_unit (Unit_core (Core_in_work env))"
  have v: "fw_unit (fst (fw_step pf (Fw_freeze_work env) x)) = store_next pf undefined ?i (fw_unit x)"
    using core_in_fw.view_step [of pf "Fw_freeze_work env" x] by simp
  have "store_inv (length (fst p)) (length (snd p)) (store_next pf undefined ?i (fw_unit x))"
    by (rule store_inv_next [OF P(3,5) assms(2)]) simp
  then show ?thesis
    using persist_work_stores [OF pf, of "fw_unit x" env undefined] assms(2-8)
    unfolding v store_holds_def by (simp add: store_inv_def log_side_def cdr_side_def fw_unit_def del: store_next.simps)
qed

lemma offline_keeps_store:
  assumes "full_order order" and pf: "store_platform pf imgl imgc (length (fst p)) (length (snd p))"
    and sem: "k_sem_count_get (pf_sem pf) sem0 = 0" and "store_holds imgl imgc p q (fw_unit x)"
    and "list_all (\<lambda>i. dev_offline i \<and> dev_shape (length (fst p)) (length (snd p)) i) (Dev_power_cycle c0 s0 benv reg # off)"
  shows "store_holds imgl imgc p q (fw_unit (dev_run pf order sem0 (Dev_power_cycle c0 s0 benv reg # off) x)) \<and>
    csy_pc (fw_core (dev_run pf order sem0 (Dev_power_cycle c0 s0 benv reg # off) x)) = UP_take"
proof -
  note P = store_platformD [OF pf]
  let ?is = "Dev_power_cycle c0 s0 benv reg # off" and ?b = "store_next pf sem0 (Store_power c0 s0 reg) (fw_unit x)"
  have i: "store_inv (length (fst p)) (length (snd p)) (fw_unit (dev_run pf order sem0 ?is x))"
    using assms(4,5) by (intro dev_run_inv [OF assms(1) P(3,5)]) (simp_all add: store_holds_def list_all_iff)
  have b: "core_offline (pf_sem pf) (csy_world (fw_core x)) (fst ?b) (snd ?b)"
    using sem by (simp add: core_offline_def core_initial_def core_boot_state_def power_world_def fw_unit_def)
  have "list_all store_offline (concat (map (store_view pf) off))"
    using assms(5) by (induction off) (simp_all add: dev_offline_view)
  then have "core_offline (pf_sem pf) (csy_world (fw_core x)) (fst (fw_unit (dev_run pf order sem0 ?is x)))
      (snd (fw_unit (dev_run pf order sem0 ?is x)))"
    unfolding dev_run_store [OF assms(1)] using store_offline_run [OF sem b] by simp
  then show ?thesis using i assms(4) by (simp add: core_offline_def store_holds_def log_side_def cdr_side_def fw_unit_def)
qed

lemma upload_calls_core:
  "List.map_filter pick_core (snd (fw_step pf (Fw_upload_thread env) x)) = snd (fw_step pf (Fw_upload_thread env) x)"
  by (simp add: List.map_filter_simps)

lemma connection_uploads_store:
  assumes "full_order order" and pf: "store_platform pf imgl imgc (length (fst p)) (length (snd p))"
    and "store_ready (pf_sem pf) imgl imgc p q (fw_unit x)"
    and "list_all (\<lambda>i. dev_tick (fc_core (pf_cfg pf)) i \<or> dev_quiet (length (fst p)) (length (snd p)) i) js"
    and "95 \<le> length (filter (dev_tick (fc_core (pf_cfg pf))) js)"
  shows "\<exists>js1 env js2 z. js = js1 @ Dev_run (Fw_upload_thread env) # js2 \<and>
    fw_step pf (Fw_upload_thread env) (dev_run pf order sem0 js1 x) = (z, restore_calls env) \<and>
    cw_log (csy_world (fw_core z)) = log_live p \<and> cdr_recorded (cw_cdr (csy_world (fw_core z))) = q \<and>
    s_cdr_data_ready (cw_cdr (csy_world (fw_core z)))"
proof -
  note P = store_platformD [OF pf]
  have "upload_rank (csy_pc (fw_core x)) \<le> 94"
    using upload_progress.rank_bound [of "fw_core x"] assms(3) by (simp add: store_ready_def fw_unit_def)
  then obtain js1 i js2 where js: "js = js1 @ i # js2" "dev_tick (fc_core (pf_cfg pf)) i"
    and go: "store_ready (pf_sem pf) imgl imgc p q (fw_unit (dev_run pf order sem0 js1 x))"
    and hb: "Fc_core Core_heartbeat_debug_trigger \<in> set (snd (dev_step pf order sem0 i (dev_run pf order sem0 js1 x)))"
    using dev_progress.reaches_at [of pf order imgc imgl p q x js sem0] P(2,5) assms(1,3-5) by auto
  obtain env where env: "i = Dev_run (Fw_upload_thread env)" "upload_tick (fc_core (pf_cfg pf)) (Core_in_thread env)"
    using js(2) by (auto elim!: dev_tick.elims)
  let ?y = "dev_run pf order sem0 js1 x"
  obtain z ds where z: "fw_step pf (Fw_upload_thread env) ?y = (z, ds)" by (metis prod.collapse)
  have u: "core_unit pf (Unit_core (Core_in_thread env)) (fw_unit ?y) = (fw_unit z, ds)"
    using core_in_fw.view_step [of pf "Fw_upload_thread env" ?y] upload_calls_core [of pf env ?y] z
    by (simp del: fw_step.simps core_unit.simps)
  then have "Fc_core Core_heartbeat_debug_trigger \<in> set (snd (core_unit pf (Unit_core (Core_in_thread env)) (fw_unit ?y)))"
    using hb env(1) z by simp
  then have "csy_pc (fst (fw_unit ?y)) = UP_after_dns"
    using heartbeat_from_thread [of "fc_core (pf_cfg pf)" "pf_log_area pf" "pf_cdr_area pf" env "fst (fw_unit ?y)"]
    by (auto simp: split_beta Let_def split: if_splits)
  from store_restores [OF pf go this env(2) u] show ?thesis
    using js(1) env(1) z by (intro exI [of _ js1] exI [of _ env] exI [of _ js2] exI [of _ z])
      (simp add: log_side_def cdr_side_def fw_unit_def)
qed

subsection \<open>Properties\<close>


definition sample_life :: "dev_input list" where
  "sample_life = [Dev_run (Fw_net (Dhcp_bound pubs_ok ZEGO_WIFI_MODE_STA None None)), Dev_run (Fw_net (Wifi_disconnect pubs_ok True)),
     Dev_run (Fw_freeze_work cdr_sample_env), Dev_power_cycle [0, 0] [0, 0, 0] sample_core_env True]"

definition cut_pf :: "(byte list \<times> nat, byte list \<times> nat, bool) platform" where
  "cut_pf = \<lparr>pf_cfg = pf_cfg sample_pf, pf_log_area = cut_flash 64, pf_cdr_area = cut_flash 2048, pf_sem = bool_sem,
     pf_order = pf_order sample_pf, pf_border = pf_border sample_pf\<rparr>"

definition cut_world :: "(byte list \<times> nat, byte list \<times> nat) core_world" where
  "cut_world = \<lparr>cw_log = log_live ([1, 2], [3, 4, 5]), cw_cdr = cdr_boot_state, cw_log_flash = ([], 75), cw_cdr_flash = ([], 4096)\<rparr>"


text \<open>
  C1: what was lost with the connection is uploaded with the next one. Take any life of a device up to a state
  in which the loss of the connection has been reported and the persist is pending. The persist runs; the power
  goes; whatever happens until an address is bound again (buttons, threads, log lines, more power cycles); then
  an address is bound, the message reaches the listeners and the connection holds. By the time the upload thread has had 95 turns it has put
  the log of the loss back into the live buffer, byte for byte, offered the Wi-Fi statistics of the loss for
  upload, and triggered the collection and the upload, in this order.
\<close>

theorem firmware_store_and_forward:
  assumes "full_order order" and "store_platform pf imgl imgc (length (fst p)) (length (snd p))"
    and "k_sem_count_get (pf_sem pf) sem0 = 0"
    and "log_shape (length (fst p)) (length (snd p)) (cw_log w)" and "cdr_inv (cw_cdr w)"
    and "list_all (dev_shape (length (fst p)) (length (snd p))) life"
    and "run_machine (dev_step pf order sem0) life (fw_boot pf w sem0) = (x, cs)"
    and "csy_pending (fw_core x)" and "cw_log (csy_world (fw_core x)) = log_live p"
    and "rpu_ctx_present fenv" and "fmac_stats_success fenv" and "fmac_stats_fw fenv \<noteq> []" and "length (fmac_stats_fw fenv) < 2 ^ 32"
    and "length c0 = length (fst p)" and "length s0 = length (snd p)"
    and "list_all (\<lambda>i. dev_offline i \<and> dev_shape (length (fst p)) (length (snd p)) i) off"
    and "list_all (\<lambda>i. dev_tick (fc_core (pf_cfg pf)) i \<or> dev_quiet (length (fst p)) (length (snd p)) i) js"
    and "95 \<le> length (filter (dev_tick (fc_core (pf_cfg pf))) js)" and "pub_reached (np_wifi rs)"
  shows "\<exists>js1 env js2 z. js = js1 @ Dev_run (Fw_upload_thread env) # js2 \<and>
    fw_step pf (Fw_upload_thread env) (fst (run_machine (dev_step pf order sem0)
      ([Dev_run (Fw_freeze_work fenv), Dev_power_cycle c0 s0 benv reg] @ off @ [Dev_run (Fw_net (Dhcp_bound rs mode mac ssid))] @ js1) x)) =
      (z, restore_calls env) \<and>
    cw_log (csy_world (fw_core z)) = log_live p \<and>
    cdr_recorded (cw_cdr (csy_world (fw_core z))) = take 1024 (fmac_stats_fw fenv) \<and>
    s_cdr_data_ready (cw_cdr (csy_world (fw_core z)))"
proof -
  note P = store_platformD [OF assms(2)]
  define x1 where "x1 = fst (fw_step pf (Fw_freeze_work fenv) x)"
  define x2 where "x2 = dev_run pf order sem0 (Dev_power_cycle c0 s0 benv reg # off) x1"
  define x3 where "x3 = fst (fw_step pf (Fw_net (Dhcp_bound rs mode mac ssid)) x2)"
  have "store_inv (length (fst p)) (length (snd p)) (fw_unit x)"
    using dev_run_inv [OF assms(1) P(3,5) store_inv_boot [OF assms(4,5), of pf sem0] assms(6), of sem0] assms(7) by simp
  then have "store_holds imgl imgc p (take 1024 (fmac_stats_fw fenv)) (fw_unit x1)"
    unfolding x1_def by (rule loss_is_stored [OF assms(2) _ assms(8-13)])
  then have "store_holds imgl imgc p (take 1024 (fmac_stats_fw fenv)) (fw_unit x2)"
    unfolding x2_def using offline_keeps_store [OF assms(1-3)] assms(14-16) by simp
  then have "store_ready (pf_sem pf) imgl imgc p (take 1024 (fmac_stats_fw fenv)) (fw_unit x3)"
    unfolding x3_def store_holds_def using connect_makes_ready [OF assms(19) P(1,2)] by blast
  moreover have "fst (run_machine (dev_step pf order sem0) ([Dev_run (Fw_freeze_work fenv), Dev_power_cycle c0 s0 benv reg] @ off @
      [Dev_run (Fw_net (Dhcp_bound rs mode mac ssid))] @ js1) x) = dev_run pf order sem0 js1 x3" for js1
    by (simp add: x1_def x2_def x3_def fst_run_machine_append)
  ultimately show ?thesis using connection_uploads_store [OF assms(1,2) _ assms(17,18)] by presburger
qed

lemma sample_store_platform: "store_platform sample_pf (ram_image 64) (ram_image 2048) 2 3"
proof -
  have "fa_size (ram_flash n) = n" for n by (simp add: ram_flash_def)
  then show ?thesis
    using sample_pf_ok bool_sem_ok ram_flash_ok [of 64] ram_flash_ok [of 2048] ram_flash_reliable
    by (simp add: store_platform_def sample_pf_def core_default_cfg_def log_sizes_def)
qed

definition sample_loss :: "fw_input list" where
  "sample_loss = [Fw_net (Dhcp_bound pubs_ok ZEGO_WIFI_MODE_STA None None), Fw_net (Wifi_disconnect pubs_ok True)]"

lemma sample_loss_pending:
  assumes "run_machine (dev_step sample_pf sample_init_order False) (map Dev_run sample_loss)
    (fw_boot sample_pf core_sample_world False) = (x, cs)"
  shows "csy_pending (fw_core x) \<and> cw_log (csy_world (fw_core x)) = log_live ([1, 2], [3, 4, 5])"
proof -
  have "run_machine (dev_step sample_pf sample_init_order False) (map Dev_run is) y = run_machine (fw_step sample_pf) is y" for "is" y
    by (induction "is" arbitrary: y) (simp_all add: run_machine.simps(2))
  then have r: "run_machine (fw_step sample_pf) sample_loss (fw_boot sample_pf core_sample_world False) = (x, cs)" using assms by simp
  have v: "concat (map (unit_view sample_pf) sample_loss) =
      [Unit_core (Core_in_wifi WIFI_STA_CONNECTED), Unit_core (Core_in_network \<lparr>nm_type = NETWORK_READY, nm_ready = True\<rparr>),
       Unit_core (Core_in_wifi WIFI_STA_DISCONNECTED), Unit_core (Core_in_network \<lparr>nm_type = NETWORK_NOT_READY, nm_ready = False\<rparr>)]"
    using once_per_event [OF sample_pf_ok, of Obs_core] by (simp add: sample_loss_def)
  have "fw_unit x = fst (run_machine (core_unit sample_pf) (concat (map (unit_view sample_pf) sample_loss))
      (fw_unit (fw_boot sample_pf core_sample_world False)))" using core_unit_run [OF r] by simp
  then show ?thesis
    unfolding v by (simp add: fw_unit_def fw_boot_def core_initial_def core_boot_state_def core_handle_def core_listener_defs
        core_sample_world_def log_live_def split_beta Let_def)
qed

theorem firmware_store_and_forward_witness:
  "\<exists>js1 env js2 z. replicate 95 (Dev_run (Fw_upload_thread sample_core_env)) = js1 @ Dev_run (Fw_upload_thread env) # js2 \<and>
     fw_step sample_pf (Fw_upload_thread env) (fst (run_machine (dev_step sample_pf sample_init_order False)
       ([Dev_run (Fw_freeze_work cdr_sample_env), Dev_power_cycle [0, 0] [0, 0, 0] sample_core_env True] @ [] @
        [Dev_run (Fw_net (Dhcp_bound pubs_ok ZEGO_WIFI_MODE_STA None None))] @ js1)
       (fst (run_machine (dev_step sample_pf sample_init_order False) (map Dev_run sample_loss)
          (fw_boot sample_pf core_sample_world False))))) = (z, restore_calls env) \<and>
     cw_log (csy_world (fw_core z)) = log_live ([1, 2], [3, 4, 5]) \<and> cdr_recorded (cw_cdr (csy_world (fw_core z))) = [1, 2, 3]"
proof -
  let ?p = "([1, 2], [3, 4, 5]) :: byte list \<times> byte list"
  obtain x cs where r: "run_machine (dev_step sample_pf sample_init_order False) (map Dev_run sample_loss)
      (fw_boot sample_pf core_sample_world False) = (x, cs)" by (metis prod.collapse)
  note x = sample_loss_pending [OF r]
  have o: "full_order sample_init_order" using sample_init_order_ok by (simp add: init_order_def)
  have pf: "store_platform sample_pf (ram_image 64) (ram_image 2048) (length (fst ?p)) (length (snd ?p))"
    using sample_store_platform by (simp add: numeral_eq_Suc)
  have w: "k_sem_count_get (pf_sem sample_pf) False = 0" "log_shape (length (fst ?p)) (length (snd ?p)) (cw_log core_sample_world)"
    "cdr_inv (cw_cdr core_sample_world)" "list_all (dev_shape (length (fst ?p)) (length (snd ?p))) (map Dev_run sample_loss)"
    using cdr_boot_inv by (simp_all add: sample_pf_def bool_sem_def core_sample_world_def log_shape_def log_live_def sample_loss_def)
  have en: "rpu_ctx_present cdr_sample_env" "fmac_stats_success cdr_sample_env" "fmac_stats_fw cdr_sample_env \<noteq> []"
    "length (fmac_stats_fw cdr_sample_env) < 2 ^ 32" "take 1024 (fmac_stats_fw cdr_sample_env) = [1, 2, 3]"
    by (simp_all add: cdr_sample_env_def)
  have t: "dev_tick (fc_core (pf_cfg sample_pf)) (Dev_run (Fw_upload_thread sample_core_env))" by (simp add: sample_core_env_def)
  let ?js = "replicate 95 (Dev_run (Fw_upload_thread sample_core_env))"
  have js: "list_all (\<lambda>i. dev_tick (fc_core (pf_cfg sample_pf)) i \<or> dev_quiet (length (fst ?p)) (length (snd ?p)) i) ?js"
    "95 \<le> length (filter (dev_tick (fc_core (pf_cfg sample_pf))) ?js)"
    "length [0, 0 :: byte] = length (fst ?p)" "length [0, 0, 0 :: byte] = length (snd ?p)"
    "list_all (\<lambda>i. dev_offline i \<and> dev_shape (length (fst ?p)) (length (snd ?p)) i) []"
    using t by (simp_all add: list_all_iff del: dev_tick.simps)
  have "pub_reached (np_wifi pubs_ok)" by simp
  from firmware_store_and_forward [OF o pf w r conjunct1 [OF x] conjunct2 [OF x] en(1-4) js(3-5,1,2) this, of
      sample_core_env True ZEGO_WIFI_MODE_STA None None]
  show ?thesis unfolding r fst_conv en(5) by blast
qed

end
