(* ===== verification/Firmware_Metrics.thy ===== *)
theory Firmware_Metrics
  imports Firmware
begin

text \<open>
  The metrics of the whole application against their declarations in
  \<^verbatim>\<open>src/src/modules/app_memfault/config/memfault_metrics_heartbeat_config.def\<close>: which key a call of which module
  updates and how, that every update in every run is of the declared kind, and that the counters of the
  clients reach Memfault unaltered. Ten Wi-Fi keys are declared by the Memfault SDK and not by the application;
  \<open>sdk_wifi_metrics\<close> lists them with the declaration the application needs.
\<close>

subsection \<open>Declared metrics\<close>

datatype metric_type = Metric_unsigned | Metric_signed | Metric_string nat

datatype metric_value = Mv_set u32 | Mv_add u32 | Mv_signed int | Mv_string string

definition heartbeat_metric_type :: "memonitor_cfg \<Rightarrow> string \<Rightarrow> metric_type option" where
  "heartbeat_metric_type cfg k =
     (if k \<notin> set (heartbeat_metric_keys cfg) then None
      else if k = ''wifi_ap_ssid'' then Some (Metric_string 32)
      else if k = ''wifi_ap_bssid'' then Some (Metric_string 17)
      else Some Metric_unsigned)"

fun value_fits :: "metric_type \<Rightarrow> metric_value \<Rightarrow> bool" where
  "value_fits Metric_unsigned (Mv_set v) = True"
| "value_fits Metric_unsigned (Mv_add v) = True"
| "value_fits Metric_signed (Mv_signed v) = (- (2 ^ 31) \<le> v \<and> v < 2 ^ 31)"
| "value_fits (Metric_string n) (Mv_string s) = (length s \<le> n)"
| "value_fits _ _ = False"

text \<open>
  The Wi-Fi keys the application writes without declaring them: the kind of each and, for a text, the longest the
  application may write.
\<close>

definition sdk_wifi_metrics :: "(string \<times> metric_type) list" where
  "sdk_wifi_metrics =
     [(''wifi_standard_version'', Metric_string 13), (''wifi_security_type'', Metric_string 17),
      (''wifi_frequency_band'', Metric_string 3), (''wifi_ap_oui'', Metric_string 8),
      (''wifi_primary_channel'', Metric_unsigned), (''wifi_sta_rssi'', Metric_signed),
      (''wifi_beacon_interval'', Metric_unsigned), (''wifi_dtim_interval'', Metric_unsigned),
      (''wifi_twt_capable'', Metric_unsigned), (''wifi_tx_rate_mbps'', Metric_unsigned)]"

definition metric_declared :: "memonitor_cfg \<Rightarrow> string \<Rightarrow> metric_type option" where
  "metric_declared cfg k = (case heartbeat_metric_type cfg k of Some t \<Rightarrow> Some t | None \<Rightarrow> map_of sdk_wifi_metrics k)"

fun wm_key_name :: "wm_key \<Rightarrow> string" where
  "wm_key_name Wifi_ap_ssid = ''wifi_ap_ssid''"
| "wm_key_name Wifi_ap_bssid = ''wifi_ap_bssid''"
| "wm_key_name Wifi_ap_ssid_change_count = ''wifi_ap_ssid_change_count''"
| "wm_key_name Wifi_ap_bssid_change_count = ''wifi_ap_bssid_change_count''"
| "wm_key_name Wifi_standard_version = ''wifi_standard_version''"
| "wm_key_name Wifi_security_type = ''wifi_security_type''"
| "wm_key_name Wifi_frequency_band = ''wifi_frequency_band''"
| "wm_key_name Wifi_ap_oui = ''wifi_ap_oui''"
| "wm_key_name Wifi_primary_channel = ''wifi_primary_channel''"
| "wm_key_name Wifi_sta_rssi = ''wifi_sta_rssi''"
| "wm_key_name Wifi_beacon_interval = ''wifi_beacon_interval''"
| "wm_key_name Wifi_dtim_interval = ''wifi_dtim_interval''"
| "wm_key_name Wifi_twt_capable = ''wifi_twt_capable''"
| "wm_key_name Wifi_tx_rate_mbps = ''wifi_tx_rate_mbps''"

fun https_key_name :: "https_metric \<Rightarrow> string" where
  "https_key_name App_https_req_total_count = ''app_https_req_total_count''"
| "https_key_name App_https_req_fail_count = ''app_https_req_fail_count''"

fun mqtt_key_name :: "mqtt_metric \<Rightarrow> string" where
  "mqtt_key_name App_mqtt_echo_total_count = ''app_mqtt_echo_total_count''"
| "mqtt_key_name App_mqtt_echo_fail_count = ''app_mqtt_echo_fail_count''"

fun fw_metric_update :: "fw_call \<Rightarrow> (string \<times> metric_value) option" where
  "fw_metric_update (Fc_https (Https_metric_set k v)) = Some (https_key_name k, Mv_set v)"
| "fw_metric_update (Fc_mqtt (Mqtt_metric_set k v)) = Some (mqtt_key_name k, Mv_set v)"
| "fw_metric_update (Fc_core (Core_add_switch_1_toggle_count v)) = Some (''switch_1_toggle_count'', Mv_add v)"
| "fw_metric_update (Fc_core (Core_set_log_buf_bytes_used v)) = Some (''mflt_log_buf_bytes_used'', Mv_set v)"
| "fw_metric_update (Fc_wifi_metric (Wm_set_string k s)) = Some (wm_key_name k, Mv_string s)"
| "fw_metric_update (Fc_wifi_metric (Wm_set_unsigned k v)) = Some (wm_key_name k, Mv_set v)"
| "fw_metric_update (Fc_wifi_metric (Wm_set_signed k v)) = Some (wm_key_name k, Mv_signed v)"
| "fw_metric_update (Fc_wifi_metric (Wm_add k v)) = Some (wm_key_name k, Mv_add v)"
| "fw_metric_update (Fc_memonitor (k, v)) = Some (k, Mv_set v)"
| "fw_metric_update _ = None"

definition update_typed :: "memonitor_cfg \<Rightarrow> fw_call \<Rightarrow> bool" where
  "update_typed cfg c \<longleftrightarrow>
     (case fw_metric_update c of None \<Rightarrow> True
      | Some (k, v) \<Rightarrow> (case metric_declared cfg k of None \<Rightarrow> False | Some t \<Rightarrow> value_fits t v))"

text \<open>The strings of the network brick are an SSID and an address in text form; the signal strength is a C \<^verbatim>\<open>int\<close>.\<close>

fun input_fits :: "fw_input \<Rightarrow> bool" where
  "input_fits (Fw_net (Dhcp_bound rs mode mac ssid)) =
     ((case mac of None \<Rightarrow> True | Some a \<Rightarrow> length (c_str a) \<le> 17) \<and>
      (case ssid of None \<Rightarrow> True | Some n \<Rightarrow> length (c_str n) \<le> 32))"
| "input_fits (Fw_heartbeat env iface err status) = (- (2 ^ 31) \<le> ws_rssi status \<and> ws_rssi status < 2 ^ 31)"
| "input_fits _ = True"

subsection \<open>Which keys are written by whom\<close>

lemma common_keys:
  "set [''switch_1_toggle_count'', ''mflt_log_buf_bytes_used'', ''wifi_ap_ssid'', ''wifi_ap_bssid'',
     ''wifi_ap_ssid_change_count'', ''wifi_ap_bssid_change_count''] \<subseteq> set (heartbeat_metric_keys cfg)"
  unfolding heartbeat_metric_keys_def set_append by blast

lemma client_keys:
  "mc_https_client cfg \<Longrightarrow> https_key_name hk \<in> set (heartbeat_metric_keys cfg)"
  "mc_mqtt_client cfg \<Longrightarrow> mqtt_key_name mk \<in> set (heartbeat_metric_keys cfg)"
proof -
  have "mc_https_client cfg \<Longrightarrow> set [''app_https_req_total_count'', ''app_https_req_fail_count''] \<subseteq> set (heartbeat_metric_keys cfg)"
    "mc_mqtt_client cfg \<Longrightarrow> set [''app_mqtt_echo_total_count'', ''app_mqtt_echo_fail_count''] \<subseteq> set (heartbeat_metric_keys cfg)"
    unfolding heartbeat_metric_keys_def set_append by (simp_all only: simp_thms if_True) blast+
  note keys = this
  show "mc_https_client cfg \<Longrightarrow> https_key_name hk \<in> set (heartbeat_metric_keys cfg)" using keys(1) by (cases hk) simp_all
  show "mc_mqtt_client cfg \<Longrightarrow> mqtt_key_name mk \<in> set (heartbeat_metric_keys cfg)" using keys(2) by (cases mk) simp_all
qed

text \<open>The build that declares every key: none of them is a key of the SDK.\<close>

definition full_build :: memonitor_cfg where
  "full_build = \<lparr>mc_heap_monitor = True, mc_thread_monitor = True, mc_system_heap = True, mc_mbedtls_heap = True,
     mc_https_client = True, mc_mqtt_client = True, mc_bt = True, mc_ntp = True\<rparr>"

lemma sdk_keys_full: "list_all (\<lambda>k. k \<notin> set (heartbeat_metric_keys full_build)) (map fst sdk_wifi_metrics)"
  by code_simp

lemma keys_in_full: "set (heartbeat_metric_keys cfg) \<subseteq> set (heartbeat_metric_keys full_build)"
  unfolding heartbeat_metric_keys_def full_build_def set_append by (simp only: memonitor_cfg.simps simp_thms if_True) auto

lemma sdk_declared: "map_of sdk_wifi_metrics k = Some t \<Longrightarrow> metric_declared cfg k = Some t"
  using sdk_keys_full keys_in_full [of cfg] by (fastforce simp: metric_declared_def heartbeat_metric_type_def list_all_iff dest: map_of_SomeD)

lemma app_declared: "heartbeat_metric_type cfg k = Some t \<Longrightarrow> metric_declared cfg k = Some t"
  by (simp add: metric_declared_def)

definition memonitor_foreign :: "string list" where
  "memonitor_foreign = [''wifi_ap_ssid'', ''wifi_ap_bssid'', ''app_https_req_total_count'', ''app_https_req_fail_count'',
     ''app_mqtt_echo_total_count'', ''app_mqtt_echo_fail_count'']"

lemma table_foreign:
  "\<forall>h m b n. list_all (\<lambda>k. k \<notin> set memonitor_foreign) (map snd (s_thread_table (table_cfg h m b n)))"
  by code_simp

lemma heap_foreign:
  "list_all (\<lambda>k. k \<notin> set memonitor_foreign) [''ncs_system_heap_total'', ''ncs_system_heap_used'',
     ''ncs_system_heap_peak'', ''ncs_mbedtls_heap_total'', ''ncs_mbedtls_heap_used'', ''ncs_mbedtls_heap_peak'']"
  by code_simp

lemma heap_loop_foreign: "(k, v) \<in> set (heap_loop cfg hs) \<Longrightarrow> k \<notin> set memonitor_foreign"
  using heap_foreign by (induction hs) (auto simp: heap_entry_metrics_def split: if_splits)

lemma memonitor_keys:
  assumes "(k, v) \<in> set (memonitor_metrics_cb cfg heaps threads)"
  shows "k \<in> set (heartbeat_metric_keys cfg) \<and> k \<notin> set memonitor_foreign"
proof -
  have "list_all (\<lambda>k. k \<notin> set memonitor_foreign) (map snd (s_thread_table cfg))"
    using table_foreign s_thread_table_cfg [of cfg] by simp
  then have t: "(k, v) \<in> set (thread_loop cfg ts) \<Longrightarrow> k \<notin> set memonitor_foreign" for ts
    by (auto simp: thread_loop_set list_all_iff dest!: map_of_SomeD)
  show ?thesis using assms thread_loop_keys heap_loop_keys heap_loop_foreign t
    by (auto simp: memonitor_metrics_cb_def update_heap_metrics_def update_thread_metrics_def split: if_splits)
qed

subsection \<open>Every update of the application\<close>

definition fw_clients :: "fw_cfg \<Rightarrow> bool" where
  "fw_clients cfg \<longleftrightarrow> mc_https_client (fc_memonitor cfg) \<and> mc_mqtt_client (fc_memonitor cfg)"

definition trace_ok :: "memonitor_cfg \<Rightarrow> fw_call \<Rightarrow> bool" where
  "trace_ok cfg c \<longleftrightarrow> update_typed cfg c \<and> (case c of Fc_memonitor kv \<Rightarrow> fst kv \<notin> set memonitor_foreign | _ \<Rightarrow> True)"

lemma update_typedI:
  "fw_metric_update c = Some (k, v) \<Longrightarrow> metric_declared cfg k = Some t \<Longrightarrow> value_fits t v \<Longrightarrow> update_typed cfg c"
  by (simp add: update_typed_def)

lemma client_calls_ok:
  assumes "mc_https_client cfg" "mc_mqtt_client cfg"
  shows "trace_ok cfg (Fc_https hc)" "trace_ok cfg (Fc_mqtt mc)"
proof -
  have "https_key_name k \<noteq> ''wifi_ap_ssid''" "https_key_name k \<noteq> ''wifi_ap_bssid''" for k by (cases k; simp)+
  moreover have "mqtt_key_name k \<noteq> ''wifi_ap_ssid''" "mqtt_key_name k \<noteq> ''wifi_ap_bssid''" for k by (cases k; simp)+
  note names = calculation this
  have "metric_declared cfg (https_key_name k) = Some Metric_unsigned" for k
    using client_keys(1) [OF assms(1)] names by (intro app_declared) (simp add: heartbeat_metric_type_def)
  then show "trace_ok cfg (Fc_https hc)" by (cases hc) (simp_all add: trace_ok_def update_typed_def)
  have "metric_declared cfg (mqtt_key_name k) = Some Metric_unsigned" for k
    using client_keys(2) [OF assms(2)] names by (intro app_declared) (simp add: heartbeat_metric_type_def)
  then show "trace_ok cfg (Fc_mqtt mc)" by (cases mc) (simp_all add: trace_ok_def update_typed_def)
qed

lemma common_declared:
  "metric_declared cfg ''switch_1_toggle_count'' = Some Metric_unsigned"
  "metric_declared cfg ''mflt_log_buf_bytes_used'' = Some Metric_unsigned"
  "metric_declared cfg ''wifi_ap_ssid'' = Some (Metric_string 32)" "metric_declared cfg ''wifi_ap_bssid'' = Some (Metric_string 17)"
  "metric_declared cfg ''wifi_ap_ssid_change_count'' = Some Metric_unsigned"
  "metric_declared cfg ''wifi_ap_bssid_change_count'' = Some Metric_unsigned"
  using common_keys [of cfg] by (simp_all add: metric_declared_def heartbeat_metric_type_def)

lemma other_calls_ok: "trace_ok cfg (Fc_core cc)" "trace_ok cfg (Fc_ota oc)" "trace_ok cfg (Fc_cdr dc)" "trace_ok cfg (Fc_net nc)"
  by (cases cc; simp add: trace_ok_def update_typed_def common_declared)
    (simp_all add: trace_ok_def update_typed_def)

text \<open>The kind of every Wi-Fi key.\<close>

fun wm_type :: "wm_key \<Rightarrow> metric_type" where
  "wm_type Wifi_ap_ssid = Metric_string 32"
| "wm_type Wifi_ap_bssid = Metric_string 17"
| "wm_type Wifi_standard_version = Metric_string 13"
| "wm_type Wifi_security_type = Metric_string 17"
| "wm_type Wifi_frequency_band = Metric_string 3"
| "wm_type Wifi_ap_oui = Metric_string 8"
| "wm_type Wifi_sta_rssi = Metric_signed"
| "wm_type _ = Metric_unsigned"

lemma wm_declared: "metric_declared cfg (wm_key_name k) = Some (wm_type k)"
proof -
  have "metric_declared cfg k' = Some t" if "map_of sdk_wifi_metrics k' = Some t" for k' t
    using sdk_declared that .
  then show ?thesis by (cases k) (simp_all add: common_declared sdk_wifi_metrics_def)
qed

lemma wm_call_ok:
  "trace_ok cfg (Fc_wifi_metric wc) \<longleftrightarrow>
     (case wc of Wm_set_string k s \<Rightarrow> value_fits (wm_type k) (Mv_string s) | Wm_set_unsigned k v \<Rightarrow> value_fits (wm_type k) (Mv_set v)
      | Wm_set_signed k v \<Rightarrow> value_fits (wm_type k) (Mv_signed v) | Wm_add k v \<Rightarrow> value_fits (wm_type k) (Mv_add v))"
  by (cases wc) (simp_all add: trace_ok_def update_typed_def wm_declared)

lemma report_ok:
  assumes "\<And>b. bssid = Some b \<Longrightarrow> length (c_str b) \<le> 17" "\<And>n. ssid = Some n \<Longrightarrow> length (c_str n) \<le> 32"
  shows "list_all (trace_ok cfg) (map Fc_wifi_metric (snd (mflt_wifi_metrics_report_ssid_bssid ssid bssid s)))"
  using assms by (auto simp: mflt_wifi_metrics_report_ssid_bssid_def Let_def wm_call_ok split: option.splits)

lemma heartbeat_strings:
  "length (link_mode_str m) \<le> 13 \<and> length (security_str t) \<le> 17 \<and> length (band_str b) \<le> 3"
proof (intro conjI)
  show "length (link_mode_str m) \<le> 13" by (cases m) simp_all
  show "length (security_str t) \<le> 17" by (cases t) simp_all
  show "length (band_str b) \<le> 3" by (cases b) simp_all
qed

lemma collect_ok:
  assumes "- (2 ^ 31) \<le> ws_rssi status" "ws_rssi status < 2 ^ 31"
  shows "list_all (trace_ok cfg) (map Fc_wifi_metric (snd (mflt_wifi_metrics_collect iface err status s)))"
proof -
  let ?ssid = "take (min (ws_ssid_len status) WIFI_SSID_MAX_LEN) (ws_ssid status) @ [NUL]"
  let ?bssid = "snd (snprintk (replicate 18 NUL) (fmt_mac (take 6 (ws_bssid status))))"
  let ?oui = "snd (snprintk (replicate 9 NUL) (fmt_mac (take 3 (ws_bssid status))))"
  have b: "length (c_str ?bssid) \<le> 17" "length (c_str ?oui) \<le> 8" using snprintk_len [of 17] snprintk_len [of 8]
    by (simp_all add: numeral_eq_Suc)
  have n: "length (c_str ?ssid) \<le> 32"
    using length_c_str_le [of "take (min (ws_ssid_len status) WIFI_SSID_MAX_LEN) (ws_ssid status)"]
    by (simp add: c_str_snoc_NUL WIFI_SSID_MAX_LEN_def)
  show ?thesis using report_ok [of "Some ?bssid" "Some ?ssid" cfg s] b n assms heartbeat_strings
    by (simp add: mflt_wifi_metrics_collect_def split_beta Let_def wm_call_ok)
qed

lemma deliver_ok:
  assumes "fw_clients (pf_cfg pf)" "\<And>wc. c = Net_metric wc \<Longrightarrow> trace_ok (fc_memonitor (pf_cfg pf)) (Fc_wifi_metric wc)"
  shows "list_all (trace_ok (fc_memonitor (pf_cfg pf))) (snd (fw_deliver pf c x))"
proof -
  note ok = client_calls_ok [of "fc_memonitor (pf_cfg pf)"] other_calls_ok [of "fc_memonitor (pf_cfg pf)"]
  have n: "list_all (trace_ok (fc_memonitor (pf_cfg pf))) (snd (fw_notify_wifi pf m ob y))" for m ob y
    using assms(1) ok by (cases ob) (simp_all add: fw_clients_def fw_steps split_beta Let_def list_all_iff)
  have "list_all (trace_ok (fc_memonitor (pf_cfg pf))) (snd (run_machine (fw_notify_wifi pf m) (pf_order pf) x))" for m
    by (intro run_machine_calls n)
  then show ?thesis
    using assms(2) ok by (cases c) (simp_all add: fw_core_step_def split_beta Let_def list_all_iff)
qed

lemma dhcp_metrics_ok:
  assumes "input_fits (Fw_net (Dhcp_bound rs mode mac ssid))"
    "Net_metric wc \<in> set (snd (zego_on_net_event_dhcp_bound ncfg rs mode mac ssid s))"
  shows "trace_ok cfg (Fc_wifi_metric wc)"
  using report_ok [of mac ssid cfg s] assms
  by (auto simp: zego_on_net_event_dhcp_bound_def warn_failed_def split_beta Let_def list_all_iff split: if_splits option.splits)

lemma net_event_ok:
  assumes "fw_clients (pf_cfg pf)" "input_fits (Fw_net e)"
  shows "list_all (trace_ok (fc_memonitor (pf_cfg pf))) (snd (fw_net_event pf e x))"
proof (cases e)
  case (Dhcp_bound rs mode mac ssid)
  let ?r = "zego_on_net_event_dhcp_bound (fc_net (pf_cfg pf)) rs mode mac ssid (fw_metrics x)"
  have "list_all (trace_ok (fc_memonitor (pf_cfg pf))) (snd (run_machine (fw_deliver pf) (snd ?r) y))" for y
    using assms(2) Dhcp_bound by (intro run_machine_calls deliver_ok [OF assms(1)]) (auto intro: dhcp_metrics_ok)
  then show ?thesis using Dhcp_bound by (simp add: fw_net_event_def split_beta)
next
  case (Wifi_disconnect rs r)
  have "Net_metric wc \<notin> set (zego_on_net_event_wifi_disconnect cfg rs r)" for wc cfg
    by (auto simp: zego_on_net_event_wifi_disconnect_def warn_failed_def split: if_splits)
  then show ?thesis
    unfolding Wifi_disconnect fw_net_event_def net_event.case
    by (intro run_machine_calls deliver_ok [OF assms(1)]) blast
qed

lemma fw_step_metrics:
  assumes "fw_clients (pf_cfg pf)" "input_fits i"
  shows "list_all (trace_ok (fc_memonitor (pf_cfg pf))) (snd (fw_step pf i x))"
proof -
  note ok = client_calls_ok [of "fc_memonitor (pf_cfg pf)"] other_calls_ok [of "fc_memonitor (pf_cfg pf)"]
  have b: "list_all (trace_ok (fc_memonitor (pf_cfg pf))) (snd (fw_notify_button pf env msg ob y))" for env msg ob y
    using ok by (cases ob) (simp_all add: fw_steps split_beta Let_def list_all_iff)
  show ?thesis
  proof (cases i)
    case (Fw_memonitor heaps threads)
    have "trace_ok (fc_memonitor (pf_cfg pf)) (Fc_memonitor kv)"
      if "kv \<in> set (memonitor_metrics_cb (fc_memonitor (pf_cfg pf)) heaps threads)" for kv
      using memonitor_keys [of "fst kv" "snd kv"] that
      by (cases kv) (auto simp: trace_ok_def update_typed_def metric_declared_def heartbeat_metric_type_def memonitor_foreign_def)
    then show ?thesis using Fw_memonitor by (simp add: list_all_iff)
  next
    case (Fw_button env msg)
    then show ?thesis
      by (simp only: fw_step.simps) (intro run_machine_calls b)
  next
    case (Fw_heartbeat env iface err status)
    then show ?thesis using collect_ok [of status "fc_memonitor (pf_cfg pf)"] assms(2) ok by (auto simp: split_beta Let_def list_all_iff)
  next
    case (Fw_net e)
    then show ?thesis using net_event_ok [OF assms(1)] assms(2) by simp
  qed (use assms(1) ok in \<open>simp_all add: fw_clients_def fw_steps split_beta Let_def list_all_iff\<close>)
qed

lemma fw_run_metrics:
  assumes "fw_clients (pf_cfg pf)" "list_all input_fits is"
  shows "list_all (trace_ok (fc_memonitor (pf_cfg pf))) (snd (run_machine (fw_step pf) is x))"
  using assms(2) by (intro run_machine_calls fw_step_metrics [OF assms(1)]) (simp add: list_all_iff)



subsection \<open>The counters Memfault sees\<close>

definition fw_metric_set :: "fw_call \<Rightarrow> (string \<times> u32) option" where
  "fw_metric_set c = (case fw_metric_update c of Some (k, Mv_set v) \<Rightarrow> Some (k, v) | _ \<Rightarrow> None)"

lemma client_key_names:
  "https_key_name hk \<noteq> mqtt_key_name mk \<and> mqtt_key_name mk \<noteq> https_key_name hk \<and>
   ''mflt_log_buf_bytes_used'' \<noteq> https_key_name hk \<and> ''mflt_log_buf_bytes_used'' \<noteq> mqtt_key_name mk \<and>
   https_key_name hk \<in> set memonitor_foreign \<and> mqtt_key_name mk \<in> set memonitor_foreign"
  by (cases hk; cases mk) (simp_all add: memonitor_foreign_def)

lemma key_names_inj: "https_key_name a = https_key_name b \<longleftrightarrow> a = b" "mqtt_key_name d = mqtt_key_name e \<longleftrightarrow> d = e"
  by (cases a; cases b; simp)  (cases d; cases e; simp)

lemma wm_key_names: "wm_key_name q \<noteq> https_key_name hk \<and> wm_key_name q \<noteq> mqtt_key_name mk"
  by (cases q; cases hk; cases mk; simp)

lemmas key_names = client_key_names key_names_inj wm_key_names

lemma metric_set_client:
  assumes "trace_ok cfg c"
  shows "fw_metric_set c = Some (https_key_name hk, v) \<longleftrightarrow> (\<exists>d. pick_https c = Some d \<and> https_metric_of d = Some (hk, v))"
    and "fw_metric_set c = Some (mqtt_key_name mk, v) \<longleftrightarrow> (\<exists>d. pick_mqtt c = Some d \<and> mqtt_metric_of d = Some (mk, v))"
  using assms key_names
  by (cases c rule: fw_metric_update.cases; force simp: fw_metric_set_def trace_ok_def split: option.splits)+

text \<open>
  C25: Memfault sees the true counters. In every run of the application the last value written to each of the
  four client metrics, by whichever module, is the number the client itself keeps of its requests, failed
  requests, echo tests and failed echo tests: no other module overwrites a key, none of them is stale.
\<close>

theorem firmware_counters_mirrored:
  assumes "fw_clients (pf_cfg pf)" and "list_all input_fits is"
    and "run_machine (fw_step pf) is (fw_boot pf w sem0) = (x, cs)"
  shows "case_option 0 id (last_metric fw_metric_set ''app_https_req_total_count'' cs) = https_req_total (hs_state (fw_https x)) \<and>
    case_option 0 id (last_metric fw_metric_set ''app_https_req_fail_count'' cs) = https_req_failures (hs_state (fw_https x)) \<and>
    case_option 0 id (last_metric fw_metric_set ''app_mqtt_echo_total_count'' cs) = mqtt_echo_total (ms_state (fw_mqtt x)) \<and>
    case_option 0 id (last_metric fw_metric_set ''app_mqtt_echo_fail_count'' cs) = mqtt_echo_failures (ms_state (fw_mqtt x))"
proof -
  have ok: "trace_ok (fc_memonitor (pf_cfg pf)) c" if "c \<in> set cs" for c
    using fw_run_metrics [OF assms(1,2), of "fw_boot pf w sem0"] assms(3) that by (simp add: list_all_iff)
  have h: "case_option 0 id (last_metric fw_metric_set (https_key_name k) cs) = https_counter k (hs_state (fw_https x))" for k
    using last_metric_pick [of cs fw_metric_set "https_key_name k" pick_https https_metric_of k, OF metric_set_client(1) [OF ok]]
      https_meter.reports_run [of k https_initial "fc_https (pf_cfg pf)" "concat (map (https_view pf) is)"]
      https_in_fw.view_run [of pf "is" "fw_boot pf w sem0"] assms(3)
    by (cases k) (simp_all add: fw_boot_def https_initial_def app_https_client_init_def https_boot_state_def
        id_def split: option.splits)
  have m: "case_option 0 id (last_metric fw_metric_set (mqtt_key_name k) cs) = mqtt_counter k (fw_mqtt x)" for k
    using last_metric_pick [of cs fw_metric_set "mqtt_key_name k" pick_mqtt mqtt_metric_of k, OF metric_set_client(2) [OF ok]]
      mqtt_meter.reports_run [of k "mqtt_initial (fc_mqtt (pf_cfg pf))" "fc_mqtt (pf_cfg pf)" "concat (map (mqtt_view pf) is)"]
      mqtt_in_fw.view_run [of pf "is" "fw_boot pf w sem0"] assms(3)
    by (cases k) (simp_all add: fw_boot_def mqtt_initial_def app_mqtt_client_init_def mqtt_boot_state_def mqtt_counter_def
        id_def split: option.splits)
  show ?thesis
    using h [of App_https_req_total_count] h [of App_https_req_fail_count] m [of App_mqtt_echo_total_count]
      m [of App_mqtt_echo_fail_count] by (simp add: mqtt_counter_def)
qed

theorem firmware_counters_mirrored_witness:
  "case_option 0 id (last_metric fw_metric_set ''app_https_req_total_count'' (snd (run_machine (fw_step sample_pf)
     [Fw_https_thread https_broken_pipe_env, Fw_net (Dhcp_bound pubs_ok ZEGO_WIFI_MODE_STA None None), Fw_net (Wifi_disconnect pubs_ok True),
      Fw_https_thread https_broken_pipe_env, Fw_https_thread https_broken_pipe_env]
     (fw_boot sample_pf core_sample_world False)))) = 1"
proof -
  let ?is = "[Fw_https_thread https_broken_pipe_env, Fw_net (Dhcp_bound pubs_ok ZEGO_WIFI_MODE_STA None None),
      Fw_net (Wifi_disconnect pubs_ok True), Fw_https_thread https_broken_pipe_env, Fw_https_thread https_broken_pipe_env]"
  have c: "fw_clients (pf_cfg sample_pf)" by (simp add: fw_clients_def sample_pf_def memonitor_sample_cfg_def)
  have "concat (map (https_view sample_pf) ?is) = https_flap"
    using once_per_event [OF sample_pf_ok] by (simp add: https_flap_def)
  then have "fw_https (fst (run_machine (fw_step sample_pf) ?is (fw_boot sample_pf core_sample_world False))) = fst https_flap_end"
    using https_in_fw.view_run [of sample_pf ?is "fw_boot sample_pf core_sample_world False"]
    by (simp add: https_flap_end_def fw_boot_def sample_pf_def)
  then show ?thesis
    using firmware_counters_mirrored [OF c, of ?is core_sample_world False, OF _ prod.collapse [symmetric]] https_flap_total
    by simp
qed

end
