(* ===== verification/Board_Config.thy ===== *)
theory Board_Config
  imports Firmware_Sessions Firmware_Metrics
begin

text \<open>
  The two boards the application is built for: the flash layout of
  \<^verbatim>\<open>src/boards/nrf7002dk_nrf5340_cpuapp.overlay\<close> and \<^verbatim>\<open>src/boards/nrf54lm20dk_nrf54lm20a_cpuapp.overlay\<close>, the
  symbols of the three \<^verbatim>\<open>Kconfig\<close> files of the modules with their dependencies, ranges and defaults, and
  the assignments of \<^verbatim>\<open>src/prj.conf\<close> and the board files to the symbols that the code of the modules reads.

  \<open>kconfig\<close> evaluates the declarations as Kconfig does: a symbol whose dependencies are off is off, an
  assignment counts when it is in the range of the symbol, otherwise the default does. Symbols that the SDK declares are
  a parameter, \<open>sdk\<close>. What the theory shows is that the configurations of the other theories are those of the boards:
  what these assume of a configuration or of the size of a partition holds for the firmware that is shipped.
\<close>

subsection \<open>Flash layout\<close>

datatype board = NRF7002DK | NRF54LM20DK

record dts_partition =
  dp_label :: string
  dp_offset :: nat
  dp_size :: nat

definition internal_partitions :: "board \<Rightarrow> dts_partition list" where
  "internal_partitions b = (case b of
     NRF7002DK \<Rightarrow>
       [\<lparr>dp_label = ''mcuboot'', dp_offset = 0x0, dp_size = 0xa000\<rparr>,
        \<lparr>dp_label = ''image-0'', dp_offset = 0xa000, dp_size = 0xe4000\<rparr>,
        \<lparr>dp_label = ''storage'', dp_offset = 0xee000, dp_size = 0x2000\<rparr>,
        \<lparr>dp_label = ''memfault-storage'', dp_offset = 0xf0000, dp_size = 0x10000\<rparr>]
   | NRF54LM20DK \<Rightarrow>
       [\<lparr>dp_label = ''mcuboot'', dp_offset = 0x0, dp_size = 0x10000\<rparr>,
        \<lparr>dp_label = ''image-0'', dp_offset = 0x10000, dp_size = 0x1c3000\<rparr>,
        \<lparr>dp_label = ''storage'', dp_offset = 0x1d3000, dp_size = 0x2000\<rparr>,
        \<lparr>dp_label = ''memfault-coredump-partition'', dp_offset = 0x1d5000, dp_size = 0x10000\<rparr>])"

definition external_partitions :: "board \<Rightarrow> dts_partition list" where
  "external_partitions b = (case b of
     NRF7002DK \<Rightarrow>
       [\<lparr>dp_label = ''image-1'', dp_offset = 0x0, dp_size = 0xe4000\<rparr>,
        \<lparr>dp_label = ''mflt-log-state'', dp_offset = 0xe4000, dp_size = 0x3000\<rparr>,
        \<lparr>dp_label = ''mflt-cdr-state'', dp_offset = 0xe7000, dp_size = 0x2000\<rparr>]
   | NRF54LM20DK \<Rightarrow>
       [\<lparr>dp_label = ''image-1'', dp_offset = 0x0, dp_size = 0x1c3000\<rparr>,
        \<lparr>dp_label = ''mflt-log-state'', dp_offset = 0x1c3000, dp_size = 0x3000\<rparr>,
        \<lparr>dp_label = ''mflt-cdr-state'', dp_offset = 0x1c6000, dp_size = 0x2000\<rparr>])"

text \<open>\<^verbatim>\<open>PARTITION_SIZE\<close> and \<^verbatim>\<open>PARTITION_OFFSET\<close> of a label.\<close>

definition find_partition :: "board \<Rightarrow> string \<Rightarrow> dts_partition option" where
  "find_partition b l = List.find (\<lambda>p. dp_label p = l) (internal_partitions b @ external_partitions b)"

definition partition_size :: "board \<Rightarrow> string \<Rightarrow> nat" where
  "partition_size b l = (case find_partition b l of None \<Rightarrow> 0 | Some p \<Rightarrow> dp_size p)"

text \<open>The bytes of a partition, and a list of partitions that covers its device from an address on.\<close>

definition partition_bytes :: "dts_partition \<Rightarrow> nat set" where
  "partition_bytes p = {dp_offset p ..< dp_offset p + dp_size p}"

fun tiled_from :: "nat \<Rightarrow> nat \<Rightarrow> dts_partition list \<Rightarrow> bool" where
  "tiled_from pg a [] \<longleftrightarrow> True"
| "tiled_from pg a (p # ps) \<longleftrightarrow> dp_offset p = a \<and> 0 < dp_size p \<and> dp_size p mod pg = 0 \<and> tiled_from pg (a + dp_size p) ps"

lemma tiled_above: "tiled_from pg a ps \<Longrightarrow> p \<in> set ps \<Longrightarrow> a \<le> dp_offset p"
proof (induction ps arbitrary: a)
  case (Cons q ps)
  then show ?case by (metis add_leD1 order_refl set_ConsD tiled_from.simps(2))
qed simp

lemma tiled_aligned: "tiled_from pg a ps \<Longrightarrow> a mod pg = 0 \<Longrightarrow> p \<in> set ps \<Longrightarrow> dp_offset p mod pg = 0 \<and> dp_size p mod pg = 0"
proof (induction ps arbitrary: a)
  case (Cons q ps)
  have "(a + dp_size q) mod pg = 0" using Cons.prems by (metis add_0 mod_add_eq mod_0 tiled_from.simps(2))
  then show ?case using Cons.IH [of "a + dp_size q"] Cons.prems by auto
qed simp

lemma tiled_cover: "tiled_from pg a ps \<Longrightarrow> \<Union> (partition_bytes ` set ps) = {a ..< a + sum_list (map dp_size ps)}"
proof (induction ps arbitrary: a)
  case (Cons p ps)
  then have "\<Union> (partition_bytes ` set ps) = {a + dp_size p ..< a + dp_size p + sum_list (map dp_size ps)}" by simp
  then show ?case using Cons.prems by (auto simp: partition_bytes_def)
qed simp

lemma tiled_disjnt: "tiled_from pg a ps \<Longrightarrow> pairwise disjnt (partition_bytes ` set ps)"
proof (induction ps arbitrary: a)
  case (Cons p ps)
  have "disjnt (partition_bytes p) (partition_bytes q)" if "q \<in> set ps" for q
    using tiled_above [of pg "a + dp_size p" ps q] Cons.prems that by (auto simp: partition_bytes_def disjnt_def)
  then show ?case using Cons.IH [of "a + dp_size p"] Cons.prems by (auto simp: pairwise_insert disjnt_sym)
qed (simp add: pairwise_def)

lemma boards_tiled: "tiled_from 4096 0 (internal_partitions b)" "tiled_from 4096 0 (external_partitions b)"
  by (cases b; simp add: internal_partitions_def external_partitions_def)+

lemma boards_extent:
  "sum_list (map dp_size (internal_partitions b)) = (case b of NRF7002DK \<Rightarrow> 0x100000 | NRF54LM20DK \<Rightarrow> 0x1e5000)"
  "sum_list (map dp_size (external_partitions b)) = (case b of NRF7002DK \<Rightarrow> 0xe9000 | NRF54LM20DK \<Rightarrow> 0x1c8000)"
  by (cases b; simp add: internal_partitions_def external_partitions_def)+

subsection \<open>Kconfig\<close>

text \<open>First the symbols that the application declares, then those of the SDK and the zego bricks that its code reads.\<close>

datatype ksym =
    CONFIG_APP_MEMFAULT_MODULE | CONFIG_NRF70_FW_STATS_CDR_ENABLED | CONFIG_MEMFAULT_UPLOAD_THREAD_STACK_SIZE
  | CONFIG_MEMFAULT_OTA_CHECK_INTERVAL_MIN | CONFIG_MEMFAULT_OTA_CONNECT_DELAY_SEC | CONFIG_MEMFAULT_OTA_THREAD_STACK_SIZE
  | CONFIG_APP_MEMFAULT_LOG_STATE_RESTORE | CONFIG_APP_MEMFAULT_CDR_STATE_RESTORE
  | CONFIG_APP_MQTT_CLIENT_MODULE | CONFIG_APP_MQTT_CLIENT_BROKER_HOSTNAME | CONFIG_APP_MQTT_CLIENT_PUBLISH_TOPIC
  | CONFIG_APP_MQTT_CLIENT_PUBLISH_INTERVAL_SEC | CONFIG_APP_MQTT_CLIENT_RECONNECT_TIMEOUT_SEC
  | CONFIG_APP_MQTT_CLIENT_STACK_SIZE | CONFIG_APP_MQTT_CLIENT_THREAD_PRIORITY | CONFIG_APP_MQTT_CLIENT_ID_BUFFER_SIZE
  | CONFIG_APP_HTTPS_CLIENT_MODULE | CONFIG_APP_HTTPS_HOSTNAME | CONFIG_APP_HTTPS_REQUEST_INTERVAL_SEC
  | CONFIG_APP_HTTPS_CLIENT_STACK_SIZE | CONFIG_APP_HTTPS_CLIENT_THREAD_PRIORITY
  | CONFIG_DK_LIBRARY | CONFIG_FLASH_MAP | CONFIG_ZEGO_NETWORK | CONFIG_ZEGO_WIFI_BLE_PROV | CONFIG_MEMFAULT_ZEPHYR_FOTA
  | CONFIG_MEMFAULT_METRICS_HEARTBEAT_INTERVAL_SECS | CONFIG_MEMFAULT_LOGGING_RAM_SIZE | CONFIG_MEMFAULT_NCS_STACK_METRICS
  | CONFIG_ZEGO_MEMONITOR | CONFIG_ZEGO_NTP | CONFIG_HEAP_MEM_POOL_SIZE | CONFIG_MBEDTLS_ENABLE_HEAP
  | CONFIG_ZEGO_BUTTON | CONFIG_ZEGO_BUTTON_NUM_BUTTONS
  | CONFIG_MEMFAULT_CDR_ENABLE | CONFIG_WIFI_NRF70 | CONFIG_MODEM_KEY_MGMT | CONFIG_SAMPLE_TFM_MBEDTLS
  | CONFIG_MEMFAULT_NCS_POST_COREDUMP_ON_NETWORK_CONNECTED | CONFIG_POSIX_API
  | CONFIG_ZEGO_MEMONITOR_HEAP_MONITOR | CONFIG_ZEGO_MEMONITOR_THREAD_MONITOR | CONFIG_BT

datatype kvalue = Kbool bool | Kint nat | Kstring string

fun kval_true :: "kvalue \<Rightarrow> bool" where
  "kval_true (Kbool b) = b"
| "kval_true _ = False"

fun kval_nat :: "kvalue \<Rightarrow> nat" where
  "kval_nat (Kint n) = n"
| "kval_nat _ = 0"

fun kval_string :: "kvalue \<Rightarrow> string" where
  "kval_string (Kstring s) = s"
| "kval_string _ = []"

record kdecl =
  kd_depends :: "ksym list"
  kd_range :: "(nat \<times> nat) option"
  kd_default :: kvalue
  kd_hidden :: kvalue

definition kd_in_range :: "kdecl \<Rightarrow> kvalue \<Rightarrow> bool" where
  "kd_in_range d v = (case kd_range d of None \<Rightarrow> True | Some (lo, hi) \<Rightarrow> lo \<le> kval_nat v \<and> kval_nat v \<le> hi)"

text \<open>
  The value Kconfig gives a symbol, with the values of the symbols it depends on. When one of these is off the prompt is
  hidden and no assignment counts; what is left is \<open>kd_hidden\<close>: off for a switch, the default of
  \<^verbatim>\<open>Kconfig.defaults\<close> for a number or text if that default has no condition, else no value.
\<close>

definition ksym_value :: "(ksym \<Rightarrow> kvalue option) \<Rightarrow> (ksym \<Rightarrow> kvalue) \<Rightarrow> ksym \<Rightarrow> kdecl \<Rightarrow> kvalue" where
  "ksym_value conf env s d =
     (if list_all (\<lambda>x. kval_true (env x)) (kd_depends d)
      then (case conf s of Some v \<Rightarrow> if kd_in_range d v then v else kd_default d | None \<Rightarrow> kd_default d)
      else kd_hidden d)"

fun kconfig :: "(ksym \<Rightarrow> kvalue option) \<Rightarrow> (ksym \<times> kdecl) list \<Rightarrow> (ksym \<Rightarrow> kvalue) \<Rightarrow> ksym \<Rightarrow> kvalue" where
  "kconfig conf [] env = env"
| "kconfig conf ((s, d) # ds) env = kconfig conf ds (env(s := ksym_value conf env s d))"

text \<open>A symbol depends on symbols that are declared before it or elsewhere.\<close>

fun decls_ordered :: "(ksym \<times> kdecl) list \<Rightarrow> bool" where
  "decls_ordered [] \<longleftrightarrow> True"
| "decls_ordered ((s, d) # ds) \<longleftrightarrow> s \<notin> fst ` set ds \<and> set (kd_depends d) \<inter> fst ` set ((s, d) # ds) = {} \<and> decls_ordered ds"

lemma kconfig_elsewhere: "s \<notin> fst ` set ds \<Longrightarrow> kconfig conf ds env s = env s"
  by (induction ds arbitrary: env rule: decls_ordered.induct) auto

lemma ksym_value_cong:
  "(\<And>x. x \<in> set (kd_depends d) \<Longrightarrow> env x = env' x) \<Longrightarrow> ksym_value conf env s d = ksym_value conf env' s d"
  by (simp add: ksym_value_def list_all_iff)

text \<open>One pass in the order of the dependencies reaches the values that the rule of every declaration asks for.\<close>

lemma kconfig_solves:
  "decls_ordered ds \<Longrightarrow> (s, d) \<in> set ds \<Longrightarrow> kconfig conf ds env s = ksym_value conf (kconfig conf ds env) s d"
proof (induction ds arbitrary: env rule: decls_ordered.induct)
  case (2 t e ds)
  let ?env = "env(t := ksym_value conf env t e)"
  show ?case
  proof (cases "(s, d) \<in> set ds")
    case True
    then show ?thesis using "2.IH" "2.prems" by simp
  next
    case False
    then have st: "s = t" "d = e" using "2.prems" by auto
    have same: "kconfig conf ds ?env x = env x" if "x \<in> set (kd_depends e)" for x
    proof -
      have "x \<notin> fst ` set ds" "x \<noteq> t" using "2.prems"(1) that by auto
      then show ?thesis using kconfig_elsewhere by simp
    qed
    have "kconfig conf ds ?env t = ?env t" using "2.prems"(1) kconfig_elsewhere by simp
    moreover have "ksym_value conf (kconfig conf ds ?env) t e = ksym_value conf env t e" by (rule ksym_value_cong) (rule same)
    ultimately show ?thesis unfolding st by simp
  qed
qed simp

lemma kconfig_unique:
  assumes "decls_ordered ds" "\<And>s. s \<notin> fst ` set ds \<Longrightarrow> env' s = env s"
    and "\<And>s d. (s, d) \<in> set ds \<Longrightarrow> env' s = ksym_value conf env' s d"
  shows "env' = kconfig conf ds env"
  using assms
proof (induction ds arbitrary: env rule: decls_ordered.induct)
  case (2 t e ds)
  let ?env = "env(t := ksym_value conf env t e)"
  have "env' x = env x" if "x \<in> set (kd_depends e)" for x
  proof (rule "2.prems"(2))
    show "x \<notin> fst ` set ((t, e) # ds)" using "2.prems"(1) that by auto
  qed
  then have "env' t = ksym_value conf env t e" using "2.prems"(3) [of t e] ksym_value_cong by (metis list.set_intros(1))
  then have "env' s = ?env s" if "s \<notin> fst ` set ds" for s using "2.prems"(2) that by (cases "s = t") auto
  then have "env' = kconfig conf ds ?env" using "2.prems"(1,3) by (intro "2.IH") auto
  then show ?case by simp
qed auto

lemma kconfig_solution:
  assumes "decls_ordered ds"
  shows "(\<forall>s. s \<notin> fst ` set ds \<longrightarrow> env' s = env s) \<and> (\<forall>(s, d) \<in> set ds. env' s = ksym_value conf env' s d)
    \<longleftrightarrow> env' = kconfig conf ds env" (is "?L \<longleftrightarrow> ?R")
proof
  assume ?L
  then show ?R by (intro kconfig_unique [OF assms]) auto
next
  assume r: ?R
  show ?L unfolding r using kconfig_solves [OF assms] kconfig_elsewhere by auto
qed

subsection \<open>The shipped configuration\<close>

text \<open>The \<^verbatim>\<open>config\<close> blocks of \<^verbatim>\<open>Kconfig.app_memfault\<close>, \<^verbatim>\<open>Kconfig.app_mqtt_client\<close> and \<^verbatim>\<open>Kconfig.app_https_client\<close>
  with the defaults of the \<^verbatim>\<open>Kconfig.defaults\<close> beside each.\<close>

definition kdef :: "ksym list \<Rightarrow> kvalue \<Rightarrow> kvalue \<Rightarrow> kdecl" where
  "kdef deps v hidden = \<lparr>kd_depends = deps, kd_range = None, kd_default = v, kd_hidden = hidden\<rparr>"

definition krange :: "ksym list \<Rightarrow> nat \<Rightarrow> nat \<Rightarrow> nat \<Rightarrow> kvalue \<Rightarrow> kdecl" where
  "krange deps lo hi n hidden = \<lparr>kd_depends = deps, kd_range = Some (lo, hi), kd_default = Kint n, kd_hidden = hidden\<rparr>"

text \<open>A symbol without a value.\<close>

definition kunset :: kvalue where
  "kunset = Kstring []"

definition memfault_symbols :: "(ksym \<times> kdecl) list" where
  "memfault_symbols =
     (let m = [CONFIG_APP_MEMFAULT_MODULE]
      in [(CONFIG_APP_MEMFAULT_MODULE, kdef [] (Kbool False) (Kbool False)),
          (CONFIG_NRF70_FW_STATS_CDR_ENABLED, kdef (m @ [CONFIG_MEMFAULT_CDR_ENABLE, CONFIG_WIFI_NRF70]) (Kbool False) (Kbool False)),
          (CONFIG_MEMFAULT_UPLOAD_THREAD_STACK_SIZE, kdef m (Kint 4096) (Kint 4096)),
          (CONFIG_MEMFAULT_OTA_CHECK_INTERVAL_MIN, krange m 1 1440 60 kunset),
          (CONFIG_MEMFAULT_OTA_CONNECT_DELAY_SEC, krange m 0 300 30 kunset),
          (CONFIG_MEMFAULT_OTA_THREAD_STACK_SIZE, kdef m (Kint 4096) kunset),
          (CONFIG_APP_MEMFAULT_LOG_STATE_RESTORE, kdef (m @ [CONFIG_FLASH_MAP]) (Kbool True) (Kbool False)),
          (CONFIG_APP_MEMFAULT_CDR_STATE_RESTORE,
             kdef (m @ [CONFIG_FLASH_MAP, CONFIG_NRF70_FW_STATS_CDR_ENABLED]) (Kbool True) (Kbool False))])"

definition mqtt_symbols :: "(ksym \<times> kdecl) list" where
  "mqtt_symbols =
     (let m = [CONFIG_APP_MQTT_CLIENT_MODULE]
      in [(CONFIG_APP_MQTT_CLIENT_MODULE, kdef [] (Kbool False) (Kbool False)),
          (CONFIG_APP_MQTT_CLIENT_BROKER_HOSTNAME, kdef m (Kstring ''broker.emqx.io'') (Kstring ''broker.emqx.io'')),
          (CONFIG_APP_MQTT_CLIENT_PUBLISH_TOPIC, kdef m (Kstring ''count'') (Kstring ''count'')),
          (CONFIG_APP_MQTT_CLIENT_PUBLISH_INTERVAL_SEC, krange m 1 86400 300 (Kint 300)),
          (CONFIG_APP_MQTT_CLIENT_RECONNECT_TIMEOUT_SEC, kdef m (Kint 60) (Kint 60)),
          (CONFIG_APP_MQTT_CLIENT_STACK_SIZE, kdef m (Kint 3072) kunset),
          (CONFIG_APP_MQTT_CLIENT_THREAD_PRIORITY, kdef m (Kint 5) (Kint 5)),
          (CONFIG_APP_MQTT_CLIENT_ID_BUFFER_SIZE, kdef m (Kint 50) (Kint 50))])"

definition https_symbols :: "(ksym \<times> kdecl) list" where
  "https_symbols =
     (let m = [CONFIG_APP_HTTPS_CLIENT_MODULE]
      in [(CONFIG_APP_HTTPS_CLIENT_MODULE, kdef [] (Kbool False) (Kbool False)),
          (CONFIG_APP_HTTPS_HOSTNAME, kdef m (Kstring ''example.com'') (Kstring ''example.com'')),
          (CONFIG_APP_HTTPS_REQUEST_INTERVAL_SEC, krange m 1 86400 300 (Kint 300)),
          (CONFIG_APP_HTTPS_CLIENT_STACK_SIZE, kdef m (Kint 4096) (Kint 4096)),
          (CONFIG_APP_HTTPS_CLIENT_THREAD_PRIORITY, kdef m (Kint 5) (Kint 5))])"

definition app_symbols :: "(ksym \<times> kdecl) list" where
  "app_symbols = memfault_symbols @ https_symbols @ mqtt_symbols"

text \<open>The assignments, and the priority of the board file over \<^verbatim>\<open>prj.conf\<close>.\<close>

definition prj_conf_system :: "(ksym \<times> kvalue) list" where
  "prj_conf_system = [(CONFIG_DK_LIBRARY, Kbool True), (CONFIG_FLASH_MAP, Kbool True)]"

definition prj_conf_zego :: "(ksym \<times> kvalue) list" where
  "prj_conf_zego = [(CONFIG_ZEGO_NETWORK, Kbool True), (CONFIG_ZEGO_WIFI_BLE_PROV, Kbool True)]"

definition prj_conf_memfault :: "(ksym \<times> kvalue) list" where
  "prj_conf_memfault =
     [(CONFIG_APP_MEMFAULT_MODULE, Kbool True), (CONFIG_MEMFAULT_ZEPHYR_FOTA, Kbool True),
      (CONFIG_MEMFAULT_METRICS_HEARTBEAT_INTERVAL_SECS, Kint 900), (CONFIG_MEMFAULT_OTA_CHECK_INTERVAL_MIN, Kint 60),
      (CONFIG_MEMFAULT_OTA_CONNECT_DELAY_SEC, Kint 60), (CONFIG_MEMFAULT_LOGGING_RAM_SIZE, Kint 8192),
      (CONFIG_MEMFAULT_NCS_STACK_METRICS, Kbool False), (CONFIG_NRF70_FW_STATS_CDR_ENABLED, Kbool True)]"

definition prj_conf_mqtt :: "(ksym \<times> kvalue) list" where
  "prj_conf_mqtt =
     [(CONFIG_APP_MQTT_CLIENT_MODULE, Kbool True), (CONFIG_APP_MQTT_CLIENT_BROKER_HOSTNAME, Kstring ''broker.emqx.io''),
      (CONFIG_APP_MQTT_CLIENT_PUBLISH_INTERVAL_SEC, Kint 900), (CONFIG_APP_MQTT_CLIENT_PUBLISH_TOPIC, Kstring ''Count'')]"

definition prj_conf_https :: "(ksym \<times> kvalue) list" where
  "prj_conf_https = [(CONFIG_APP_HTTPS_CLIENT_MODULE, Kbool True), (CONFIG_APP_HTTPS_REQUEST_INTERVAL_SEC, Kint 900)]"

definition prj_conf_bricks :: "(ksym \<times> kvalue) list" where
  "prj_conf_bricks = [(CONFIG_ZEGO_MEMONITOR, Kbool True), (CONFIG_ZEGO_NTP, Kbool True)]"

definition prj_conf_stacks :: "(ksym \<times> kvalue) list" where
  "prj_conf_stacks =
     [(CONFIG_MEMFAULT_UPLOAD_THREAD_STACK_SIZE, Kint 6160), (CONFIG_MEMFAULT_OTA_THREAD_STACK_SIZE, Kint 6330),
      (CONFIG_APP_HTTPS_CLIENT_STACK_SIZE, Kint 6280), (CONFIG_APP_MQTT_CLIENT_STACK_SIZE, Kint 6922)]"

definition prj_conf_heap :: "(ksym \<times> kvalue) list" where
  "prj_conf_heap = [(CONFIG_HEAP_MEM_POOL_SIZE, Kint 1440), (CONFIG_MBEDTLS_ENABLE_HEAP, Kbool True)]"

definition prj_conf :: "(ksym \<times> kvalue) list" where
  "prj_conf = prj_conf_system @ prj_conf_zego @ prj_conf_memfault @ prj_conf_mqtt @ prj_conf_https @ prj_conf_bricks @
     prj_conf_stacks @ prj_conf_heap"

lemmas prj_conf_defs = prj_conf_def prj_conf_system_def prj_conf_zego_def prj_conf_memfault_def prj_conf_mqtt_def
  prj_conf_https_def prj_conf_bricks_def prj_conf_stacks_def prj_conf_heap_def

definition board_conf :: "board \<Rightarrow> (ksym \<times> kvalue) list" where
  "board_conf b = [(CONFIG_ZEGO_BUTTON, Kbool True),
     (CONFIG_ZEGO_BUTTON_NUM_BUTTONS, Kint (case b of NRF7002DK \<Rightarrow> 2 | NRF54LM20DK \<Rightarrow> 3))]"

definition conf_of :: "board \<Rightarrow> ksym \<Rightarrow> kvalue option" where
  "conf_of b = map_of (board_conf b @ prj_conf)"

definition kconf :: "board \<Rightarrow> (ksym \<Rightarrow> kvalue) \<Rightarrow> ksym \<Rightarrow> kvalue" where
  "kconf b sdk = kconfig (conf_of b) app_symbols sdk"

text \<open>
  The build fails when an assignment does not take effect, so the SDK's symbols have the values assigned to
  them; both boards carry an nRF70 radio and the CDR feature of the Memfault SDK is on with the Memfault module.
\<close>

definition sdk_for :: "board \<Rightarrow> (ksym \<Rightarrow> kvalue) \<Rightarrow> bool" where
  "sdk_for b sdk \<longleftrightarrow> list_all (\<lambda>(s, v). s \<in> fst ` set app_symbols \<or> sdk s = v) (board_conf b @ prj_conf) \<and>
     sdk CONFIG_MEMFAULT_CDR_ENABLE = Kbool True \<and> sdk CONFIG_WIFI_NRF70 = Kbool True"

text \<open>The configuration records of the modules. \<open>eai\<close> is the value of \<^verbatim>\<open>DNS_EAI_CANCELED\<close>.\<close>

definition shipped_cfg :: "board \<Rightarrow> (ksym \<Rightarrow> kvalue) \<Rightarrow> int \<Rightarrow> fw_cfg" where
  "shipped_cfg b sdk eai =
     (let k = kconf b sdk; on = (\<lambda>s. kval_true (k s)); num = (\<lambda>s. kval_nat (k s)); str = (\<lambda>s. kval_string (k s))
      in \<lparr>fc_https = \<lparr>hc_hostname = str CONFIG_APP_HTTPS_HOSTNAME,
             hc_request_interval_sec = of_nat (num CONFIG_APP_HTTPS_REQUEST_INTERVAL_SEC),
             hc_modem_key_mgmt = on CONFIG_MODEM_KEY_MGMT, hc_tfm_mbedtls = on CONFIG_SAMPLE_TFM_MBEDTLS,
             hc_eai_canceled = eai\<rparr>,
          fc_mqtt = \<lparr>cfg_hostname = str CONFIG_APP_MQTT_CLIENT_BROKER_HOSTNAME,
             cfg_publish_topic = str CONFIG_APP_MQTT_CLIENT_PUBLISH_TOPIC,
             cfg_publish_interval_sec = of_nat (num CONFIG_APP_MQTT_CLIENT_PUBLISH_INTERVAL_SEC),
             cfg_id_buffer_size = num CONFIG_APP_MQTT_CLIENT_ID_BUFFER_SIZE\<rparr>,
          fc_core = \<lparr>cc_log_state_restore = on CONFIG_APP_MEMFAULT_LOG_STATE_RESTORE,
             cc_cdr_state_restore = on CONFIG_APP_MEMFAULT_CDR_STATE_RESTORE,
             cc_post_coredump_on_connect = on CONFIG_MEMFAULT_NCS_POST_COREDUMP_ON_NETWORK_CONNECTED,
             cc_ncs_stack_metrics = on CONFIG_MEMFAULT_NCS_STACK_METRICS, cc_posix_api = on CONFIG_POSIX_API\<rparr>,
          fc_ota = \<lparr>oc_button = (on CONFIG_ZEGO_BUTTON \<or> on CONFIG_DK_LIBRARY),
             oc_zephyr_fota = on CONFIG_MEMFAULT_ZEPHYR_FOTA,
             oc_check_interval_min = of_nat (num CONFIG_MEMFAULT_OTA_CHECK_INTERVAL_MIN),
             oc_connect_delay_sec = of_nat (num CONFIG_MEMFAULT_OTA_CONNECT_DELAY_SEC)\<rparr>,
          fc_net = \<lparr>nc_wifi_ble_prov = on CONFIG_ZEGO_WIFI_BLE_PROV, nc_ntp = on CONFIG_ZEGO_NTP\<rparr>,
          fc_memonitor = \<lparr>mc_heap_monitor = on CONFIG_ZEGO_MEMONITOR_HEAP_MONITOR,
             mc_thread_monitor = on CONFIG_ZEGO_MEMONITOR_THREAD_MONITOR,
             mc_system_heap = (0 < num CONFIG_HEAP_MEM_POOL_SIZE), mc_mbedtls_heap = on CONFIG_MBEDTLS_ENABLE_HEAP,
             mc_https_client = on CONFIG_APP_HTTPS_CLIENT_MODULE, mc_mqtt_client = on CONFIG_APP_MQTT_CLIENT_MODULE,
             mc_bt = on CONFIG_BT, mc_ntp = on CONFIG_ZEGO_NTP\<rparr>\<rparr>)"

text \<open>A platform of the shipped firmware: the configuration and the sizes of the two partitions are the board's.\<close>

definition shipped_on :: "board \<Rightarrow> (ksym \<Rightarrow> kvalue) \<Rightarrow> int \<Rightarrow> ('f, 'g, 'k) platform \<Rightarrow> bool" where
  "shipped_on b sdk eai pf \<longleftrightarrow> pf_cfg pf = shipped_cfg b sdk eai \<and>
     fa_size (pf_log_area pf) = of_nat (partition_size b ''mflt-log-state'') \<and>
     fa_size (pf_cdr_area pf) = of_nat (partition_size b ''mflt-cdr-state'')"

lemma app_symbols_ordered: "decls_ordered app_symbols"
  by (simp add: app_symbols_def memfault_symbols_def mqtt_symbols_def https_symbols_def kdef_def krange_def Let_def)

lemma shipped_values:
  assumes "sdk_for b sdk"
  shows "list_all (\<lambda>(s, v). kconf b sdk s = v) (board_conf b @ prj_conf)"
    "kconf b sdk CONFIG_APP_MEMFAULT_LOG_STATE_RESTORE = Kbool True" "kconf b sdk CONFIG_APP_MEMFAULT_CDR_STATE_RESTORE = Kbool True"
    "kconf b sdk CONFIG_APP_HTTPS_HOSTNAME = Kstring ''example.com''" "kconf b sdk CONFIG_APP_MQTT_CLIENT_ID_BUFFER_SIZE = Kint 50"
  using assms
  by (simp_all add: kconf_def conf_of_def sdk_for_def board_conf_def prj_conf_defs app_symbols_def memfault_symbols_def mqtt_symbols_def
      https_symbols_def kdef_def krange_def ksym_value_def kd_in_range_def Let_def)

lemma shipped_cfg_values:
  assumes "sdk_for b sdk"
  shows "cc_log_state_restore (fc_core (shipped_cfg b sdk eai))" "cc_cdr_state_restore (fc_core (shipped_cfg b sdk eai))"
    "nc_wifi_ble_prov (fc_net (shipped_cfg b sdk eai))" "fw_clients (shipped_cfg b sdk eai)"
    "hc_hostname (fc_https (shipped_cfg b sdk eai)) = ''example.com''" "fc_mqtt (shipped_cfg b sdk eai) = prj_mqtt_cfg"
    "fc_ota (shipped_cfg b sdk eai) = ota_default_cfg"
  using shipped_values [OF assms]
  by (simp_all add: shipped_cfg_def fw_clients_def prj_mqtt_cfg_def ota_default_cfg_def Let_def prj_conf_defs board_conf_def)

lemma state_partition_sizes [simp]:
  "partition_size b ''mflt-log-state'' = 12288" "partition_size b ''mflt-cdr-state'' = 8192"
  by (cases b; simp add: partition_size_def find_partition_def internal_partitions_def external_partitions_def)+

text \<open>A snapshot is refused exactly when it does not fit behind the header.\<close>

lemma log_persist_fits_iff:
  assumes "flash_reliable fa" and "16 + length c + length s < 2 ^ 32"
  shows "fst (memfault_log_state_persist_now fa (log_live (c, s)) f) = 0 \<longleftrightarrow> 16 + length c + length s \<le> unat (fa_size fa)"
proof
  assume "16 + length c + length s \<le> unat (fa_size fa)"
  then show "fst (memfault_log_state_persist_now fa (log_live (c, s)) f) = 0" using log_persist_reliable [OF assms(1)] by (simp add: log_live_def)
next
  assume ok: "fst (memfault_log_state_persist_now fa (log_live (c, s)) f) = 0"
  have u: "unat (16 + of_nat (length c) + of_nat (length s) :: u32) = 16 + length c + length s"
    using assms(2) by (simp only: log_total_len)
  show "16 + length c + length s \<le> unat (fa_size fa)"
  proof (rule ccontr)
    assume "\<not> ?thesis"
    then have "16 + of_nat (length c) + of_nat (length s) > fa_size fa" using u by (simp add: word_less_nat_alt)
    then show False using ok by (auto simp: log_live_def memfault_log_state_persist_now_def log_persist_payload_def split_beta Let_def split: if_splits)
  qed
qed

subsection \<open>Layout and configuration\<close>

text \<open>
  The flash layout of both boards. On each device the partitions do not overlap, leave no gap from address 0 to
  the end of the last one, and start and end on erase pages of 4 KB, so that erasing a partition touches no other; the
  two image slots have the same size, which MCUboot needs to swap them.
\<close>

theorem flash_layout:
  "pairwise disjnt (partition_bytes ` set (internal_partitions b)) \<and>
   pairwise disjnt (partition_bytes ` set (external_partitions b)) \<and>
   \<Union> (partition_bytes ` set (internal_partitions b)) = {0 ..< (case b of NRF7002DK \<Rightarrow> 0x100000 | NRF54LM20DK \<Rightarrow> 0x1e5000)} \<and>
   \<Union> (partition_bytes ` set (external_partitions b)) = {0 ..< (case b of NRF7002DK \<Rightarrow> 0xe9000 | NRF54LM20DK \<Rightarrow> 0x1c8000)} \<and>
   list_all (\<lambda>p. dp_offset p mod 4096 = 0 \<and> dp_size p mod 4096 = 0) (internal_partitions b @ external_partitions b) \<and>
   distinct (map dp_label (internal_partitions b @ external_partitions b)) \<and>
   partition_size b ''image-0'' = partition_size b ''image-1'' \<and> 0 < partition_size b ''image-1''"
proof (intro conjI)
  show "\<Union> (partition_bytes ` set (internal_partitions b)) = {0 ..< (case b of NRF7002DK \<Rightarrow> 0x100000 | NRF54LM20DK \<Rightarrow> 0x1e5000)}"
    using tiled_cover [OF boards_tiled(1)] by (simp add: boards_extent)
  show "\<Union> (partition_bytes ` set (external_partitions b)) = {0 ..< (case b of NRF7002DK \<Rightarrow> 0xe9000 | NRF54LM20DK \<Rightarrow> 0x1c8000)}"
    using tiled_cover [OF boards_tiled(2)] by (simp add: boards_extent)
  show "list_all (\<lambda>p. dp_offset p mod 4096 = 0 \<and> dp_size p mod 4096 = 0) (internal_partitions b @ external_partitions b)"
    using tiled_aligned [OF boards_tiled(1)] tiled_aligned [OF boards_tiled(2)] by (auto simp: list_all_iff)
qed (use boards_tiled tiled_disjnt in \<open>blast | cases b; simp add: partition_size_def find_partition_def internal_partitions_def external_partitions_def\<close>)+

text \<open>
  The shipped Kconfig values. For both boards one pass over the declarations gives the only assignment of values
  that agrees with the rule of every declaration (dependencies, range, default) and with the SDK elsewhere; in it every
  assignment of \<^verbatim>\<open>prj.conf\<close> and the board file takes effect, none being shadowed, out of range or without its dependencies.
\<close>

theorem shipped_kconfig:
  assumes "sdk_for b sdk"
  shows "(\<forall>env. (\<forall>s. s \<notin> fst ` set app_symbols \<longrightarrow> env s = sdk s) \<and> (\<forall>(s, d) \<in> set app_symbols. env s = ksym_value (conf_of b) env s d)
      \<longleftrightarrow> env = kconf b sdk) \<and>
    list_all (\<lambda>(s, v). kconf b sdk s = v) (board_conf b @ prj_conf) \<and>
    list_all (\<lambda>(s, d). kd_in_range d (kconf b sdk s)) app_symbols \<and>
    distinct (map fst (board_conf b @ prj_conf))"
proof (intro conjI allI)
  show "list_all (\<lambda>(s, v). kconf b sdk s = v) (board_conf b @ prj_conf)" by (rule shipped_values [OF assms])
  then show "list_all (\<lambda>(s, d). kd_in_range d (kconf b sdk s)) app_symbols"
    by (simp add: app_symbols_def memfault_symbols_def mqtt_symbols_def https_symbols_def kdef_def krange_def kd_in_range_def
        prj_conf_defs board_conf_def Let_def)
  show "distinct (map fst (board_conf b @ prj_conf))" by (simp add: board_conf_def prj_conf_defs)
  show "(\<forall>s. s \<notin> fst ` set app_symbols \<longrightarrow> env s = sdk s) \<and> (\<forall>(s, d) \<in> set app_symbols. env s = ksym_value (conf_of b) env s d)
      \<longleftrightarrow> env = kconf b sdk" for env
    unfolding kconf_def by (rule kconfig_solution [OF app_symbols_ordered])
qed

text \<open>An SDK that fits both boards: the assigned values, and \<^verbatim>\<open>y\<close> elsewhere.\<close>

definition sample_sdk :: "board \<Rightarrow> ksym \<Rightarrow> kvalue" where
  "sample_sdk b s = (case conf_of b s of None \<Rightarrow> Kbool True | Some v \<Rightarrow> v)"

lemma sample_sdk_for: "sdk_for b (sample_sdk b)"
  by (simp add: sdk_for_def sample_sdk_def conf_of_def board_conf_def prj_conf_defs)

subsection \<open>Properties\<close>

text \<open>
  C22: the shipped firmware meets what the theorems on the device assume. On both boards the clients and both
  snapshot stores are compiled in, Wi-Fi messages are published, the MQTT and OTA settings are the ones the examples
  use, and with working flash drivers and semaphore a live log whose ring buffer has the configured 8192 bytes and whose
  context has at most 4080 fits the platform that stores and forwards.
\<close>

theorem shipped_platform:
  assumes "sdk_for b sdk" and "shipped_on b sdk eai pf" and "full_order (pf_order pf)" and "full_order (pf_border pf)"
    and "ksem_ok (pf_sem pf)" and "flash_ok imgl (pf_log_area pf)" and "flash_reliable (pf_log_area pf)"
    and "flash_ok imgc (pf_cdr_area pf)" and "flash_reliable (pf_cdr_area pf)"
    and "0 < lc" and "lc \<le> 4080" and "ls = kval_nat (kconf b sdk CONFIG_MEMFAULT_LOGGING_RAM_SIZE)"
  shows "store_platform pf imgl imgc lc ls \<and> fw_clients (pf_cfg pf) \<and> fc_mqtt (pf_cfg pf) = prj_mqtt_cfg \<and>
    fc_ota (pf_cfg pf) = ota_default_cfg \<and> hc_hostname (fc_https (pf_cfg pf)) = ''example.com''"
proof -
  have pf: "pf_cfg pf = shipped_cfg b sdk eai" "fa_size (pf_log_area pf) = 12288" "fa_size (pf_cdr_area pf) = 8192"
    using assms(2) by (simp_all add: shipped_on_def)
  have "ls = 8192" using shipped_values(1) [OF assms(1)] assms(12) by (simp add: prj_conf_defs board_conf_def)
  then show ?thesis
    using shipped_cfg_values [OF assms(1), of eai] assms(3-11) by (simp add: pf store_platform_def pf_ok_def log_sizes_def)
qed

definition shipped_pf :: "board \<Rightarrow> (byte list, byte list, bool) platform" where
  "shipped_pf b = \<lparr>pf_cfg = shipped_cfg b (sample_sdk b) (- 101), pf_log_area = ram_flash 12288, pf_cdr_area = ram_flash 8192,
     pf_sem = bool_sem, pf_order = pf_order sample_pf, pf_border = pf_border sample_pf\<rparr>"

lemma shipped_pf_on: "shipped_on b (sample_sdk b) (- 101) (shipped_pf b)"
  by (simp add: shipped_on_def shipped_pf_def ram_flash_def)

lemma shipped_pf_parts [simp]:
  "full_order (pf_order (shipped_pf b))" "full_order (pf_border (shipped_pf b))" "pf_sem (shipped_pf b) = bool_sem"
  "pf_log_area (shipped_pf b) = ram_flash 12288" "pf_cdr_area (shipped_pf b) = ram_flash 8192"
  using sample_pf_ok by (simp_all add: shipped_pf_def pf_ok_def)

lemma sample_ram_size: "kval_nat (kconf b (sample_sdk b) CONFIG_MEMFAULT_LOGGING_RAM_SIZE) = 8192"
  using shipped_values(1) [OF sample_sdk_for [of b]] by (simp add: prj_conf_defs board_conf_def)

theorem shipped_platform_witness:
  "store_platform (shipped_pf NRF7002DK) (ram_image 12288) (ram_image 8192) 80 8192 \<and>
   store_platform (shipped_pf NRF54LM20DK) (ram_image 12288) (ram_image 8192) 80 8192"
proof -
  have "store_platform (shipped_pf b) (ram_image 12288) (ram_image 8192) 80 8192" for b
    using shipped_platform [OF sample_sdk_for shipped_pf_on, of b "ram_image 12288" "ram_image 8192" 80 8192]
      ram_flash_ok [of 12288] ram_flash_ok [of 8192] ram_flash_reliable bool_sem_ok by (simp add: sample_ram_size)
  then show ?thesis by blast
qed

text \<open>
  C23: why the partition has 12 KB. With a working driver and a ring buffer of the configured size a persist on either
  board succeeds exactly when the context has at most 4080 bytes; on a partition of the 8 KB that the comments give it
  would be refused whatever the context, with \<^verbatim>\<open>-ENOSPC\<close>, and the next connect would find nothing to restore.
\<close>

theorem shipped_log_fits:
  assumes "sdk_for b sdk" and "shipped_on b sdk eai pf" and "flash_reliable (pf_log_area pf)"
    and "length s = kval_nat (kconf b sdk CONFIG_MEMFAULT_LOGGING_RAM_SIZE)" and "length c < 2 ^ 31"
    and "flash_reliable fa" and "fa_size fa = 8192"
  shows "(fst (memfault_log_state_persist_now (pf_log_area pf) (log_live (c, s)) f) = 0 \<longleftrightarrow> length c \<le> 4080) \<and>
    fst (memfault_log_state_persist_now fa (log_live (c, s)) g) = - ENOSPC"
proof -
  have sz: "fa_size (pf_log_area pf) = 12288" using assms(2) by (simp add: shipped_on_def)
  have s: "length s = 8192" using shipped_values(1) [OF assms(1)] assms(4) by (simp add: prj_conf_defs board_conf_def)
  have u: "unat (16 + of_nat (length c) + of_nat (length s) :: u32) = 16 + length c + length s"
    using assms(5) s log_total_len [of c s] by simp
  have "16 + of_nat (length c) + of_nat (length s) > (8192 :: u32)" unfolding word_less_nat_alt u using s by simp
  moreover have "fst (fa_open fa g) = 0" using assms(6) by (simp add: flash_reliable_def)
  ultimately have "fst (memfault_log_state_persist_now fa (log_live (c, s)) g) = - ENOSPC"
    using assms(7) by (simp add: log_live_def memfault_log_state_persist_now_def log_persist_payload_def split_beta Let_def)
  then show ?thesis using log_persist_fits_iff [OF assms(3), of c s f] assms(5) s by (simp add: sz)
qed

theorem shipped_log_fits_witness:
  "fst (memfault_log_state_persist_now (ram_flash 12288) (log_live (replicate 80 1, replicate 8192 2)) []) = 0 \<and>
   fst (memfault_log_state_persist_now (ram_flash 12288) (log_live (replicate 4081 1, replicate 8192 2)) []) \<noteq> 0 \<and>
   fst (memfault_log_state_persist_now (ram_flash 8192) (log_live (replicate 80 1, replicate 8192 2)) []) = - ENOSPC"
proof -
  have "fa_size (ram_flash 8192) = 8192" by (simp add: ram_flash_def)
  then have "(fst (memfault_log_state_persist_now (ram_flash 12288) (log_live (c, replicate 8192 2)) []) = 0 \<longleftrightarrow> length c \<le> 4080) \<and>
      fst (memfault_log_state_persist_now (ram_flash 8192) (log_live (c, replicate 8192 2)) []) = - ENOSPC" if "length c < 2 ^ 31" for c
    using shipped_log_fits [OF sample_sdk_for shipped_pf_on, of NRF7002DK "replicate 8192 2" c "ram_flash 8192" "[]" "[]"]
      ram_flash_reliable that by (simp add: sample_ram_size)
  from this [of "replicate 80 1"] this [of "replicate 4081 1"] show ?thesis by simp
qed

end
