(* ===== verification/Stats_Parser.thy ===== *)
theory Stats_Parser
  imports Nwm_Prelude
begin

text \<open>
  The host-side decoder of the firmware-statistics recording, \<^verbatim>\<open>src/script/nrf70_fw_stats_parser.py\<close>:
  it reads the struct definitions out of a C header, turns each into a format of Python's
  \<^verbatim>\<open>struct\<close> module and prints the fields of the blob the device uploaded.

  Python strings are \<open>string\<close>, bytes objects \<open>byte list\<close>, the dictionary \<^verbatim>\<open>self.structs\<close> a map. The text
  that \<^verbatim>\<open>print\<close> writes is the list of its lines; what \<^verbatim>\<open>logging.debug\<close> writes is left out, except for the
  byte count analysis at the end. The script always decodes with the format prefix \<^verbatim>\<open><\<close>: little-endian,
  standard sizes, no padding. How Python prints a \<^verbatim>\<open>float\<close> is the argument \<open>fr\<close>, applied to the bytes of the
  number.
\<close>

subsection \<open>Strings\<close>

text \<open>White space as \<^verbatim>\<open>str.strip\<close>, \<^verbatim>\<open>str.split\<close> and the regular expression \<^verbatim>\<open>\s\<close> see it.\<close>

definition py_isspace :: "char \<Rightarrow> bool" where
  "py_isspace c \<longleftrightarrow> (9 \<le> (of_char c :: nat) \<and> of_char c \<le> (13::nat)) \<or>
     (28 \<le> (of_char c :: nat) \<and> of_char c \<le> (32::nat)) \<or> of_char c = (133::nat) \<or> of_char c = (160::nat)"

definition py_startswith :: "string \<Rightarrow> string \<Rightarrow> bool" where
  "py_startswith p s \<longleftrightarrow> take (length p) s = p"

fun py_contains :: "string \<Rightarrow> string \<Rightarrow> bool" where
  "py_contains sub [] \<longleftrightarrow> sub = []"
| "py_contains sub (c # s) \<longleftrightarrow> py_startswith sub (c # s) \<or> py_contains sub s"

text \<open>\<^verbatim>\<open>line[:line.index(sub)]\<close> when \<open>sub\<close> occurs, the whole line otherwise.\<close>

fun cut_before :: "string \<Rightarrow> string \<Rightarrow> string" where
  "cut_before sub [] = []"
| "cut_before sub (c # s) = (if py_startswith sub (c # s) then [] else c # cut_before sub s)"

definition py_strip :: "string \<Rightarrow> string" where
  "py_strip s = rev (dropWhile py_isspace (rev (dropWhile py_isspace s)))"

fun split_by :: "(char \<Rightarrow> bool) \<Rightarrow> string \<Rightarrow> string list" where
  "split_by p [] = [[]]"
| "split_by p (c # s) = (let ws = split_by p s in if p c then [] # ws else (c # hd ws) # tl ws)"

definition py_split :: "string \<Rightarrow> string list" where
  "py_split s = filter (\<lambda>w. w \<noteq> []) (split_by py_isspace s)"

fun py_join :: "string list \<Rightarrow> string" where
  "py_join [] = []"
| "py_join [w] = w"
| "py_join (w # ws) = w @ '' '' @ py_join ws"

subsection \<open>Reading the header\<close>

text \<open>
  One attempt of the pattern \<^verbatim>\<open>struct NAME\s*\{([^}]+)\}\<close> at the start of a text. Neither repetition can
  give anything back: what follows \<^verbatim>\<open>\s*\<close> is no white space and what follows \<^verbatim>\<open>[^}]+\<close> is the brace.
\<close>

definition match_struct :: "string \<Rightarrow> string \<Rightarrow> string option" where
  "match_struct name s =
     (if py_startswith (''struct '' @ name) s
      then case dropWhile py_isspace (drop (length (''struct '' @ name)) s) of
             [] \<Rightarrow> None
           | c # r \<Rightarrow>
               (let body = takeWhile (\<lambda>c. c \<noteq> CHR ''}'') r
                in if c = CHR ''{'' \<and> body \<noteq> [] \<and> dropWhile (\<lambda>c. c \<noteq> CHR ''}'') r \<noteq> []
                   then Some body else None)
      else None)"

fun re_search_struct :: "string \<Rightarrow> string \<Rightarrow> string option" where
  "re_search_struct name [] = match_struct name []"
| "re_search_struct name (c # s) =
     (case match_struct name (c # s) of Some body \<Rightarrow> Some body | None \<Rightarrow> re_search_struct name s)"

type_synonym field = "string \<times> string"  \<comment> \<open>type and name\<close>

definition parse_field_line :: "string \<Rightarrow> field option" where
  "parse_field_line line =
     (let l = py_strip line
      in if l = [] \<or> py_startswith ''//'' l \<or> py_startswith ''/*'' l then None
         else let l1 = cut_before ''//'' l; l2 = cut_before ''/*'' l1
              in if py_contains '';'' l2
                 then let parts = py_split (py_strip (cut_before '';'' l2))
                      in if 2 \<le> length parts then Some (py_join (butlast parts), last parts) else None
                 else None)"

definition parse_struct_fields :: "string \<Rightarrow> field list" where
  "parse_struct_fields struct_body =
     List.map_filter parse_field_line (split_by (\<lambda>c. c = CHR 0x0A) (py_strip struct_body))"

definition struct_patterns :: "string list" where
  "struct_patterns = [''rpu_phy_stats'', ''rpu_lmac_stats'', ''rpu_umac_stats'', ''rpu_sys_fw_stats'',
     ''umac_tx_dbg_params'', ''umac_rx_dbg_params'', ''umac_cmd_evnt_dbg_params'', ''nrf_wifi_interface_stats'']"

definition parse_header :: "string \<Rightarrow> string \<Rightarrow> field list option" where
  "parse_header content =
     fold (\<lambda>struct_name structs.
         case re_search_struct struct_name content of
           Some body \<Rightarrow> structs(struct_name := Some (parse_struct_fields body))
         | None \<Rightarrow> structs)
       struct_patterns Map.empty"

subsection \<open>Formats of the struct module\<close>

definition get_type_format :: "string \<Rightarrow> char option" where
  "get_type_format field_type =
     (if py_contains ''struct'' field_type then None
      else Some (case map_of [(''signed char'', CHR ''b''), (''unsigned char'', CHR ''B''), (''char'', CHR ''b''),
             (''short'', CHR ''h''), (''unsigned short'', CHR ''H''), (''int'', CHR ''i''), (''unsigned int'', CHR ''I''),
             (''long'', CHR ''l''), (''unsigned long'', CHR ''L''), (''long long'', CHR ''q''),
             (''unsigned long long'', CHR ''Q''), (''float'', CHR ''f''), (''double'', CHR ''d'')] field_type of
           Some c \<Rightarrow> c | None \<Rightarrow> CHR ''I''))"

text \<open>Sizes with the prefix \<^verbatim>\<open><\<close>.\<close>

definition fmt_size :: "char \<Rightarrow> nat" where
  "fmt_size c = (if c \<in> set ''bB'' then 1 else if c \<in> set ''hH'' then 2 else if c \<in> set ''qQd'' then 8 else 4)"

definition calcsize :: "string \<Rightarrow> nat" where
  "calcsize fmt = sum_list (map fmt_size fmt)"

definition fmt_signed :: "char \<Rightarrow> bool" where "fmt_signed c \<longleftrightarrow> c \<in> set ''bhilq''"
definition fmt_float :: "char \<Rightarrow> bool" where "fmt_float c \<longleftrightarrow> c \<in> set ''fd''"

datatype py_val = Py_int int | Py_float "byte list"

fun le_nat :: "byte list \<Rightarrow> nat" where
  "le_nat [] = 0"
| "le_nat (b # bs) = unat b + 256 * le_nat bs"

definition unpack_one :: "char \<Rightarrow> byte list \<Rightarrow> py_val" where
  "unpack_one c bs =
     (if fmt_float c then Py_float bs
      else let n = int (le_nat bs); m = 2 ^ (8 * length bs)
           in if fmt_signed c \<and> m \<le> 2 * n then Py_int (n - m) else Py_int n)"

fun unpack :: "string \<Rightarrow> byte list \<Rightarrow> py_val list" where
  "unpack [] bs = []"
| "unpack (c # fmt) bs = unpack_one c (take (fmt_size c) bs) # unpack fmt (drop (fmt_size c) bs)"

definition py_str :: "(byte list \<Rightarrow> string) \<Rightarrow> py_val \<Rightarrow> string" where
  "py_str fr v = (case v of Py_int i \<Rightarrow> (if i < 0 then CHR ''-'' # dec_string (nat (- i)) else dec_string (nat i))
     | Py_float bs \<Rightarrow> fr bs)"

subsection \<open>Decoding the blob\<close>

text \<open>
  Format of a section: the PHY and LMAC sections look at the field types (a nested struct counts as
  one unsigned int), the UMAC sections take every field as an unsigned int.
\<close>

definition section_format :: "bool \<Rightarrow> field list \<Rightarrow> string" where
  "section_format typed fields =
     map (\<lambda>(field_type, field_name).
       if typed then (case get_type_format field_type of Some c \<Rightarrow> c | None \<Rightarrow> CHR ''I'') else CHR ''I'') fields"

definition section_lines :: "(byte list \<Rightarrow> string) \<Rightarrow> string \<Rightarrow> field list \<Rightarrow> py_val list \<Rightarrow> string list" where
  "section_lines fr title fields data =
     [title, ''======================''] @
     map (\<lambda>((field_type, field_name), v). field_name @ '': '' @ py_str fr v) (zip fields data) @ ['''']"

definition parse_section ::
  "(byte list \<Rightarrow> string) \<Rightarrow> (string \<Rightarrow> field list option) \<Rightarrow> byte list \<Rightarrow> string \<times> string \<times> bool \<Rightarrow>
     string list \<times> nat \<Rightarrow> string list \<times> nat" where
  "parse_section fr structs blob_data sec out =
     (case (sec, out) of ((name, title, typed), (lines, offset)) \<Rightarrow>
        (case structs name of
           None \<Rightarrow> (lines, offset)
         | Some fields \<Rightarrow>
             (let fmt = section_format typed fields
              in if offset + calcsize fmt \<le> length blob_data
                 then (lines @ section_lines fr title fields
                         (unpack fmt (take (calcsize fmt) (drop offset blob_data))),
                       offset + calcsize fmt)
                 else (lines, offset))))"

definition stats_sections :: "(string \<times> string \<times> bool) list" where
  "stats_sections =
     [(''rpu_phy_stats'', ''PHY stats'', True), (''rpu_lmac_stats'', ''LMAC stats'', True),
      (''umac_tx_dbg_params'', ''UMAC TX debug stats'', False),
      (''umac_rx_dbg_params'', ''UMAC RX debug stats'', False),
      (''umac_cmd_evnt_dbg_params'', ''UMAC control path stats'', False),
      (''nrf_wifi_interface_stats'', ''UMAC interface stats'', False)]"

definition parse_rpu_sys_fw_stats ::
  "(byte list \<Rightarrow> string) \<Rightarrow> (string \<Rightarrow> field list option) \<Rightarrow> byte list \<Rightarrow> string list \<times> nat" where
  "parse_rpu_sys_fw_stats fr structs blob_data =
     fold (parse_section fr structs blob_data) stats_sections ([], 0)"

text \<open>The byte count analysis: remaining bytes, expected total, and whether they match.\<close>

definition byte_count_analysis ::
  "(string \<Rightarrow> field list option) \<Rightarrow> byte list \<Rightarrow> nat \<Rightarrow> (nat \<times> nat \<times> bool) option" where
  "byte_count_analysis structs blob_data offset =
     (let remaining = length blob_data - offset;
          total_expected = 18 + 148 + 136 + 152 + 160 + remaining
      in if structs ''nrf_wifi_interface_stats'' \<noteq> None \<and> remaining > 0
         then Some (remaining, total_expected, total_expected = length blob_data) else None)"

subsection \<open>The command line\<close>

fun remove_0x :: "string \<Rightarrow> string" where
  "remove_0x (a # b # s) =
     (if a = CHR ''0'' \<and> b = CHR ''x'' then remove_0x s else a # remove_0x (b # s))"
| "remove_0x s = s"

definition clean_hex :: "string \<Rightarrow> string" where
  "clean_hex s = filter (\<lambda>c. c \<noteq> CHR 0x0A) (remove_0x (filter (\<lambda>c. c \<noteq> CHR '' '') s))"

definition hex_val :: "char \<Rightarrow> nat option" where
  "hex_val c = (let n = of_char c :: nat
     in if 48 \<le> n \<and> n \<le> 57 then Some (n - 48)
        else if 65 \<le> n \<and> n \<le> 70 then Some (n - 55)
        else if 97 \<le> n \<and> n \<le> 102 then Some (n - 87) else None)"

text \<open>\<^verbatim>\<open>bytes.fromhex\<close>: pairs of hexadecimal digits, ASCII white space allowed between pairs.\<close>

fun fromhex :: "string \<Rightarrow> byte list option" where
  "fromhex [] = Some []"
| "fromhex [c] = (if c_isspace c then Some [] else None)"
| "fromhex (c # d # s) =
     (if c_isspace c then fromhex (d # s)
      else case (hex_val c, hex_val d) of
             (Some h, Some l) \<Rightarrow> map_option ((#) (of_nat (16 * h + l))) (fromhex s)
           | _ \<Rightarrow> None)"

datatype blob_arg = Blob_file "byte list option" | Blob_text string

datatype parser_result =
  Exit_header_not_found | Exit_read_error | Exit_invalid_hex | Parsed "string list" nat

text \<open>
  \<open>header\<close> is the text of the header file, \<open>None\<close> when the path does not exist; a blob argument that
  names a file is \<open>Blob_file\<close>, with \<open>None\<close> when reading it raises.
\<close>

definition parser_main :: "(byte list \<Rightarrow> string) \<Rightarrow> string option \<Rightarrow> blob_arg \<Rightarrow> parser_result" where
  "parser_main fr header arg =
     (case header of
        None \<Rightarrow> Exit_header_not_found
      | Some content \<Rightarrow>
          (let run = (\<lambda>blob_data. case parse_rpu_sys_fw_stats fr (parse_header content) blob_data of
                        (lines, offset) \<Rightarrow> Parsed lines offset)
           in case arg of
                Blob_file (Some blob_data) \<Rightarrow> run blob_data
              | Blob_file None \<Rightarrow> Exit_read_error
              | Blob_text hex_blob \<Rightarrow>
                  (case fromhex (clean_hex hex_blob) of
                     Some blob_data \<Rightarrow> run blob_data | None \<Rightarrow> Exit_invalid_hex)))"

subsection \<open>Packing, the inverse of unpacking\<close>

text \<open>\<^verbatim>\<open>struct.pack\<close>, and the values each format character can hold.\<close>

fun le_bytes :: "nat \<Rightarrow> nat \<Rightarrow> byte list" where
  "le_bytes 0 n = []"
| "le_bytes (Suc k) n = of_nat n # le_bytes k (n div 256)"

definition pack_one :: "char \<Rightarrow> py_val \<Rightarrow> byte list" where
  "pack_one c v = (case v of Py_int i \<Rightarrow> le_bytes (fmt_size c) (nat (i mod 256 ^ fmt_size c)) | Py_float bs \<Rightarrow> bs)"

definition pack :: "string \<Rightarrow> py_val list \<Rightarrow> byte list" where
  "pack fmt vs = concat (map2 pack_one fmt vs)"

definition val_ok :: "char \<Rightarrow> py_val \<Rightarrow> bool" where
  "val_ok c v = (case v of
       Py_int i \<Rightarrow> \<not> fmt_float c \<and>
         (if fmt_signed c then - (256 ^ fmt_size c) \<le> 2 * i \<and> 2 * i < 256 ^ fmt_size c
          else 0 \<le> i \<and> i < 256 ^ fmt_size c)
     | Py_float bs \<Rightarrow> fmt_float c \<and> length bs = fmt_size c)"

lemma length_le_bytes [simp]: "length (le_bytes k n) = k"
  by (induction k arbitrary: n) simp_all

lemma le_nat_le_bytes [codec_simps]: "le_nat (le_bytes k n) = n mod 256 ^ k"
proof (induction k arbitrary: n)
  case (Suc k)
  have "unat (of_nat n :: byte) = n mod 256" by (simp add: unat_of_nat)
  then show ?case using Suc by (simp add: mod_mult2_eq)
qed simp

lemma length_pack_one [simp]: "val_ok c v \<Longrightarrow> length (pack_one c v) = fmt_size c"
  by (auto simp: val_ok_def pack_one_def split: py_val.splits)

lemma pow_8: "(2::int) ^ (8 * k) = 256 ^ k"
  by (simp add: power_mult)

lemma mod_window:
  assumes "0 < m" "- m \<le> 2 * i \<and> i < (m :: int)"
  shows "i mod m = (if i < 0 then i + m else i)"
proof (cases "i < 0")
  case True
  then have "(i + m) mod m = i + m" using assms by (intro mod_pos_pos_trivial) auto
  then show ?thesis using True by simp
qed (use assms in \<open>simp add: mod_pos_pos_trivial\<close>)

lemma unpack_one_pack_one [codec_simps]:
  assumes "val_ok c v"
  shows "unpack_one c (pack_one c v) = v"
proof (cases v)
  case (Py_int i)
  let ?m = "256 ^ fmt_size c :: int"
  have m: "0 < ?m" by simp
  have n: "int (le_nat (le_bytes (fmt_size c) (nat (i mod ?m)))) = i mod ?m"
    using m by (simp add: le_nat_le_bytes zmod_int)
  have "- ?m \<le> 2 * i \<and> i < ?m" using assms Py_int m by (auto simp: val_ok_def split: if_splits)
  then have r: "i mod ?m = (if i < 0 then i + ?m else i)" using mod_window [OF m] by blast
  show ?thesis
    using assms Py_int n r by (auto simp: val_ok_def unpack_one_def pack_one_def pow_8 Let_def split: if_splits)
next
  case (Py_float bs)
  then show ?thesis using assms by (simp add: val_ok_def unpack_one_def pack_one_def)
qed

lemma length_pack: "list_all2 val_ok fmt vs \<Longrightarrow> length (pack fmt vs) = calcsize fmt"
  by (induction rule: list_all2_induct) (simp_all add: pack_def calcsize_def)

lemma unpack_pack [codec_simps]:
  "list_all2 val_ok fmt vs \<Longrightarrow> unpack fmt (pack fmt vs) = vs"
  by (induction rule: list_all2_induct) (simp_all add: pack_def unpack_one_pack_one)

subsection \<open>Decoding what was packed\<close>

definition sections_ok :: "(string \<Rightarrow> field list option) \<Rightarrow> (string \<Rightarrow> py_val list) \<Rightarrow> (string \<times> string \<times> bool) list \<Rightarrow> bool" where
  "sections_ok structs vals secs \<longleftrightarrow> list_all (\<lambda>(name, title, typed). case structs name of
     None \<Rightarrow> False | Some fields \<Rightarrow> list_all2 val_ok (section_format typed fields) (vals name)) secs"

definition sections_image :: "(string \<Rightarrow> field list option) \<Rightarrow> (string \<Rightarrow> py_val list) \<Rightarrow> (string \<times> string \<times> bool) list \<Rightarrow> byte list" where
  "sections_image structs vals secs =
     concat (map (\<lambda>(name, title, typed). pack (section_format typed (the (structs name))) (vals name)) secs)"

definition sections_text :: "(byte list \<Rightarrow> string) \<Rightarrow> (string \<Rightarrow> field list option) \<Rightarrow> (string \<Rightarrow> py_val list) \<Rightarrow>
    (string \<times> string \<times> bool) list \<Rightarrow> string list" where
  "sections_text fr structs vals secs =
     concat (map (\<lambda>(name, title, typed). section_lines fr title (the (structs name)) (vals name)) secs)"

lemma parse_section_packed:
  assumes "structs name = Some fields" "list_all2 val_ok (section_format typed fields) vs"
  shows "parse_section fr structs (pre @ pack (section_format typed fields) vs @ post) (name, title, typed) (lines, length pre) =
    (lines @ section_lines fr title fields vs, length pre + length (pack (section_format typed fields) vs))"
  using assms by (simp add: parse_section_def Let_def length_pack unpack_pack flip: length_pack)

lemma fold_sections_packed:
  "sections_ok structs vals secs \<Longrightarrow>
   fold (parse_section fr structs (pre @ sections_image structs vals secs @ post)) secs (lines, length pre) =
     (lines @ sections_text fr structs vals secs, length pre + length (sections_image structs vals secs))"
proof (induction secs arbitrary: pre lines)
  case (Cons sec secs)
  obtain name title typed where sec: "sec = (name, title, typed)" by (metis prod.collapse)
  obtain fields where f: "structs name = Some fields" "list_all2 val_ok (section_format typed fields) (vals name)"
    using Cons.prems sec by (auto simp: sections_ok_def split: option.splits)
  let ?p = "pack (section_format typed fields) (vals name)"
  have ok: "sections_ok structs vals secs" using Cons.prems by (simp add: sections_ok_def)
  show ?case
    using Cons.IH [OF ok, of "pre @ ?p" "lines @ section_lines fr title fields (vals name)"]
      parse_section_packed [where structs = structs and name = name and pre = pre and post = "sections_image structs vals secs @ post", OF f, of fr title lines] sec f(1)
    by (simp add: sections_image_def sections_text_def)
qed (simp add: sections_image_def sections_text_def)

lemma sections_cong:
  assumes "\<And>n. n \<in> fst ` set secs \<Longrightarrow> st n = st' n"
  shows "sections_ok st vals secs = sections_ok st' vals secs \<and> sections_image st vals secs = sections_image st' vals secs \<and>
    sections_text fr st vals secs = sections_text fr st' vals secs"
  using assms
proof (induction secs)
  case (Cons sec secs)
  then have "st (fst sec) = st' (fst sec)" by simp
  then show ?case using Cons by (simp add: sections_ok_def sections_image_def sections_text_def split_beta)
qed (simp add: sections_ok_def sections_image_def sections_text_def)

subsection \<open>Finding the structs in a header\<close>

lemma py_startswith_append: "py_startswith p s \<longleftrightarrow> (\<exists>t. s = p @ t)"
  by (metis append_eq_conv_conj append_take_drop_id py_startswith_def)

definition no_space :: "string \<Rightarrow> bool" where "no_space s \<longleftrightarrow> list_all (\<lambda>c. \<not> py_isspace c) s"

lemma not_space_braces [simp]: "\<not> py_isspace (CHR ''{'')" "\<not> py_isspace (CHR ''}'')" "\<not> py_isspace (CHR '';'')"
    "\<not> py_isspace (CHR ''/'')"
  by (simp_all add: py_isspace_def)

lemma space_space [simp]: "py_isspace (CHR '' '')" "py_isspace (CHR 0x0A)" "py_isspace (CHR 0x09)"
  by (simp_all add: py_isspace_def)

text \<open>What precedes the opening brace of a match.\<close>

lemma match_structD:
  assumes "match_struct name s = Some body" "CHR ''{'' \<notin> set name"
  shows "\<exists>ws. list_all py_isspace ws \<and> takeWhile (\<lambda>c. c \<noteq> CHR ''{'') s = ''struct '' @ name @ ws \<and> CHR ''{'' \<in> set s"
proof -
  obtain r where s: "s = (''struct '' @ name) @ r"
    using assms(1) by (auto simp: match_struct_def py_startswith_append split: if_splits)
  let ?ws = "takeWhile py_isspace r"
  obtain r2 where "dropWhile py_isspace r = CHR ''{'' # r2"
    using assms(1) s by (auto simp: match_struct_def Let_def split: if_splits list.splits)
  then have r: "r = ?ws @ CHR ''{'' # r2" by (metis takeWhile_dropWhile_id)
  have w: "list_all py_isspace ?ws" by (auto simp: list_all_iff dest: set_takeWhileD)
  then have "CHR ''{'' \<notin> set ?ws" using not_space_braces(1) by (auto simp: list_all_iff)
  then have n: "\<forall>c \<in> set (''struct '' @ name @ ?ws). c \<noteq> CHR ''{''" using assms(2) by auto
  define p where "p = ''struct '' @ name @ ?ws"
  have np: "c \<noteq> CHR ''{''" if "c \<in> set p" for c using n that unfolding p_def by blast
  have "s = p @ CHR ''{'' # r2" using s r unfolding p_def by simp
  moreover have "takeWhile (\<lambda>c. c \<noteq> CHR ''{'') (p @ CHR ''{'' # r2) = p"
    by (subst takeWhile_append2) (auto dest: np)
  ultimately have "takeWhile (\<lambda>c. c \<noteq> CHR ''{'') s = p \<and> CHR ''{'' \<in> set s" by simp
  then show ?thesis using w unfolding p_def by blast
qed

text \<open>The last word of a text and what comes before it, both reversed.\<close>

lemma last_word:
  assumes "no_space n" "n \<noteq> []" "list_all py_isspace ws" "y = [] \<or> py_isspace (last y)"
  shows "takeWhile (\<lambda>c. \<not> py_isspace c) (dropWhile py_isspace (rev (y @ n @ ws))) = rev n"
    "dropWhile (\<lambda>c. \<not> py_isspace c) (dropWhile py_isspace (rev (y @ n @ ws))) = rev y"
proof -
  have "dropWhile py_isspace (rev ws @ rev n @ rev y) = rev n @ rev y"
  proof -
    have "rev n \<noteq> []" "\<not> py_isspace (hd (rev n))" using assms(1,2) by (simp_all add: no_space_def list_all_iff hd_rev)
    then have "dropWhile py_isspace (rev n @ rev y) = rev n @ rev y" by (cases "rev n") auto
    then show ?thesis using assms(3) by (subst dropWhile_append2) (auto simp: list_all_iff)
  qed
  then have d: "dropWhile py_isspace (rev (y @ n @ ws)) = rev n @ rev y" by simp
  have n: "\<And>c. c \<in> set (rev n) \<Longrightarrow> \<not> py_isspace c" using assms(1) by (simp add: no_space_def list_all_iff)
  have "rev y = [] \<or> py_isspace (hd (rev y))" using assms(4) by (simp add: hd_rev)
  then have y: "takeWhile (\<lambda>c. \<not> py_isspace c) (rev y) = []" "dropWhile (\<lambda>c. \<not> py_isspace c) (rev y) = rev y"
    by (cases "rev y"; simp)+
  show "takeWhile (\<lambda>c. \<not> py_isspace c) (dropWhile py_isspace (rev (y @ n @ ws))) = rev n"
    unfolding d by (subst takeWhile_append2) (simp_all only: n y append_Nil2 not_False_eq_True)
  show "dropWhile (\<lambda>c. \<not> py_isspace c) (dropWhile py_isspace (rev (y @ n @ ws))) = rev y"
    unfolding d by (subst dropWhile_append2) (simp_all only: n y not_False_eq_True)
qed

lemma struct_head_unique:
  assumes "u @ v = pre @ ''struct '' @ m @ '' ''" "v = ''struct '' @ n @ ws"
    and "no_space m" "m \<noteq> []" "no_space n" "n \<noteq> []" "list_all py_isspace ws"
  shows "n = m \<and> u = pre"
proof -
  have a: "takeWhile (\<lambda>c. \<not> py_isspace c) (dropWhile py_isspace (rev ((u @ ''struct '') @ n @ ws))) = rev n"
    "dropWhile (\<lambda>c. \<not> py_isspace c) (dropWhile py_isspace (rev ((u @ ''struct '') @ n @ ws))) = rev (u @ ''struct '')"
    using last_word [OF assms(5-7), of "u @ ''struct ''"] by (simp_all only: last_snoc space_space last_append) simp_all
  have b: "takeWhile (\<lambda>c. \<not> py_isspace c) (dropWhile py_isspace (rev ((pre @ ''struct '') @ m @ '' ''))) = rev m"
    "dropWhile (\<lambda>c. \<not> py_isspace c) (dropWhile py_isspace (rev ((pre @ ''struct '') @ m @ '' ''))) = rev (pre @ ''struct '')"
    using last_word [OF assms(3,4), of "'' ''" "pre @ ''struct ''"] by simp_all
  have e: "(u @ ''struct '') @ n @ ws = (pre @ ''struct '') @ m @ '' ''" using assms(1,2) by simp
  from a b have "rev n = rev m" "rev (u @ ''struct '') = rev (pre @ ''struct '')" by (metis e)+
  then show ?thesis by simp
qed

text \<open>
  A header as a sequence of struct definitions with arbitrary text without an opening brace between
  them: comments, forward declarations, attributes, other declarations.
\<close>

type_synonym block = "string \<times> string \<times> string"  \<comment> \<open>preceding text, struct name, struct body\<close>

fun block_ok :: "block \<Rightarrow> bool" where
  "block_ok (pre, name, body) \<longleftrightarrow> CHR ''{'' \<notin> set pre \<and> name \<noteq> [] \<and> no_space name \<and>
     CHR ''{'' \<notin> set name \<and> CHR ''}'' \<notin> set name \<and>
     body \<noteq> [] \<and> CHR ''{'' \<notin> set body \<and> CHR ''}'' \<notin> set body"

fun block_text :: "block \<Rightarrow> string" where
  "block_text (pre, name, body) = pre @ ''struct '' @ name @ '' '' @ ''{'' @ body @ ''}''"

definition header_text :: "block list \<Rightarrow> string \<Rightarrow> string" where
  "header_text blocks post = concat (map block_text blocks) @ post"

definition struct_name_ok :: "string \<Rightarrow> bool" where
  "struct_name_ok n \<longleftrightarrow> n \<noteq> [] \<and> no_space n \<and> CHR ''{'' \<notin> set n \<and> CHR ''}'' \<notin> set n"

lemma re_search_skip:
  "(\<And>v w. u = w @ v \<Longrightarrow> v \<noteq> [] \<Longrightarrow> match_struct n (v @ rest) = None) \<Longrightarrow>
   re_search_struct n (u @ rest) = re_search_struct n rest"
proof (induction u)
  case (Cons c u)
  have "match_struct n ((c # u) @ rest) = None" using Cons.prems [of "[]" "c # u"] by simp
  moreover have "re_search_struct n (u @ rest) = re_search_struct n rest"
    using Cons.prems by (intro Cons.IH) (metis append_Cons)
  ultimately show ?case by simp
qed simp

lemma match_struct_no_brace: "CHR ''{'' \<notin> set n \<Longrightarrow> CHR ''{'' \<notin> set s \<Longrightarrow> match_struct n s = None"
  using match_structD by (cases "match_struct n s") blast+

lemma match_struct_closed:
  assumes "struct_name_ok n" "CHR ''{'' \<notin> set v" "CHR ''}'' \<in> set v"
  shows "match_struct n (v @ rest) = None"
proof (rule ccontr)
  assume "match_struct n (v @ rest) \<noteq> None"
  then obtain ws where w: "list_all py_isspace ws"
      "takeWhile (\<lambda>c. c \<noteq> CHR ''{'') (v @ rest) = ''struct '' @ n @ ws"
    using match_structD [of n "v @ rest"] assms(1) by (auto simp: struct_name_ok_def)
  have "takeWhile (\<lambda>c. c \<noteq> CHR ''{'') (v @ rest) = v @ takeWhile (\<lambda>c. c \<noteq> CHR ''{'') rest"
    by (rule takeWhile_append2) (use assms(2) in auto)
  then have "CHR ''}'' \<in> set (''struct '' @ n @ ws)" using w(2) assms(3) by (metis Un_iff set_append)
  then show False using assms(1) w(1) by (auto simp: struct_name_ok_def list_all_iff)
qed

lemma match_struct_head:
  assumes "struct_name_ok n" "block_ok (pre, m, body)" "pre @ ''struct '' @ m @ '' '' = w @ v"
    and "match_struct n (v @ CHR ''{'' # rest) \<noteq> None"
  shows "n = m \<and> w = pre"
proof -
  obtain ws where w: "list_all py_isspace ws"
      "takeWhile (\<lambda>c. c \<noteq> CHR ''{'') (v @ CHR ''{'' # rest) = ''struct '' @ n @ ws"
    using match_structD [of n "v @ CHR ''{'' # rest"] assms(1,4) by (auto simp: struct_name_ok_def)
  have "set v \<subseteq> set (pre @ ''struct '' @ m @ '' '')" unfolding assms(3) by simp
  then have "CHR ''{'' \<notin> set v" using assms(2) by auto
  then have "takeWhile (\<lambda>c. c \<noteq> CHR ''{'') (v @ CHR ''{'' # rest) = v @ takeWhile (\<lambda>c. c \<noteq> CHR ''{'') (CHR ''{'' # rest)"
    by (intro takeWhile_append2) auto
  then have "v = ''struct '' @ n @ ws" using w(2) by simp
  then show ?thesis
    using struct_head_unique [of w v pre m n ws] assms(1,2,3) w(1) by (simp add: struct_name_ok_def)
qed

lemma match_struct_here:
  assumes "block_ok (pre, n, body)"
  shows "match_struct n (''struct '' @ n @ '' '' @ ''{'' @ body @ ''}'' @ rest) = Some body"
proof -
  have b: "\<And>c. c \<in> set body \<Longrightarrow> c \<noteq> CHR ''}''" using assms by auto
  have t: "takeWhile (\<lambda>c. c \<noteq> CHR ''}'') (body @ CHR ''}'' # rest) = body"
    "dropWhile (\<lambda>c. c \<noteq> CHR ''}'') (body @ CHR ''}'' # rest) = CHR ''}'' # rest"
    by (subst takeWhile_append2 dropWhile_append2; use b in simp)+
  show ?thesis using assms t by (simp add: match_struct_def py_startswith_def)
qed

text \<open>No struct starts inside the body of another.\<close>

lemma re_search_body:
  assumes "struct_name_ok n" "block_ok (pre, m, body)"
  shows "re_search_struct n (''{'' @ body @ ''}'' @ rest) = re_search_struct n rest"
proof -
  have "re_search_struct n ((''{'' @ body @ ''}'') @ rest) = re_search_struct n rest"
  proof (rule re_search_skip)
    fix v w assume v: "''{'' @ body @ ''}'' = w @ v" "v \<noteq> []"
    show "match_struct n (v @ rest) = None"
    proof (cases w)
      case Nil
      then show ?thesis using v by (auto simp: match_struct_def py_startswith_def)
    next
      case (Cons c w')
      then have "body @ ''}'' = w' @ v" using v by simp
      then have "CHR ''}'' \<in> set v \<and> set v \<subseteq> set (body @ ''}'')"
        using v(2) by (metis Un_upper2 last_appendR last_in_set last_snoc set_append)
      then show ?thesis using match_struct_closed [OF assms(1), of v rest] assms(2) by auto
    qed
  qed
  then show ?thesis by simp
qed

lemma re_search_block:
  assumes "struct_name_ok n" "block_ok (pre, m, body)"
  shows "re_search_struct n (block_text (pre, m, body) @ rest) =
    (if n = m then Some body else re_search_struct n rest)"
proof -
  let ?tail = "''{'' @ body @ ''}'' @ rest"
  have tail: "re_search_struct n ?tail = re_search_struct n rest" by (rule re_search_body [OF assms])
  have pre: "re_search_struct n (pre @ s) = re_search_struct n s"
    if s: "s = ''struct '' @ m @ '' '' @ ?tail" for s
  proof (rule re_search_skip)
    fix v w assume v: "pre = w @ v" "v \<noteq> []"
    show "match_struct n (v @ s) = None"
      using match_struct_head [OF assms, of w "v @ ''struct '' @ m @ '' ''" "body @ ''}'' @ rest"] v s
      by (cases "match_struct n (v @ s)") auto
  qed
  show ?thesis
  proof (cases "n = m")
    case True
    then have h: "match_struct n (''struct '' @ m @ '' '' @ ?tail) = Some body" using match_struct_here assms(2) by simp
    then have "re_search_struct n (''struct '' @ m @ '' '' @ ?tail) = Some body" by simp
    then show ?thesis using pre [OF refl] True by simp
  next
    case False
    have "re_search_struct n ((''struct '' @ m @ '' '') @ ?tail) = re_search_struct n ?tail"
    proof (rule re_search_skip)
      fix v w assume v: "''struct '' @ m @ '' '' = w @ v" "v \<noteq> []"
      then have "pre @ ''struct '' @ m @ '' '' = (pre @ w) @ v" by simp
      then show "match_struct n (v @ ?tail) = None"
        using match_struct_head [OF assms, of "pre @ w" v "body @ ''}'' @ rest"] False
        by (cases "match_struct n (v @ ?tail)") auto
    qed
    then show ?thesis using pre [OF refl] tail False by simp
  qed
qed

lemma re_search_header:
  assumes "struct_name_ok n" "list_all block_ok blocks" "CHR ''{'' \<notin> set post"
  shows "re_search_struct n (header_text blocks post) = map_of (map snd blocks) n"
  using assms(2)
proof (induction blocks)
  case Nil
  have "re_search_struct n post = None" using assms(3)
    by (induction post) (use assms(1) match_struct_no_brace in \<open>auto simp: struct_name_ok_def\<close>)
  then show ?case by (simp add: header_text_def)
next
  case (Cons b blocks)
  obtain pre m body where b: "b = (pre, m, body)" by (metis prod.collapse)
  have "re_search_struct n (header_text (b # blocks) post) =
      re_search_struct n (block_text (pre, m, body) @ header_text blocks post)" by (simp add: header_text_def b)
  also have "\<dots> = (if n = m then Some body else re_search_struct n (header_text blocks post))"
    using Cons.prems b by (intro re_search_block assms(1)) simp
  finally show ?case using Cons b by auto
qed

lemma fold_upd_eq:
  "fold (\<lambda>k m. case f k of Some b \<Rightarrow> m(k := Some (g b)) | None \<Rightarrow> m) ks m0 x =
     (if x \<in> set ks \<and> f x \<noteq> None then map_option g (f x) else m0 x)"
  by (induction ks arbitrary: m0) (auto split: option.splits)

lemma parse_header_lookup:
  "parse_header content n =
     (if n \<in> set struct_patterns then map_option parse_struct_fields (re_search_struct n content) else None)"
  unfolding parse_header_def fold_upd_eq by auto

lemma struct_patterns_ok: "n \<in> set struct_patterns \<Longrightarrow> struct_name_ok n"
  unfolding struct_patterns_def struct_name_ok_def no_space_def by (auto simp: py_isspace_def)

subsection \<open>Reading the fields\<close>

text \<open>
  The lines of a struct body: a field with any indentation and any text after the semicolon, a
  comment line, or a blank line.
\<close>

datatype header_line =
    Field_line string "string list" string string  \<comment> \<open>indentation, type words, name, rest of the line\<close>
  | Comment_line string string
  | Blank_line string

definition word_ok :: "string \<Rightarrow> bool" where
  "word_ok w \<longleftrightarrow> w \<noteq> [] \<and> no_space w \<and> CHR '';'' \<notin> set w \<and> CHR ''/'' \<notin> set w"

fun line_ok :: "header_line \<Rightarrow> bool" where
  "line_ok (Field_line ind ty name tr) \<longleftrightarrow> list_all py_isspace ind \<and> ty \<noteq> [] \<and> list_all word_ok ty \<and> word_ok name"
| "line_ok (Comment_line ind cm) \<longleftrightarrow> list_all py_isspace ind \<and> (py_startswith ''//'' cm \<or> py_startswith ''/*'' cm)"
| "line_ok (Blank_line ind) \<longleftrightarrow> list_all py_isspace ind"

fun line_text :: "header_line \<Rightarrow> string" where
  "line_text (Field_line ind ty name tr) = ind @ py_join (ty @ [name]) @ '';'' @ tr"
| "line_text (Comment_line ind cm) = ind @ cm"
| "line_text (Blank_line ind) = ind"

fun line_field :: "header_line \<Rightarrow> field option" where
  "line_field (Field_line ind ty name tr) = Some (py_join ty, name)"
| "line_field _ = None"

definition body_text :: "header_line list \<Rightarrow> string" where
  "body_text ls = concat (map (\<lambda>l. line_text l @ [CHR 0x0A]) ls)"

text \<open>Stripping.\<close>

lemma py_strip_Cons: "py_isspace c \<Longrightarrow> py_strip (c # s) = py_strip s"
  by (simp add: py_strip_def)

lemma py_strip_snoc:
  assumes "py_isspace c"
  shows "py_strip (s @ [c]) = py_strip s"
proof (cases "list_all py_isspace s")
  case True
  then have d: "dropWhile py_isspace s = []" by (simp add: list_all_iff)
  have e: "dropWhile py_isspace (s @ [c]) = []" using True assms by (subst dropWhile_eq_Nil_conv) (auto simp: list_all_iff)
  show ?thesis by (simp only: py_strip_def d e)
next
  case False
  then obtain x where "x \<in> set s" "\<not> py_isspace x" by (auto simp: list_all_iff)
  then have "dropWhile py_isspace (s @ [c]) = dropWhile py_isspace s @ [c]" by (simp add: dropWhile_append1)
  then show ?thesis using assms by (simp add: py_strip_def)
qed

lemma py_strip_ind: "list_all py_isspace ind \<Longrightarrow> py_strip (ind @ s) = py_strip s"
  by (induction ind) (simp_all add: py_strip_Cons)

lemma py_strip_keeps:
  assumes "\<not> py_isspace c" "\<not> py_isspace d"
  shows "\<exists>tr'. py_strip (c # s @ d # tr) = c # s @ d # tr'"
proof -
  have "dropWhile py_isspace (rev tr @ d # rev s @ [c]) = dropWhile py_isspace (rev tr) @ d # rev s @ [c]"
  proof (induction "rev tr" arbitrary: tr)
    case (Cons x xs)
    have "dropWhile py_isspace (xs @ d # rev s @ [c]) = dropWhile py_isspace xs @ d # rev s @ [c]"
      using Cons.hyps(1) [of "rev xs"] by simp
    then show ?case using Cons.hyps(2) [symmetric] assms(2) by auto
  qed (use assms in simp)
  then have "py_strip (c # s @ d # tr) = c # s @ d # rev (dropWhile py_isspace (rev tr))"
    using assms(1) by (simp add: py_strip_def)
  then show ?thesis by blast
qed

text \<open>Splitting.\<close>

lemma split_by_nonempty [simp]: "split_by p s \<noteq> []"
  by (induction s) (simp_all add: Let_def)

lemma split_by_append:
  "list_all (\<lambda>c. \<not> p c) l \<Longrightarrow> p d \<Longrightarrow> split_by p (l @ d # s) = l # split_by p s"
  by (induction l) (simp_all add: Let_def)

lemma split_by_none: "list_all (\<lambda>c. \<not> p c) l \<Longrightarrow> split_by p l = [l]"
  by (induction l) (simp_all add: Let_def)

lemma split_by_snoc:
  "split_by p (s @ [c]) =
     (if p c then split_by p s @ [[]] else butlast (split_by p s) @ [last (split_by p s) @ [c]])"
proof (induction s)
  case (Cons a s)
  then show ?case by (cases "split_by p s"; cases "tl (split_by p s)") (auto simp: Let_def)
qed (simp add: Let_def)

lemma parse_field_line_strip:
  "parse_field_line [] = None"
  "py_isspace c \<Longrightarrow> parse_field_line (c # l) = parse_field_line l"
  "py_isspace c \<Longrightarrow> parse_field_line (l @ [c]) = parse_field_line l"
  by (simp_all add: parse_field_line_def py_strip_Cons py_strip_snoc) (simp add: py_strip_def)

abbreviation body_fields :: "string \<Rightarrow> field list" where
  "body_fields s \<equiv> List.map_filter parse_field_line (split_by (\<lambda>c. c = CHR 0x0A) s)"

lemma body_fields_Cons: "py_isspace c \<Longrightarrow> body_fields (c # s) = body_fields s"
  by (cases "split_by (\<lambda>c. c = CHR 0x0A) s")
    (auto simp: Let_def List.map_filter_simps parse_field_line_strip)

lemma map_filter_snoc: "List.map_filter f (xs @ [x]) = List.map_filter f xs @ (case f x of None \<Rightarrow> [] | Some y \<Rightarrow> [y])"
  by (induction xs) (auto simp: List.map_filter_simps split: option.splits)

lemma body_fields_snoc:
  assumes "py_isspace c"
  shows "body_fields (s @ [c]) = body_fields s"
proof -
  let ?ls = "split_by (\<lambda>c. c = CHR 0x0A) s"
  have "List.map_filter parse_field_line (butlast ?ls @ [last ?ls @ [c]]) =
      List.map_filter parse_field_line (butlast ?ls @ [last ?ls])"
    using assms by (simp only: map_filter_snoc parse_field_line_strip)
  then show ?thesis by (simp add: split_by_snoc map_filter_snoc parse_field_line_strip)
qed

lemma body_fields_strip: "body_fields (py_strip s) = body_fields s"
proof -
  have l: "body_fields (dropWhile py_isspace s) = body_fields s" for s
    by (induction s) (simp_all add: body_fields_Cons del: split_by.simps)
  have "body_fields (rev (dropWhile py_isspace s)) = body_fields (rev s)" for s
    by (induction s) (simp_all add: body_fields_snoc)
  from this [of "rev (dropWhile py_isspace s)"] show ?thesis using l by (simp add: py_strip_def)
qed

text \<open>One line.\<close>

lemma cut_before_append:
  "hd sub \<notin> set x \<Longrightarrow> sub \<noteq> [] \<Longrightarrow> cut_before sub (x @ y) = x @ cut_before sub y"
proof (induction x)
  case (Cons c x)
  then have "\<not> py_startswith sub (c # x @ y)" by (cases sub) (auto simp: py_startswith_def)
  then show ?case using Cons by simp
qed simp

lemma py_contains_append: "py_contains sub y \<Longrightarrow> py_contains sub (x @ y)"
  by (induction x) simp_all

lemma py_split_join:
  "list_all word_ok ws \<Longrightarrow> py_split (py_join ws) = ws"
proof (induction ws rule: py_join.induct)
  case (2 w)
  then show ?case by (simp add: py_split_def split_by_none word_ok_def no_space_def)
next
  case (3 w v vs)
  then have "list_all (\<lambda>c. \<not> py_isspace c) w" "w \<noteq> []" by (simp_all add: word_ok_def no_space_def)
  then show ?case using 3 by (simp add: py_split_def split_by_append)
qed (simp add: py_split_def)

lemma word_ok_edges: "word_ok w \<Longrightarrow> \<not> py_isspace (hd w) \<and> \<not> py_isspace (last w)"
  by (simp add: word_ok_def no_space_def list_all_iff)

lemma py_join_edges:
  "ws \<noteq> [] \<Longrightarrow> list_all word_ok ws \<Longrightarrow> py_join ws \<noteq> [] \<and>
     \<not> py_isspace (hd (py_join ws)) \<and> \<not> py_isspace (last (py_join ws)) \<and>
     CHR '';'' \<notin> set (py_join ws) \<and> CHR ''/'' \<notin> set (py_join ws)"
proof (induction ws rule: py_join.induct)
  case (2 w)
  then show ?case using word_ok_edges [of w] by (simp add: word_ok_def)
next
  case (3 w v vs)
  then show ?case using word_ok_edges [of w] by (auto simp: word_ok_def)
qed simp

lemma py_strip_id:
  assumes "s \<noteq> []" "\<not> py_isspace (hd s)" "\<not> py_isspace (last s)"
  shows "py_strip s = s"
proof -
  have d: "dropWhile py_isspace xs = xs" if "xs \<noteq> []" "\<not> py_isspace (hd xs)" for xs
    using that by (cases xs) simp_all
  show ?thesis using assms d [of s] d [of "rev s"] by (simp add: py_strip_def hd_rev)
qed

lemma parse_field_line_text:
  assumes "line_ok l"
  shows "parse_field_line (line_text l) = line_field l"
proof (cases l)
  case (Field_line ind ty name tr)
  define core where "core = py_join (ty @ [name])"
  have ok: "list_all word_ok (ty @ [name])" using assms Field_line by simp
  from py_join_edges [OF _ ok] have core: "core \<noteq> []" "\<not> py_isspace (hd core)" "\<not> py_isspace (last core)"
    "CHR '';'' \<notin> set core" "CHR ''/'' \<notin> set core" by (simp_all add: core_def)
  obtain c s where cs: "core = c # s" using core(1) by (cases core) auto
  obtain tr' where "py_strip (c # s @ CHR '';'' # tr) = c # s @ CHR '';'' # tr'"
    using py_strip_keeps [of c "CHR '';''" s tr] core(2) cs by auto
  then have l: "py_strip (line_text l) = core @ '';'' @ tr'"
    using assms Field_line by (simp add: py_strip_ind cs flip: core_def)
  have c1: "cut_before ''//'' (core @ '';'' @ tr') = (core @ '';'') @ cut_before ''//'' tr'"
    using cut_before_append [of "''//''" "core @ '';''" tr'] core(5) by simp
  have c2: "cut_before ''/*'' ((core @ '';'') @ t) = (core @ '';'') @ cut_before ''/*'' t" for t
    using cut_before_append [of "''/*''" "core @ '';''" t] core(5) by simp
  have c3: "cut_before '';'' ((core @ '';'') @ t) = core" for t
    using cut_before_append [of "'';''" core "CHR '';'' # t"] core(4) by (simp add: py_startswith_def)
  have c4: "py_contains '';'' ((core @ '';'') @ t)" for t
    using py_contains_append [of "'';''" "CHR '';'' # t" core] by (simp add: py_startswith_def)
  have n: "\<not> py_startswith ''//'' (core @ '';'' @ tr')" "\<not> py_startswith ''/*'' (core @ '';'' @ tr')"
    using core(5) cs by (auto simp: py_startswith_def)
  have p: "py_split (py_strip core) = ty @ [name]"
    using core py_split_join [OF ok] by (simp add: py_strip_id core_def)
  show ?thesis
    unfolding parse_field_line_def Let_def l c1 c2 c3 p using n c4 core(1) Field_line assms by (cases ty) simp_all
next
  case (Comment_line ind cm)
  then obtain t where t: "cm = ''//'' @ t \<or> cm = ''/*'' @ t" using assms by (auto simp: py_startswith_append)
  have "\<not> py_isspace (CHR ''*'')" by (simp add: py_isspace_def)
  then obtain t' where "py_strip cm = ''//'' @ t' \<or> py_strip cm = ''/*'' @ t'"
    using t py_strip_keeps [of "CHR ''/''" "CHR ''/''" "[]" t] py_strip_keeps [of "CHR ''/''" "CHR ''*''" "[]" t] by auto
  then show ?thesis using assms Comment_line
    by (auto simp: parse_field_line_def py_strip_ind py_startswith_append Let_def)
next
  case (Blank_line ind)
  then have "py_strip ind = []" using assms py_strip_ind [of ind "[]"] by (simp add: py_strip_def)
  then show ?thesis using Blank_line by (simp add: parse_field_line_def)
qed

lemma parse_struct_fields_body:
  assumes "list_all line_ok ls" "list_all (\<lambda>l. CHR 0x0A \<notin> set (line_text l)) ls"
  shows "parse_struct_fields (body_text ls) = List.map_filter line_field ls"
proof -
  have "body_fields (body_text ls) = List.map_filter line_field ls" using assms
  proof (induction ls)
    case (Cons l ls)
    have "split_by (\<lambda>c. c = CHR 0x0A) (line_text l @ CHR 0x0A # body_text ls) =
        line_text l # split_by (\<lambda>c. c = CHR 0x0A) (body_text ls)"
      using Cons.prems by (intro split_by_append) (auto simp: list_all_iff)
    then show ?case using Cons parse_field_line_text [of l]
      by (auto simp: body_text_def List.map_filter_simps split: option.splits)
  qed (simp add: body_text_def parse_field_line_strip List.map_filter_simps)
  then show ?thesis unfolding parse_struct_fields_def body_fields_strip .
qed

subsection \<open>Hexadecimal text\<close>

definition hex_dump :: "string \<Rightarrow> string \<Rightarrow> byte list \<Rightarrow> string" where
  "hex_dump pre sep bs = concat (map (\<lambda>b. pre @ fmt_02x b @ sep) bs)"

lemma hex_digit_props:
  assumes "d < 16"
  shows "hex_val (hex_digit d) = Some d \<and> \<not> c_isspace (hex_digit d) \<and> hex_digit d \<noteq> CHR '' '' \<and>
    hex_digit d \<noteq> CHR 0x0A \<and> hex_digit d \<noteq> CHR ''x''"
proof -
  have n: "(of_char (hex_digit d) :: nat) = (if d < 10 then 48 + d else 87 + d)" using assms by (simp add: hex_digit_def)
  have "hex_val (hex_digit d) = Some d" "\<not> c_isspace (hex_digit d)"
    using assms by (simp_all add: hex_val_def c_isspace_def n)
  moreover have "hex_digit d \<noteq> c" if "(of_char c :: nat) < 48 \<or> (of_char c :: nat) > 102" for c
    using that n assms by (auto split: if_splits)
  ultimately show ?thesis by simp
qed

lemma unat_byte_digits: "unat (b :: byte) div 16 < 16" "unat b mod 16 < 16"
    "of_nat (16 * (unat b div 16) + unat b mod 16) = b"
proof -
  have "unat b < 2 ^ LENGTH(8)" by (rule unsigned_less)
  then show "unat b div 16 < 16" by (simp add: div_less_iff_less_mult)
  have e: "16 * (unat b div 16) + unat b mod 16 = unat b" by simp
  show "of_nat (16 * (unat b div 16) + unat b mod 16) = b" unfolding e by simp
qed simp

lemma fmt_02x_cases:
  obtains c d where "fmt_02x b = [c, d]" "hex_val c = Some (unat b div 16)" "hex_val d = Some (unat b mod 16)"
    "\<not> c_isspace c" "c \<noteq> CHR '' ''" "d \<noteq> CHR '' ''" "c \<noteq> CHR 0x0A" "d \<noteq> CHR 0x0A" "c \<noteq> CHR ''x''" "d \<noteq> CHR ''x''"
  using that [of "hex_digit (unat b div 16)" "hex_digit (unat b mod 16)"] hex_digit_props unat_byte_digits(1,2) [of b]
  by (simp add: fmt_02x_def)

lemma remove_0x_Cons: "s = [] \<or> hd s \<noteq> CHR ''x'' \<Longrightarrow> remove_0x (c # s) = c # remove_0x s"
  by (cases s) auto

lemma fromhex_dump: "fromhex (hex_dump [] [] bs) = Some bs"
proof (induction bs)
  case (Cons b bs)
  obtain c d where f: "fmt_02x b = [c, d]" "hex_val c = Some (unat b div 16)" "hex_val d = Some (unat b mod 16)"
    "\<not> c_isspace c" by (rule fmt_02x_cases)
  have "fromhex (c # d # hex_dump [] [] bs) = Some (of_nat (16 * (unat b div 16) + unat b mod 16) # bs)"
    using f Cons.IH by (simp del: of_nat_add of_nat_mult of_nat_numeral)
  then show ?case using f(1) by (simp only: unat_byte_digits hex_dump_def) (simp add: hex_dump_def)
qed (simp add: hex_dump_def)

lemma filter_dump:
  "p = (\<lambda>c. c \<noteq> CHR '' '') \<or> p = (\<lambda>c. c \<noteq> CHR 0x0A) \<Longrightarrow>
   filter p (hex_dump pre sep bs) = hex_dump (filter p pre) (filter p sep) bs"
proof (induction bs)
  case (Cons b bs)
  obtain c d where "fmt_02x b = [c, d]" "c \<noteq> CHR '' ''" "d \<noteq> CHR '' ''" "c \<noteq> CHR 0x0A" "d \<noteq> CHR 0x0A"
    by (rule fmt_02x_cases)
  then show ?case using Cons by (auto simp: hex_dump_def)
qed (simp add: hex_dump_def)

lemma remove_0x_sep: "CHR ''x'' \<notin> set sep \<Longrightarrow> s = [] \<or> hd s \<noteq> CHR ''x'' \<Longrightarrow> remove_0x (sep @ s) = sep @ remove_0x s"
proof (induction sep)
  case (Cons c sep)
  then have "sep @ s = [] \<or> hd (sep @ s) \<noteq> CHR ''x''" by (cases sep) auto
  then show ?case using Cons by (simp add: remove_0x_Cons)
qed simp

lemma remove_0x_dump:
  assumes "CHR ''x'' \<notin> set sep" "pre = [] \<or> pre = ''0x''"
  shows "remove_0x (hex_dump pre sep bs) = hex_dump [] sep bs \<and>
    (hex_dump pre sep bs = [] \<or> hd (hex_dump pre sep bs) \<noteq> CHR ''x'')"
proof (induction bs)
  case (Cons b bs)
  obtain c d where f: "fmt_02x b = [c, d]" "c \<noteq> CHR ''x''" "d \<noteq> CHR ''x''" by (rule fmt_02x_cases)
  have "remove_0x ((c # d # sep) @ hex_dump pre sep bs) = (c # d # sep) @ remove_0x (hex_dump pre sep bs)"
    using f assms(1) Cons.IH by (intro remove_0x_sep) auto
  then show ?case using f Cons.IH assms(2) by (auto simp: hex_dump_def)
qed (simp add: hex_dump_def)

lemma clean_hex_dump:
  assumes "set sep \<subseteq> {CHR '' '', CHR 0x0A}" "pre = [] \<or> pre = ''0x''"
  shows "clean_hex (hex_dump pre sep bs) = hex_dump [] [] bs"
proof -
  have s: "filter (\<lambda>c. c \<noteq> CHR 0x0A) (filter (\<lambda>c. c \<noteq> CHR '' '') sep) = []"
    using assms(1) by (auto simp: filter_empty_conv)
  have "filter (\<lambda>c. c \<noteq> CHR '' '') pre = pre" using assms(2) by auto
  moreover have "CHR ''x'' \<notin> set (filter (\<lambda>c. c \<noteq> CHR '' '') sep)" using assms(1) by auto
  moreover from this have "remove_0x (hex_dump pre (filter (\<lambda>c. c \<noteq> CHR '' '') sep) bs) =
      hex_dump [] (filter (\<lambda>c. c \<noteq> CHR '' '') sep) bs" using remove_0x_dump [OF _ assms(2)] by blast
  ultimately show ?thesis using s filter_dump [of "\<lambda>c. c \<noteq> CHR '' ''"] filter_dump [of "\<lambda>c. c \<noteq> CHR 0x0A"]
    by (simp add: clean_hex_def del: filter_filter)
qed

lemma fromhex_odd: "list_all (\<lambda>c. \<not> c_isspace c) s \<Longrightarrow> odd (length s) \<Longrightarrow> fromhex s = None"
  by (induction s rule: fromhex.induct) (auto split: option.splits)

lemma length_hex_dump: "length (hex_dump [] [] bs) = 2 * length bs"
  by (induction bs) (simp_all add: hex_dump_def)

lemma hex_dump_digits: "list_all (\<lambda>c. \<not> c_isspace c) (hex_dump [] [] bs)"
proof (induction bs)
  case (Cons b bs)
  have "\<not> c_isspace (hex_digit (unat b div 16))" "\<not> c_isspace (hex_digit (unat b mod 16))"
    using hex_digit_props unat_byte_digits(1,2) [of b] by blast+
  then show ?case using Cons by (simp add: hex_dump_def fmt_02x_def)
qed (simp add: hex_dump_def)

lemma remove_0x_snoc: "c \<noteq> CHR ''x'' \<Longrightarrow> remove_0x (s @ [c]) = remove_0x s @ [c]"
  by (induction s rule: remove_0x.induct) auto

lemma clean_hex_dump_snoc:
  assumes "set sep \<subseteq> {CHR '' '', CHR 0x0A}" "pre = [] \<or> pre = ''0x''" "d < 16"
  shows "clean_hex (hex_dump pre sep bs @ [hex_digit d]) = hex_dump [] [] bs @ [hex_digit d]"
  using clean_hex_dump [OF assms(1,2), of bs] hex_digit_props [OF assms(3)]
  by (simp add: clean_hex_def remove_0x_snoc)

subsection \<open>Bounds\<close>

lemma parse_section_offset:
  "offset \<le> length blob \<Longrightarrow> snd (parse_section fr structs blob sec (lines, offset)) \<le> length blob"
  by (auto simp: parse_section_def Let_def split: prod.splits option.splits)

lemma fold_sections_offset:
  "offset \<le> length blob \<Longrightarrow> snd (fold (parse_section fr structs blob) secs (lines, offset)) \<le> length blob"
proof (induction secs arbitrary: lines offset)
  case (Cons sec secs)
  then show ?case using parse_section_offset [OF Cons.prems, of fr structs sec lines]
    by (cases "parse_section fr structs blob sec (lines, offset)") simp
qed simp

subsection \<open>Properties\<close>

text \<open>A struct definition of a header: the text before it, its name, its lines.\<close>

type_synonym decl = "string \<times> string \<times> header_line list"

fun decl_block :: "decl \<Rightarrow> block" where
  "decl_block (pre, name, ls) = (pre, name, CHR 0x0A # body_text ls)"

fun decl_ok :: "decl \<Rightarrow> bool" where
  "decl_ok (pre, name, ls) \<longleftrightarrow> block_ok (decl_block (pre, name, ls)) \<and> list_all line_ok ls \<and>
     list_all (\<lambda>l. CHR 0x0A \<notin> set (line_text l)) ls"

lemma decl_fields:
  "decl_ok (pre, name, ls) \<Longrightarrow>
   parse_struct_fields (CHR 0x0A # body_text ls) = List.map_filter line_field ls"
  using parse_struct_fields_body [of ls]
  by (simp add: parse_struct_fields_def body_fields_strip body_fields_Cons del: split_by.simps)

lemma parse_header_decls:
  assumes "list_all decl_ok decls" and "CHR ''{'' \<notin> set post"
  shows "parse_header (header_text (map decl_block decls) post) n =
    (if n \<in> set struct_patterns
     then map_option (List.map_filter line_field) (map_of (map snd decls) n) else None)"
proof (cases "n \<in> set struct_patterns")
  case True
  have b: "list_all block_ok (map decl_block decls)" using assms(1) by (auto simp: list_all_iff)
  have "map_option parse_struct_fields (map_of (map snd (map decl_block decls)) n) =
      map_option (List.map_filter line_field) (map_of (map snd decls) n)" using assms(1)
  proof (induction decls)
    case (Cons d ds)
    obtain pre m ls where d: "d = (pre, m, ls)" by (metis prod.collapse)
    then show ?case using Cons decl_fields [of pre m ls] by (auto simp del: decl_ok.simps)
  qed simp
  then show ?thesis
    using True re_search_header [OF struct_patterns_ok [OF True] b assms(2)] by (simp add: parse_header_lookup)
qed (simp add: parse_header_lookup)

text \<open>
  C31: the header is read back field by field. For any C header made of struct definitions with
  arbitrary brace-free text between them (comments, attributes, forward declarations, uses of the
  same struct names), whose bodies are lines with a field, a comment or nothing, the dictionary of
  the parser holds for each struct it looks for exactly the types and names of the fields of its
  first definition, in order, and nothing for the others.
\<close>

theorem stats_parser_reads_header:
  assumes "list_all decl_ok decls" and "CHR ''{'' \<notin> set post"
  shows "parse_header (header_text (map decl_block decls) post) n =
    (if n \<in> set struct_patterns
     then map_option (List.map_filter line_field) (map_of (map snd decls) n) else None)"
  by (rule parse_header_decls [OF assms])

text \<open>A header in the style of the driver's, with the hazards the reader has to get over.\<close>

definition sample_decls :: "decl list" where
  "sample_decls =
     [(''/* struct rpu_phy_stats; */'', ''rpu_phy_stats'',
       [Field_line [CHR 0x09] [''signed'', ''char''] ''rssi_avg'' '' /* dBm; average */'',
        Comment_line '' '' ''// unsigned int unused;'', Blank_line [],
        Field_line [CHR 0x09] [''unsigned'', ''char''] ''pdout_val'' []]),
      ('' __NRF_WIFI_PKD;'', ''rpu_lmac_stats'',
       [Field_line '' '' [''unsigned'', ''int''] ''reset_cmd_cnt'' [],
        Field_line '' '' [''unsigned'', ''int''] ''tx_frm_cnt'' []]),
      ('';'', ''umac_tx_dbg_params'', [Field_line '' '' [''unsigned'', ''int''] ''tx_cmd'' []]),
      ('';'', ''rpu_sys_fw_stats'', [Field_line '' '' [''struct'', ''rpu_phy_stats''] ''phy'' []])]"

lemma sample_decls_ok: "list_all decl_ok sample_decls"
  by code_simp

theorem stats_parser_reads_header_witness:
  "parse_header (header_text (map decl_block sample_decls) '';'') ''rpu_phy_stats'' =
     Some [(''signed char'', ''rssi_avg''), (''unsigned char'', ''pdout_val'')]"
  using stats_parser_reads_header [OF sample_decls_ok, of "'';''" "''rpu_phy_stats''"]
  by (simp add: sample_decls_def struct_patterns_def List.map_filter_simps)

text \<open>
  C30: decoding inverts packing. Take any values for the fields of the six structs, each in the range
  of its format, stored little-endian one after the other without padding and followed by anything:
  the parser prints each field of each section with its value, sections in order, and has then
  consumed exactly the packed bytes.
\<close>

theorem stats_parser_decodes:
  assumes "sections_ok structs vals stats_sections"
  shows "parse_rpu_sys_fw_stats fr structs (sections_image structs vals stats_sections @ post) =
    (sections_text fr structs vals stats_sections, length (sections_image structs vals stats_sections))"
  using fold_sections_packed [OF assms, of fr "[]" post "[]"] by (simp add: parse_rpu_sys_fw_stats_def)

definition sample_structs :: "string \<Rightarrow> field list option" where
  "sample_structs = map_of
     [(''rpu_phy_stats'', [(''signed char'', ''rssi_avg''), (''unsigned char'', ''pdout_val'')]),
      (''rpu_lmac_stats'', [(''unsigned int'', ''reset_cmd_cnt''), (''unsigned int'', ''tx_frm_cnt'')]),
      (''umac_tx_dbg_params'', [(''unsigned int'', ''tx_cmd'')]), (''umac_rx_dbg_params'', []),
      (''umac_cmd_evnt_dbg_params'', []), (''nrf_wifi_interface_stats'', [])]"

definition sample_vals :: "string \<Rightarrow> py_val list" where
  "sample_vals n = (if n = ''rpu_phy_stats'' then [Py_int (- 42), Py_int 200]
     else if n = ''rpu_lmac_stats'' then [Py_int 1, Py_int 70000]
     else if n = ''umac_tx_dbg_params'' then [Py_int 9] else [])"

lemma sample_sections_ok: "sections_ok sample_structs sample_vals stats_sections"
  by code_simp

lemmas dec_eval = py_str_def dec_string.simps digit_char_def char_of_def bit_iff_odd

lemma sample_text:
  "take 9 (sections_text fr sample_structs sample_vals stats_sections) =
     [''PHY stats'', ''======================'', ''rssi_avg: -42'', ''pdout_val: 200'', [],
      ''LMAC stats'', ''======================'', ''reset_cmd_cnt: 1'', ''tx_frm_cnt: 70000'']"
  by (simp add: sections_text_def stats_sections_def sample_structs_def sample_vals_def section_lines_def dec_eval)

theorem stats_parser_decodes_witness:
  "take 9 (fst (parse_rpu_sys_fw_stats (\<lambda>_. []) sample_structs
     (sections_image sample_structs sample_vals stats_sections @ [7]))) =
     [''PHY stats'', ''======================'', ''rssi_avg: -42'', ''pdout_val: 200'', [],
      ''LMAC stats'', ''======================'', ''reset_cmd_cnt: 1'', ''tx_frm_cnt: 70000'']"
  using stats_parser_decodes [OF sample_sections_ok, of "\<lambda>_. []" "[7]"] sample_text by simp

text \<open>
  C32: the command line. A blob given as hexadecimal text (two lower-case digits per byte, an optional
  \<^verbatim>\<open>0x\<close> before and any spaces and line breaks after each byte) is decoded like the file with those bytes,
  an odd number of digits is refused, and a missing header or an unreadable file ends the script before
  anything is decoded.
\<close>

theorem stats_parser_command_line:
  assumes "set sep \<subseteq> {CHR '' '', CHR 0x0A}" and "pre = [] \<or> pre = ''0x''" and "d < 16"
  shows "parser_main fr header (Blob_text (hex_dump pre sep bs)) = parser_main fr header (Blob_file (Some bs)) \<and>
    parser_main fr (Some content) (Blob_text (hex_dump pre sep bs @ [hex_digit d])) = Exit_invalid_hex \<and>
    parser_main fr None arg = Exit_header_not_found \<and>
    parser_main fr (Some content) (Blob_file None) = Exit_read_error"
proof -
  have "clean_hex (hex_dump pre sep bs @ [hex_digit d]) = hex_dump [] [] bs @ [hex_digit d]"
    using clean_hex_dump_snoc [OF assms] .
  moreover have "fromhex (hex_dump [] [] bs @ [hex_digit d]) = None"
    using fromhex_odd hex_dump_digits [of bs] hex_digit_props [OF assms(3)] by (simp add: length_hex_dump)
  ultimately show ?thesis
    using clean_hex_dump [OF assms(1,2)] fromhex_dump
    by (auto simp: parser_main_def Let_def split: option.splits)
qed

theorem stats_parser_command_line_witness:
  "parser_main (\<lambda>_. []) None (Blob_text (hex_dump ''0x'' '' '' [255, 16])) =
     parser_main (\<lambda>_. []) None (Blob_file (Some [255, 16])) \<and>
   parser_main (\<lambda>_. []) (Some []) (Blob_text (hex_dump ''0x'' '' '' [255, 16] @ [hex_digit 10])) = Exit_invalid_hex"
  using stats_parser_command_line [of "'' ''" "''0x''" 10] by simp

text \<open>
  The decoder stays inside the blob, whatever header and blob it is given, and the check mark of its
  byte count analysis says exactly that 614 bytes were decoded, the packed size of the first five
  structs, however many bytes remain.
\<close>

theorem stats_parser_bounds:
  assumes "parse_rpu_sys_fw_stats fr structs blob = (lines, offset)"
  shows "offset \<le> length blob \<and>
    (byte_count_analysis structs blob offset = Some (remaining, expected, matches) \<longrightarrow>
       offset + remaining = length blob \<and> expected = 614 + remaining \<and> matches = (offset = 614))"
  using assms fold_sections_offset [of 0 blob fr structs stats_sections "[]"]
  by (auto simp: parse_rpu_sys_fw_stats_def byte_count_analysis_def Let_def split: if_splits)

theorem stats_parser_bounds_witness:
  "snd (parse_rpu_sys_fw_stats (\<lambda>_. []) sample_structs [1, 2, 3]) \<le> 3"
proof -
  obtain ls off where r: "parse_rpu_sys_fw_stats (\<lambda>_. []) sample_structs [1, 2, 3] = (ls, off)"
    by (metis prod.collapse)
  show ?thesis using stats_parser_bounds [OF r] r by (simp add: numeral_3_eq_3)
qed

lemma sample_formats:
  "section_format True [(''signed char'', ''rssi_avg''), (''unsigned char'', ''pdout_val'')] = ''bB''"
  "section_format True [(''unsigned int'', ''reset_cmd_cnt''), (''unsigned int'', ''tx_frm_cnt'')] = ''II''"
  "section_format False [(''unsigned int'', ''tx_cmd'')] = ''I''"
  by code_simp+

lemma section_format_Nil [simp]: "section_format b [] = []"
  by (simp add: section_format_def)

lemma sample_image_length: "length (sections_image sample_structs sample_vals stats_sections) = 14"
  by (simp add: sections_image_def stats_sections_def sample_structs_def sample_vals_def pack_def sample_formats pack_one_def
      fmt_size_def)

text \<open>
  A blob that ends inside a section does not end the output: the section is skipped without moving on,
  and a later section that is short enough is decoded from the skipped section's bytes. Of the sample
  the parser gets the PHY section and the first word of the LMAC section, and prints that word as the
  first UMAC TX counter.
\<close>

theorem stats_parser_truncated_blob:
  "parse_rpu_sys_fw_stats fr sample_structs
     (take 6 (sections_image sample_structs sample_vals stats_sections)) =
   ([''PHY stats'', ''======================'', ''rssi_avg: -42'', ''pdout_val: 200'', [],
     ''UMAC TX debug stats'', ''======================'', ''tx_cmd: 1'', [],
     ''UMAC RX debug stats'', ''======================'', [],
     ''UMAC control path stats'', ''======================'', [],
     ''UMAC interface stats'', ''======================'', []], 6) \<and>
   sample_vals ''umac_tx_dbg_params'' = [Py_int 9]"
proof -
  have u: "unpack ''bB'' [214, 200] = [Py_int (- 42), Py_int 200]" "unpack ''I'' [1, 0, 0, 0] = [Py_int 1]"
    by code_simp+
  have e4: "(4 :: nat) = Suc (Suc (Suc (Suc 0)))" by simp
  have le: "le_bytes (Suc 0) n = [of_nat n]" "le_bytes 4 n = [of_nat n, of_nat (n div 256), of_nat (n div 256 div 256),
      of_nat (n div 256 div 256 div 256)]" for n by (simp_all only: e4 le_bytes.simps)
  have i: "take 6 (sections_image sample_structs sample_vals stats_sections) = [214, 200, 1, 0, 0, 0]"
    by (simp add: sections_image_def stats_sections_def sample_structs_def sample_vals_def pack_def sample_formats pack_one_def
        fmt_size_def le)
  show ?thesis unfolding i
    by (simp add: parse_rpu_sys_fw_stats_def stats_sections_def parse_section_def sample_structs_def sample_formats Let_def
        calcsize_def fmt_size_def section_lines_def sample_vals_def u dec_eval del: unpack.simps(2))
qed

end
