(* ===== verification/Thread_Pacing.thy ===== *)
theory Thread_Pacing
  imports Firmware
begin

text \<open>
  How often the threads act. \<open>pace\<close> reads a trace of calls and refuses it when two actions follow each other
  without a pause between them; \<open>paced_machine\<close> is the contract of a machine whose traces it accepts, whatever
  happens between the transitions of the thread. Instances are the HTTPS thread (a request, then a
  sleep of the request interval), the MQTT thread (a publish, then a sleep of the publish interval) and the upload
  thread (two seconds before every upload). The views of \<^theory_text>\<open>Firmware\<close> carry this to the application:
  no sequence of events, button presses or link losses makes a device exceed its rates.
\<close>

subsection \<open>Paced traces\<close>

text \<open>Whether a pause was made since the last action; \<open>None\<close> when an action came without one.\<close>

fun pace :: "('c \<Rightarrow> bool) \<Rightarrow> ('c \<Rightarrow> bool) \<Rightarrow> bool \<Rightarrow> 'c list \<Rightarrow> bool option" where
  "pace act pause r [] = Some r"
| "pace act pause r (c # cs) =
     (if act c then (if r then pace act pause False cs else None)
      else if pause c then pace act pause True cs else pace act pause r cs)"

lemma pace_append [simp]: "pace act pause r (xs @ ys) = Option.bind (pace act pause r xs) (\<lambda>b. pace act pause b ys)"
  by (induction xs arbitrary: r) simp_all

lemma pace_mono: "pace act pause r cs = Some b \<Longrightarrow> (r \<longrightarrow> r') \<Longrightarrow> \<exists>b'. pace act pause r' cs = Some b' \<and> (b \<longrightarrow> b')"
proof (induction cs arbitrary: r r')
  case (Cons c cs)
  then show ?case by (cases "act c"; cases "pause c"; cases r) (auto split: if_splits)
qed simp

lemma pace_needs_pause: "pace act pause False (ys @ c # zs) \<noteq> None \<Longrightarrow> act c \<Longrightarrow> \<exists>p \<in> set ys. pause p"
proof (induction ys)
  case (Cons y ys)
  then show ?case by (cases "act y"; cases "pause y") auto
qed simp

lemma pace_spaced:
  assumes "pace act pause r (xs @ a # ys @ c # zs) \<noteq> None" "act a" "act c"
  shows "\<exists>p \<in> set ys. pause p"
proof -
  obtain b where "pace act pause r xs = Some b" "pace act pause b (a # ys @ c # zs) \<noteq> None"
    using assms(1) by (cases "pace act pause r xs") auto
  then have "pace act pause False (ys @ c # zs) \<noteq> None" using assms(2) by (auto split: if_splits)
  then show ?thesis using assms(3) by (rule pace_needs_pause)
qed

lemma pace_counts:
  assumes "\<And>c. act c \<Longrightarrow> \<not> pause c"
  shows "pace act pause r cs = Some b \<Longrightarrow> length (filter act cs) + of_bool b \<le> length (filter pause cs) + of_bool r"
proof (induction cs arbitrary: r)
  case (Cons c cs)
  show ?case
  proof (cases "act c")
    case True
    then show ?thesis using Cons.IH [of False] Cons.prems assms [OF True] by (auto split: if_splits)
  next
    case False
    then show ?thesis using Cons.IH [of "pause c \<or> r"] Cons.prems by (cases "pause c"; cases r) auto
  qed
qed simp

locale paced_machine =
  fixes step :: "('i, 's, 'c) machine"
    and act :: "'c \<Rightarrow> bool"
    and pause :: "'c \<Rightarrow> bool"
    and rested :: "'s \<Rightarrow> bool"
  assumes apart: "act c \<Longrightarrow> \<not> pause c"
    and paced_step: "\<exists>b. pace act pause (rested s) (snd (step i s)) = Some b \<and> (rested (fst (step i s)) \<longrightarrow> b)"
begin

lemma run_paced:
  "\<exists>b. pace act pause (rested s) (snd (run_machine step is s)) = Some b \<and> (rested (fst (run_machine step is s)) \<longrightarrow> b)"
proof (induction "is" arbitrary: s)
  case (Cons i js)
  obtain b where b: "pace act pause (rested s) (snd (step i s)) = Some b" "rested (fst (step i s)) \<longrightarrow> b"
    using paced_step by blast
  obtain d where d: "pace act pause (rested (fst (step i s))) (snd (run_machine step js (fst (step i s)))) = Some d"
    "rested (fst (run_machine step js (fst (step i s)))) \<longrightarrow> d" using Cons.IH by blast
  obtain d' where "pace act pause b (snd (run_machine step js (fst (step i s)))) = Some d'" "d \<longrightarrow> d'"
    using pace_mono [OF d(1) b(2)] by blast
  then show ?case using b d(2) by simp
qed simp

lemma run_spaced:
  "snd (run_machine step is s) = xs @ a # ys @ c # zs \<Longrightarrow> act a \<Longrightarrow> act c \<Longrightarrow> \<exists>p \<in> set ys. pause p"
  using run_paced [of s "is"] pace_spaced by (metis option.distinct(1))

lemma run_rate: "length (filter act (snd (run_machine step is s))) \<le> Suc (length (filter pause (snd (run_machine step is s))))"
proof -
  obtain b where "pace act pause (rested s) (snd (run_machine step is s)) = Some b" using run_paced by blast
  from pace_counts [OF apart this] show ?thesis by (cases "rested s") simp_all
qed

end

subsection \<open>The threads\<close>

fun is_https_request :: "https_call \<Rightarrow> bool" where
  "is_https_request (Https_socket b) = True"
| "is_https_request _ = False"

fun is_mqtt_publish :: "mqtt_call \<Rightarrow> bool" where
  "is_mqtt_publish (Mqtt_helper_publish qos payload topic) = True"
| "is_mqtt_publish _ = False"

text \<open>Calls that are neither leave the reading alone.\<close>

lemma pace_other: "list_all (\<lambda>c. \<not> act c) cs \<Longrightarrow> pace act pause r cs = Some (r \<or> list_ex pause cs)"
  by (induction cs arbitrary: r) auto

lemma pace_once: "length (filter act cs) \<le> 1 \<Longrightarrow> \<exists>b. pace act pause True cs = Some b"
proof (induction cs)
  case (Cons c cs)
  show ?case
  proof (cases "act c")
    case True
    then have "list_all (\<lambda>c. \<not> act c) cs" using Cons.prems by (auto simp: list_all_iff filter_empty_conv)
    then show ?thesis using True pace_other [of act cs pause False] by simp
  qed (use Cons in simp)
qed auto

lemma https_request_once:
  assumes "send_http_request cfg env s = Some (s', cs)"
  shows "length (filter is_https_request cs) \<le> 1"
proof (cases "ht_network_ready s")
  case True
  have lk: "filter is_https_request c2 = []" if "https_lookup cfg env = (e, res, c2)" for e res c2
    using that by (auto simp: https_lookup_def split_beta Let_def split: if_splits)
  have cl: "filter is_https_request cu = []" if "https_clean_up f l fd res t = (t', cu)" for f l fd res t t' cu
    using that by (auto simp: https_clean_up_def Let_def free_calls_def split: option.splits if_splits)
  have tr: "length (filter is_https_request c3) = 1" if "https_transfer cfg env r buf = Some (failed, line, fd, buf', c3)" for r buf failed line fd buf' c3
  proof -
    have io: "filter is_https_request io = []" if "list_all (transfer_call fd) io" for io
      using that by (auto simp: list_all_iff filter_empty_conv transfer_call_def)
    have "filter is_https_request (snd (tls_setup cfg env fd)) = []" by (auto simp: tls_setup_def Let_def)
    then show ?thesis using https_transfer_calls [OF that] io by (auto split: if_splits)
  qed
  from True assms show ?thesis
  proof (cases rule: send_http_request_cases)
    case (lookup_failed err res c2 cu)
    then show ?thesis using lk [OF lookup_failed(1)] cl [OF lookup_failed(3)] by simp
  next
    case (transferred r c2 failed line fd' buf c3 cu)
    then show ?thesis using lk [OF transferred(1)] tr [OF transferred(2)] cl [OF transferred(3)] by simp
  qed
qed (use assms in \<open>simp add: send_http_request_def\<close>)

interpretation https_paced: paced_machine "https_handle cfg" is_https_request "\<lambda>c. c = Https_sleep_sec (hc_request_interval_sec cfg)" "\<lambda>_. True" for cfg
proof (unfold_locales, goal_cases)
  case (2 s i)
  show ?case
  proof (cases i)
    case (Https_thread env)
    show ?thesis
    proof (cases "hs_pc s = HC_request")
      case True
      show ?thesis
      proof (cases "send_http_request cfg env (hs_state s)")
        case (Some r)
        then obtain s' cs where r: "send_http_request cfg env (hs_state s) = Some (s', cs)" by (cases r) simp
        from pace_once [OF https_request_once [OF r]] obtain b where
          "pace is_https_request (\<lambda>c. c = Https_sleep_sec (hc_request_interval_sec cfg)) True cs = Some b" by blast
        then show ?thesis using r True Https_thread by (auto simp: https_handle_def)
      qed (use True Https_thread in \<open>auto simp: https_handle_def\<close>)
    next
      case False
      then have "list_all (\<lambda>c. \<not> is_https_request c) (snd (https_handle cfg i s))"
        using Https_thread by (cases "hs_pc s") (auto simp: https_handle_def https_record_failed_attempt_def cert_provision_def
            https_check_dns_ready_def free_calls_def split_beta Let_def split: option.splits)
      then show ?thesis by (auto simp: pace_other)
    qed
  qed (auto simp: https_handle_def app_https_wifi_listener_def app_https_client_notify_connected_def
      app_https_client_notify_disconnected_def split_beta Let_def)
qed auto

interpretation mqtt_paced: paced_machine "mqtt_handle cfg" is_mqtt_publish "\<lambda>c. c = Mqtt_sleep_sec (cfg_publish_interval_sec cfg)"
  "\<lambda>x. ms_pc x \<noteq> PC_helper_publish" for cfg
proof (unfold_locales, goal_cases)
  case (2 s i)
  show ?case
  proof (cases i)
    case (Mqtt_thread env)
    then show ?thesis
      by (cases "ms_pc s") (auto simp: mqtt_handle_def mqtt_phase_defs mqtt_callback_defs split_beta Let_def split: option.splits prod.splits)
  qed (auto simp: mqtt_handle_def mqtt_callback_defs split_beta Let_def)
qed auto

lemma pace_map: "pace act pause r (map f cs) = pace (\<lambda>c. act (f c)) (\<lambda>c. pause (f c)) r cs"
  by (induction cs arbitrary: r) simp_all

lemma on_connect_posts_once: "length (filter (\<lambda>c. c = Core_post_data) (snd (on_connect cfg fal fac env w))) \<le> 1"
  by (auto simp: on_connect_def split_beta Let_def filter_empty_conv)

lemma upload_thread_paced:
  assumes "core_handle cfg fal fac i x = (y, cs)"
  shows "\<exists>b. pace (\<lambda>c. c = Core_post_data) (\<lambda>c. c = Core_sleep_sec 2) (csy_pc x \<noteq> UP_take) cs = Some b \<and> (csy_pc y \<noteq> UP_take \<longrightarrow> b)"
proof (cases "\<exists>env. i = Core_in_thread env \<and> csy_pc x = UP_after_dns")
  case True
  then obtain env where i: "i = Core_in_thread env" and pc: "csy_pc x = UP_after_dns" by blast
  have "\<exists>b. pace (\<lambda>c. c = Core_post_data) (\<lambda>c. c = Core_sleep_sec 2) True cs = Some b"
  proof (rule pace_once)
    show "length (filter (\<lambda>c. c = Core_post_data) cs) \<le> 1"
      using assms on_connect_posts_once [of cfg fal fac env "csy_world x"] by (auto simp: core_handle_def i pc split_beta Let_def split: if_splits)
  qed
  moreover have "csy_pc y = UP_take" using assms by (auto simp: core_handle_def i pc split_beta Let_def split: if_splits)
  ultimately show ?thesis using pc by simp
next
  case False
  have n: "list_all (\<lambda>c. c \<noteq> Core_post_data) cs"
  proof (cases i)
    case (Core_in_thread env)
    then show ?thesis using assms False
      by (cases "csy_pc x") (auto simp: core_handle_def core_check_dns_ready_def split_beta Let_def split: if_splits)
  next
    case (Core_in_work env)
    then show ?thesis using assms by (auto simp: core_handle_def log_freeze_work_fn_def list_all_iff split_beta Let_def split: if_splits)
  next
    case (Core_in_button msg)
    then show ?thesis using assms by (auto simp: core_handle_def memfault_button_listener_def Let_def split: if_splits)
  next
    case (Core_in_wifi m)
    then show ?thesis using assms by (cases m) (auto simp: core_handle_def core_listener_defs split_beta Let_def split: if_splits)
  next
    case (Core_in_network msg)
    then show ?thesis using assms by (auto simp: core_handle_def core_listener_defs split_beta Let_def split: if_splits)
  qed
  have "csy_pc x = UP_take \<Longrightarrow> csy_pc y \<noteq> UP_take \<Longrightarrow> Core_sleep_sec 2 \<in> set cs"
    using assms by (cases i) (auto simp: core_handle_def split_beta Let_def split: if_splits)
  then show ?thesis using pace_other [OF n] by (auto simp: list_ex_iff)
qed

interpretation upload_paced: paced_machine "core_unit pf" "\<lambda>c. c = Fc_core Core_post_data" "\<lambda>c. c = Fc_core (Core_sleep_sec 2)"
  "\<lambda>x. csy_pc (fst x) \<noteq> UP_take" for pf
proof (unfold_locales, goal_cases)
  case (2 s i)
  show ?case
  proof (cases i)
    case (Unit_core ci)
    obtain y cs where "core_handle (fc_core (pf_cfg pf)) (pf_log_area pf) (pf_cdr_area pf) ci (fst s) = (y, cs)"
      by (metis prod.collapse)
    from upload_thread_paced [OF this] this show ?thesis
      using Unit_core by (auto simp: pace_map split_beta Let_def)
  next
    case (Unit_cdr ev)
    then show ?thesis by (auto simp: pace_map pace_other list_all_iff split_beta Let_def)
  next
    case (Unit_heartbeat env)
    then show ?thesis by (auto simp: memfault_metrics_heartbeat_collect_data_def)
  qed
qed auto

subsection \<open>The application\<close>

text \<open>What a thread slept, in seconds.\<close>

fun https_slept :: "fw_call \<Rightarrow> nat" where
  "https_slept (Fc_https (Https_sleep_sec n)) = unat n"
| "https_slept _ = 0"

fun mqtt_slept :: "fw_call \<Rightarrow> nat" where
  "mqtt_slept (Fc_mqtt (Mqtt_sleep_sec n)) = unat n"
| "mqtt_slept _ = 0"

text \<open>A paced machine inside a bigger one.\<close>

locale paced_view = machine_view big small get view pick + paced_machine small act pause rested
  for big :: "('I, 'S, 'C) machine" and small :: "('i, 's, 'c) machine" and get view pick act pause rested
begin

lemma view_trace:
  "List.map_filter pick (snd (run_machine big is x)) = snd (run_machine small (concat (map view is)) (get x))"
  using view_run by simp

lemma view_spaced:
  assumes "snd (run_machine big is x) = xs @ a # ys @ c # zs" "pick a = Some a'" "act a'" "pick c = Some c'" "act c'"
  shows "\<exists>p \<in> set ys. \<exists>p'. pick p = Some p' \<and> pause p'"
proof -
  have "snd (run_machine small (concat (map view is)) (get x)) =
      List.map_filter pick xs @ a' # List.map_filter pick ys @ c' # List.map_filter pick zs"
    using view_trace [of "is" x] assms(1,2,4) by (simp add: map_filter_append List.map_filter_simps)
  from run_spaced [OF this assms(3,5)] show ?thesis by (auto simp: set_map_filter)
qed

lemma view_rate:
  assumes "\<And>c p. pick c = Some p \<Longrightarrow> pause p \<Longrightarrow> n \<le> secs c"
  shows "length (filter (\<lambda>c. \<exists>a. pick c = Some a \<and> act a) (snd (run_machine big is x))) * n \<le>
    sum_list (map secs (snd (run_machine big is x))) + n"
proof -
  have f: "length (filter (\<lambda>c. \<exists>a. pick c = Some a \<and> act a) cs) = length (filter act (List.map_filter pick cs))" for cs
    by (induction cs) (auto simp: List.map_filter_simps split: option.splits)
  have p: "length (filter pause (List.map_filter pick cs)) * n \<le> sum_list (map secs cs)" for cs
  proof (induction cs)
    case (Cons c cs)
    then show ?case using assms [of c] by (cases "pick c") (auto simp: List.map_filter_simps)
  qed (simp add: List.map_filter_simps)
  have "length (filter act (List.map_filter pick (snd (run_machine big is x)))) \<le>
      Suc (length (filter pause (List.map_filter pick (snd (run_machine big is x)))))"
    unfolding view_trace by (rule run_rate)
  then have "length (filter act (List.map_filter pick (snd (run_machine big is x)))) * n \<le>
      length (filter pause (List.map_filter pick (snd (run_machine big is x)))) * n + n" by (metis add.commute mult_Suc mult_le_mono1)
  then show ?thesis using p [of "snd (run_machine big is x)"] f by simp
qed

end

interpretation https_paced_fw: paced_view "fw_step pf" "https_handle (fc_https (pf_cfg pf))" fw_https "https_view pf" pick_https
  is_https_request "\<lambda>c. c = Https_sleep_sec (hc_request_interval_sec (fc_https (pf_cfg pf)))" "\<lambda>_. True" for pf ..

interpretation mqtt_paced_fw: paced_view "fw_step pf" "mqtt_handle (fc_mqtt (pf_cfg pf))" fw_mqtt "mqtt_view pf" pick_mqtt
  is_mqtt_publish "\<lambda>c. c = Mqtt_sleep_sec (cfg_publish_interval_sec (fc_mqtt (pf_cfg pf)))" "\<lambda>x. ms_pc x \<noteq> PC_helper_publish" for pf ..

interpretation upload_paced_fw: paced_view "fw_step pf" "core_unit pf" fw_unit "unit_view pf" pick_core
  "\<lambda>c. c = Fc_core Core_post_data" "\<lambda>c. c = Fc_core (Core_sleep_sec 2)" "\<lambda>x. csy_pc (fst x) \<noteq> UP_take" for pf ..

lemma picked_calls [simp]:
  "pick_https c = Some h \<longleftrightarrow> c = Fc_https h" "pick_mqtt c = Some m \<longleftrightarrow> c = Fc_mqtt m" "pick_core c = Some (Fc_core d) \<longleftrightarrow> c = Fc_core d"
  by (cases c; simp)+

lemma request_calls [simp]: "is_https_request c \<longleftrightarrow> (\<exists>b. c = Https_socket b)" "is_mqtt_publish d \<longleftrightarrow> (\<exists>q p t. d = Mqtt_helper_publish q p t)"
  by (cases c; simp) (cases d; simp)

lemma requests:
  "(\<exists>a. pick_https c = Some a \<and> is_https_request a) \<longleftrightarrow> (\<exists>b. c = Fc_https (Https_socket b))"
  "(\<exists>a. pick_mqtt c = Some a \<and> is_mqtt_publish a) \<longleftrightarrow> (\<exists>q p t. c = Fc_mqtt (Mqtt_helper_publish q p t))"
  by auto

subsection \<open>Properties\<close>

text \<open>
  C29: the device keeps its rates. Over any run of the application, whatever the order of driver events, callbacks, button
  presses and thread transitions: between two HTTPS connections the thread slept the configured request interval,
  between two MQTT publishes the configured publish interval, and between two uploads at least the two seconds before the
  name server is asked. In numbers: the seconds a client thread slept are at least its interval times the number of its
  requests less one.
\<close>

theorem firmware_rate_limited:
  assumes "run_machine (fw_step pf) is x = (y, cs)"
  shows "(\<forall>xs a ys b zs. cs = xs @ Fc_https (Https_socket a) # ys @ Fc_https (Https_socket b) # zs \<longrightarrow>
      Fc_https (Https_sleep_sec (hc_request_interval_sec (fc_https (pf_cfg pf)))) \<in> set ys) \<and>
    (\<forall>xs q p t ys q' p' t' zs. cs = xs @ Fc_mqtt (Mqtt_helper_publish q p t) # ys @ Fc_mqtt (Mqtt_helper_publish q' p' t') # zs \<longrightarrow>
      Fc_mqtt (Mqtt_sleep_sec (cfg_publish_interval_sec (fc_mqtt (pf_cfg pf)))) \<in> set ys) \<and>
    (\<forall>xs ys zs. cs = xs @ Fc_core Core_post_data # ys @ Fc_core Core_post_data # zs \<longrightarrow> Fc_core (Core_sleep_sec 2) \<in> set ys) \<and>
    length (filter (\<lambda>c. \<exists>b. c = Fc_https (Https_socket b)) cs) * unat (hc_request_interval_sec (fc_https (pf_cfg pf))) \<le>
      sum_list (map https_slept cs) + unat (hc_request_interval_sec (fc_https (pf_cfg pf))) \<and>
    length (filter (\<lambda>c. \<exists>q p t. c = Fc_mqtt (Mqtt_helper_publish q p t)) cs) * unat (cfg_publish_interval_sec (fc_mqtt (pf_cfg pf))) \<le>
      sum_list (map mqtt_slept cs) + unat (cfg_publish_interval_sec (fc_mqtt (pf_cfg pf)))"
proof (intro conjI allI impI)
  have cs: "snd (run_machine (fw_step pf) is x) = cs" using assms by simp
  let ?ih = "hc_request_interval_sec (fc_https (pf_cfg pf))" and ?im = "cfg_publish_interval_sec (fc_mqtt (pf_cfg pf))"
  show "Fc_https (Https_sleep_sec ?ih) \<in> set ys" if "cs = xs @ Fc_https (Https_socket a) # ys @ Fc_https (Https_socket b) # zs" for xs a ys b zs
    using https_paced_fw.view_spaced [of pf "is" x, unfolded cs, OF that] by auto
  show "Fc_mqtt (Mqtt_sleep_sec ?im) \<in> set ys"
    if "cs = xs @ Fc_mqtt (Mqtt_helper_publish q p t) # ys @ Fc_mqtt (Mqtt_helper_publish q' p' t') # zs" for xs q p t ys q' p' t' zs
    using mqtt_paced_fw.view_spaced [of pf "is" x, unfolded cs, OF that] by auto
  show "Fc_core (Core_sleep_sec 2) \<in> set ys" if "cs = xs @ Fc_core Core_post_data # ys @ Fc_core Core_post_data # zs" for xs ys zs
    using upload_paced_fw.view_spaced [of pf "is" x, unfolded cs, OF that] by auto
  show "length (filter (\<lambda>c. \<exists>b. c = Fc_https (Https_socket b)) cs) * unat ?ih \<le> sum_list (map https_slept cs) + unat ?ih"
    using https_paced_fw.view_rate [of pf "unat ?ih" https_slept "is" x, unfolded cs requests] by auto
  show "length (filter (\<lambda>c. \<exists>q p t. c = Fc_mqtt (Mqtt_helper_publish q p t)) cs) * unat ?im \<le> sum_list (map mqtt_slept cs) + unat ?im"
    using mqtt_paced_fw.view_rate [of pf "unat ?im" mqtt_slept "is" x, unfolded cs requests] by auto
qed

text \<open>An established session that publishes twice: the bound is met exactly.\<close>

definition publishing_fw :: "(byte list, byte list, bool) firmware" where
  "publishing_fw = (fw_boot sample_pf core_sample_world False)\<lparr>fw_mqtt := \<lparr>ms_pc = PC_publish_while, ms_state = mqtt_connected_state\<rparr>\<rparr>"

lemma publishing_run:
  "snd (run_machine (fw_step sample_pf) (replicate 4 (Fw_mqtt_thread mqtt_env_ok)) publishing_fw) =
     map Fc_mqtt [Mqtt_helper_msg_id_get, Mqtt_helper_publish 1 (fmt_u 1) [], Mqtt_sleep_sec 900, Mqtt_helper_msg_id_get, Mqtt_helper_publish 1 (fmt_u 2) []]"
proof -
  have four: "replicate 4 i = [i, i, i, i]" for i :: fw_input by (simp add: numeral_eq_Suc)
  show ?thesis
    unfolding four by (simp add: publishing_fw_def fw_mqtt_step_def mqtt_handle_def mqtt_publish_begin_def mqtt_publish_end_def
        sample_pf_def prj_mqtt_cfg_def mqtt_env_ok_def mqtt_const_defs)
qed

theorem firmware_rate_limited_witness:
  "length (filter (\<lambda>c. \<exists>q p t. c = Fc_mqtt (Mqtt_helper_publish q p t))
      (snd (run_machine (fw_step sample_pf) (replicate 4 (Fw_mqtt_thread mqtt_env_ok)) publishing_fw))) = 2 \<and>
   2 * 900 \<le> sum_list (map mqtt_slept (snd (run_machine (fw_step sample_pf) (replicate 4 (Fw_mqtt_thread mqtt_env_ok)) publishing_fw))) + 900"
proof -
  have "cfg_publish_interval_sec (fc_mqtt (pf_cfg sample_pf)) = 900" by (simp add: sample_pf_def prj_mqtt_cfg_def)
  then show ?thesis
    using firmware_rate_limited [of sample_pf "replicate 4 (Fw_mqtt_thread mqtt_env_ok)" publishing_fw, OF prod.collapse [symmetric]]
    unfolding publishing_run by simp
qed

end
