(* ===== verification/Snapshot_Race.thy ===== *)
theory Snapshot_Race
  imports Snapshot_Box
begin

text \<open>
  The persist runs on the system work queue, the restore on the upload thread, and other threads keep
  writing to the live log. The other theories take each of the two functions of
  \<^verbatim>\<open>src/src/modules/app_memfault/core/app_memfault_log_state_restore.c\<close> as one step; here a step is one call of the
  flash driver (which serialises its callers) together with what the code does up to the next call, so that the
  steps of both functions and the log writes interleave. Run alone, the steps are the functions (\<open>persist_alone\<close>,
  \<open>restore_alone\<close>).

  A restore that starts when the persist has erased the partition delivers what that persist wrote or nothing, however
  the steps interleave. Nothing in the code holds the two functions apart before that point, and nothing
  freezes the live log between the two payload writes: the runs at the end show what can happen then.
\<close>

subsection \<open>The functions in steps\<close>

datatype log_persist_pc =
    LP_start
  | LP_erase nat nat
  | LP_context nat nat
  | LP_storage nat nat
  | LP_header nat nat
  | LP_done int

datatype log_restore_pc =
    LR_start
  | LR_header
  | LR_discard int
  | LR_context u32
  | LR_storage u32
  | LR_erase int
  | LR_done int

text \<open>What went to and came from the partition, and the calls after a restore.\<close>

datatype race_event =
    Wrote_context "byte list"
  | Wrote_storage "byte list"
  | Read_context "byte list"
  | Read_storage "byte list"
  | is_Race_call: Race_call log_call

text \<open>The bytes behind a pointer of \<^verbatim>\<open>sMfltLogSaveState\<close>. The lengths in a program point are those of the start.\<close>

definition buf_bytes :: "byte list option \<Rightarrow> byte list" where
  "buf_bytes b = (case b of Some bs \<Rightarrow> bs | None \<Rightarrow> [])"

lemma buf_bytes_Some [simp]: "buf_bytes (Some bs) = bs"
  by (simp add: buf_bytes_def)

fun log_persist_step ::
  "'f flash_area \<Rightarrow> log_save_state \<Rightarrow> log_persist_pc \<Rightarrow> 'f \<Rightarrow> log_persist_pc \<times> 'f \<times> race_event list" where
  "log_persist_step fa live LP_start f =
     (case (ls_context live, ls_storage live) of
        (Some ctx, Some sto) \<Rightarrow>
          (let total_len = 16 + of_nat (length ctx) + of_nat (length sto) :: u32; (err, f1) = fa_open fa f
           in if err \<noteq> 0 then (LP_done err, f1, [])
              else if total_len > fa_size fa then (LP_done (- ENOSPC), fa_close fa f1, [])
              else (LP_erase (length ctx) (length sto), f1, []))
      | _ \<Rightarrow> (LP_done (- EINVAL), f, []))"
| "log_persist_step fa live (LP_erase lc ls) f =
     (let (err, f1) = fa_erase fa 0 (fa_size fa) f
      in if err \<noteq> 0 then (LP_done err, fa_close fa f1, []) else (LP_context lc ls, f1, []))"
| "log_persist_step fa live (LP_context lc ls) f =
     (let ctx = take lc (buf_bytes (ls_context live)); (err, f1) = fa_write fa 16 ctx f
      in if err \<noteq> 0 then (LP_done err, fa_close fa f1, []) else (LP_storage lc ls, f1, [Wrote_context ctx]))"
| "log_persist_step fa live (LP_storage lc ls) f =
     (let sto = take ls (buf_bytes (ls_storage live)); (err, f1) = fa_write fa (16 + of_nat lc) sto f
      in if err \<noteq> 0 then (LP_done err, fa_close fa f1, []) else (LP_header lc ls, f1, [Wrote_storage sto]))"
| "log_persist_step fa live (LP_header lc ls) f =
     (let hdr = \<lparr>lh_magic = LOG_STATE_MAGIC, lh_version = LOG_STATE_VER, lh_reserved = 0,
                 lh_context_len = of_nat lc, lh_storage_len = of_nat ls\<rparr>;
          (err, f1) = fa_write fa 0 (log_hdr_bytes hdr) f
      in (LP_done err, fa_close fa f1, []))"
| "log_persist_step fa live (LP_done e) f = (LP_done e, f, [])"

fun log_restore_step ::
  "'f flash_area \<Rightarrow> log_save_state \<Rightarrow> log_restore_pc \<Rightarrow> 'f \<Rightarrow> log_restore_pc \<times> log_save_state \<times> 'f \<times> race_event list" where
  "log_restore_step fa live LR_start f =
     (let (err, f1) = fa_open fa f in if err \<noteq> 0 then (LR_done (- ENOENT), live, f1, []) else (LR_header, live, f1, []))"
| "log_restore_step fa live LR_header f =
     (let (err, hbytes, f1) = fa_read fa 0 (replicate 16 0) f; hdr = log_hdr_of_bytes hbytes
      in if err \<noteq> 0 \<or> \<not> log_hdr_valid hdr then (LR_done (- ENOENT), live, fa_close fa f1, [])
         else case (ls_context live, ls_storage live) of
                (Some ctx, Some sto) \<Rightarrow>
                  if lh_context_len hdr \<noteq> of_nat (length ctx) \<or> lh_storage_len hdr \<noteq> of_nat (length sto)
                  then (LR_discard (- ENOSPC), live, f1, []) else (LR_context (lh_context_len hdr), live, f1, [])
              | _ \<Rightarrow> (LR_discard (- EINVAL), live, f1, []))"
| "log_restore_step fa live (LR_discard e) f = (LR_done e, live, fa_close fa (snd (fa_erase fa 0 (fa_size fa) f)), [])"
| "log_restore_step fa live (LR_context n) f =
     (let (err, ctx, f1) = fa_read fa 16 (buf_bytes (ls_context live)) f; live' = live\<lparr>ls_context := Some ctx\<rparr>
      in if err \<noteq> 0 then (LR_erase err, live', f1, []) else (LR_storage n, live', f1, [Read_context ctx]))"
| "log_restore_step fa live (LR_storage n) f =
     (let (err, sto, f1) = fa_read fa (16 + n) (buf_bytes (ls_storage live)) f
      in (LR_erase err, live\<lparr>ls_storage := Some sto\<rparr>, f1, if err = 0 then [Read_storage sto] else []))"
| "log_restore_step fa live (LR_erase e) f =
     (LR_done e, live, fa_close fa (snd (fa_erase fa 0 (fa_size fa) f)),
      if e = 0 then map Race_call [Memfault_log_data_source_reset, Log_restore_marker, Log_flush] else [])"
| "log_restore_step fa live (LR_done e) f = (LR_done e, live, f, [])"

subsection \<open>Interleaving\<close>

record 'f race =
  rc_live :: log_save_state
  rc_flash :: 'f
  rc_persist :: log_persist_pc
  rc_restore :: log_restore_pc

datatype race_input = Race_persist | Race_restore | Race_log "byte list" "byte list"

fun race_step :: "'f flash_area \<Rightarrow> (race_input, 'f race, race_event) machine" where
  "race_step fa Race_persist x =
     (let (pc, f, es) = log_persist_step fa (rc_live x) (rc_persist x) (rc_flash x)
      in (x\<lparr>rc_persist := pc, rc_flash := f\<rparr>, es))"
| "race_step fa Race_restore x =
     (let (pc, live, f, es) = log_restore_step fa (rc_live x) (rc_restore x) (rc_flash x)
      in (x\<lparr>rc_restore := pc, rc_live := live, rc_flash := f\<rparr>, es))"
| "race_step fa (Race_log c s) x = (x\<lparr>rc_live := log_live (c, s)\<rparr>, [])"

lemma five: "replicate 5 a = [a, a, a, a, a]"
  by (simp add: numeral_eq_Suc)

lemma persist_alone:
  assumes "rc_persist x = LP_start" "memfault_log_state_persist_now fa (rc_live x) (rc_flash x) = (e, f)"
  shows "fst (run_machine (race_step fa) (replicate 5 Race_persist) x) = x\<lparr>rc_persist := LP_done e, rc_flash := f\<rparr>"
  using assms unfolding five
  by (auto simp: memfault_log_state_persist_now_def log_persist_payload_def split_beta Let_def split: option.splits if_splits)

lemma restore_alone:
  assumes "rc_restore x = LR_start" "memfault_log_state_restore_on_connect fa (rc_live x) (rc_flash x) = (e, live', lcs, f)"
  shows "fst (run_machine (race_step fa) (replicate 5 Race_restore) x) = x\<lparr>rc_restore := LR_done e, rc_live := live', rc_flash := f\<rparr> \<and>
    filter is_Race_call (snd (run_machine (race_step fa) (replicate 5 Race_restore) x)) = map Race_call lcs"
proof -
  obtain e1 f1 where o: "fa_open fa (rc_flash x) = (e1, f1)" by (cases "fa_open fa (rc_flash x)")
  obtain e2 hb f2 where h: "fa_read fa 0 (replicate 16 0) f1 = (e2, hb, f2)" by (cases "fa_read fa 0 (replicate 16 0) f1")
  show ?thesis
  proof (cases "e1 \<noteq> 0 \<or> e2 \<noteq> 0 \<or> \<not> log_hdr_valid (log_hdr_of_bytes hb)")
    case True
    then show ?thesis using assms o h unfolding five
      by (auto simp: memfault_log_state_restore_on_connect_def Let_def split: if_splits)
  next
    case False
    show ?thesis
    proof (cases "(ls_context (rc_live x), ls_storage (rc_live x))")
      case (Pair b1 b2)
      then show ?thesis using False assms o h unfolding five
        by (cases b1; cases b2) (auto simp: memfault_log_state_restore_on_connect_def log_restore_in_place_def split_beta Let_def split: if_splits)
    qed
  qed
qed

subsection \<open>A restore that meets a persist\<close>

text \<open>
  The transfers so far, the program points and the image, once the persist has erased the partition:
  nothing to read, the context written, both parts written, the persist stopped before the header, the header written
  (or torn), the context read, and the restore past its reads.
\<close>

fun restore_idle :: "log_restore_pc \<Rightarrow> bool" where
  "restore_idle LR_start = True"
| "restore_idle LR_header = True"
| "restore_idle (LR_done e) = (e = - ENOENT)"
| "restore_idle _ = False"

fun restore_at :: "nat \<Rightarrow> log_restore_pc \<Rightarrow> bool" where
  "restore_at lc (LR_discard e) = (e \<noteq> 0)"
| "restore_at lc (LR_context n) = (n = of_nat lc)"
| "restore_at lc r = restore_idle r"

fun restore_past :: "log_restore_pc \<Rightarrow> int option" where
  "restore_past (LR_erase e) = Some e"
| "restore_past (LR_done e) = Some e"
| "restore_past _ = None"

definition header_erased :: "byte list \<Rightarrow> bool" where
  "header_erased bs \<longleftrightarrow> take 16 bs = replicate 16 erased_byte"

definition payload_in :: "byte list \<Rightarrow> byte list \<Rightarrow> byte list \<Rightarrow> bool" where
  "payload_in c s bs \<longleftrightarrow> take (length c) (drop 16 bs) = c \<and> take (length s) (drop (16 + length c) bs) = s"

definition header_in :: "nat \<Rightarrow> nat \<Rightarrow> byte list \<Rightarrow> bool" where
  "header_in lc ls bs \<longleftrightarrow> take 16 bs = log_hdr_bytes \<lparr>lh_magic = LOG_STATE_MAGIC, lh_version = LOG_STATE_VER,
     lh_reserved = 0, lh_context_len = of_nat lc, lh_storage_len = of_nat ls\<rparr>"

fun restore_discards :: "log_restore_pc \<Rightarrow> bool" where
  "restore_discards (LR_discard e) = True"
| "restore_discards _ = False"

inductive race_ok ::
  "bool \<Rightarrow> nat \<Rightarrow> nat \<Rightarrow> nat \<Rightarrow> race_event list \<Rightarrow> log_persist_pc \<Rightarrow> log_restore_pc \<Rightarrow> byte list \<Rightarrow> bool" for w n lc ls where
  ok_erased: "bs = replicate n erased_byte \<Longrightarrow> restore_idle r \<Longrightarrow> race_ok w n lc ls [] (LP_context lc ls) r bs"
| ok_context: "length c = lc \<Longrightarrow> bs = splice 16 c (replicate n erased_byte) \<Longrightarrow> restore_idle r \<Longrightarrow>
    race_ok w n lc ls [Wrote_context c] (LP_storage lc ls) r bs"
| ok_payload: "length c = lc \<Longrightarrow> length s = ls \<Longrightarrow> payload_in c s bs \<Longrightarrow> header_erased bs \<Longrightarrow> restore_idle r \<Longrightarrow>
    race_ok w n lc ls [Wrote_context c, Wrote_storage s] (LP_header lc ls) r bs"
| ok_stopped: "header_erased bs \<Longrightarrow> restore_idle r \<Longrightarrow> e \<noteq> 0 \<Longrightarrow> race_ok w n lc ls es (LP_done e) r bs"
| ok_header: "length c = lc \<Longrightarrow> length s = ls \<Longrightarrow> payload_in c s bs \<Longrightarrow> restore_at lc r \<Longrightarrow>
    (e = 0 \<Longrightarrow> header_in lc ls bs \<and> \<not> restore_discards r) \<Longrightarrow>
    race_ok w n lc ls [Wrote_context c, Wrote_storage s] (LP_done e) r bs"
| ok_context_read: "length c = lc \<Longrightarrow> length s = ls \<Longrightarrow> payload_in c s bs \<Longrightarrow>
    race_ok w n lc ls [Wrote_context c, Wrote_storage s, Read_context c] (LP_done e) (LR_storage (of_nat lc)) bs"
| ok_past: "restore_past r = Some e \<Longrightarrow>
    (e = 0 \<Longrightarrow> \<exists>c s. es = [Wrote_context c, Wrote_storage s, Read_context c, Read_storage s]) \<Longrightarrow>
    (w \<Longrightarrow> e' = 0 \<Longrightarrow> e = 0) \<Longrightarrow> race_ok w n lc ls es (LP_done e') r bs"

definition race_transfers :: "race_event list \<Rightarrow> race_event list" where
  "race_transfers es = filter (\<lambda>e. \<not> is_Race_call e) es"

lemma race_transfers_simps [simp]:
  "race_transfers [] = []" "race_transfers (es @ es') = race_transfers es @ race_transfers es'"
  "race_transfers (e # es) = (if is_Race_call e then race_transfers es else e # race_transfers es)"
  by (simp_all add: race_transfers_def)

lemma header_erased_invalid: "header_erased bs \<Longrightarrow> \<not> log_hdr_valid (log_hdr_of_bytes (take 16 bs))"
  by (simp only: header_erased_def log_hdr_erased not_False_eq_True)

text \<open>A restore that finds an erased header, or nothing, leaves the partition alone.\<close>

lemma restore_idle_step:
  assumes ok: "flash_ok img fa" and er: "header_erased (img f)" and r: "restore_idle r"
    and step: "log_restore_step fa live r f = (r', live', f', es)"
  shows "restore_idle r' \<and> img f' = img f \<and> es = [] \<and> live' = live"
proof (cases r)
  case LR_start
  then show ?thesis using step flash_ok_open [OF ok] by (auto split: prod.splits if_splits)
next
  case LR_header
  obtain e hb f1 where rd: "fa_read fa 0 (replicate 16 0) f = (e, hb, f1)" by (cases "fa_read fa 0 (replicate 16 0) f")
  note rd_ok = flash_ok_read [OF ok rd]
  have "\<not> log_hdr_valid (log_hdr_of_bytes hb)" if "e = 0"
    using header_erased_invalid [OF er] rd_ok(4) [OF that] by simp
  then have "r' = LR_done (- ENOENT)" "live' = live" "f' = fa_close fa f1" "es = []"
    using LR_header step rd by (auto simp: Let_def split: if_splits)
  then show ?thesis using rd_ok(1) flash_ok_close [OF ok] by simp
qed (use assms in auto)

lemma payload_in_read:
  assumes "flash_ok img fa" "payload_in c s (img f)" "fa_read fa off buf f = (0, buf', f')"
  shows "unat off = 16 \<Longrightarrow> length buf = length c \<Longrightarrow> buf' = c"
    "unat off = 16 + length c \<Longrightarrow> length buf = length s \<Longrightarrow> buf' = s"
  using assms(2) flash_ok_read(4) [OF assms(1,3)] by (simp_all add: payload_in_def)

text \<open>Once the persist has ended with both parts in place, a step of the restore.\<close>

lemma restore_header_step:
  assumes ok: "flash_ok img fa" and sz: "log_sizes lc ls" and sh: "log_shape lc ls live"
    and step: "log_restore_step fa live LR_header f = (r', live', f', es)"
  shows "restore_at lc r' \<and> img f' = img f \<and> es = [] \<and> (header_in lc ls (img f) \<longrightarrow> \<not> restore_discards r')"
proof -
  obtain e hb f1 where rd: "fa_read fa 0 (replicate 16 0) f = (e, hb, f1)" by (cases "fa_read fa 0 (replicate 16 0) f")
  have "log_hdr_of_bytes hb = \<lparr>lh_magic = LOG_STATE_MAGIC, lh_version = LOG_STATE_VER, lh_reserved = 0,
      lh_context_len = of_nat lc, lh_storage_len = of_nat ls\<rparr>" if "e = 0" "header_in lc ls (img f)"
    using flash_ok_read(4) [OF ok rd that(1)] that(2) by (simp add: header_in_def)
  then show ?thesis using step rd sh flash_ok_read(1) [OF ok rd] flash_ok_close [OF ok]
    by (auto simp: Let_def log_shape_def log_live_def split: if_splits)
qed

lemma restore_at_step:
  assumes ok: "flash_ok img fa" and sz: "log_sizes lc ls" "16 + lc + ls \<le> unat (fa_size fa)"
    and len: "length c = lc" "length s = ls" "log_shape lc ls live"
    and pl: "payload_in c s (img f)" and r: "restore_at lc r" and hd: "e = 0 \<Longrightarrow> header_in lc ls (img f) \<and> \<not> restore_discards r"
    and step: "log_restore_step fa live r f = (r', live', f', es)"
  shows "race_ok (flash_reliable fa) n lc ls ([Wrote_context c, Wrote_storage s] @ race_transfers es) (LP_done e) r' (img f')"
proof (cases r)
  case LR_start
  then have "restore_at lc r'" "img f' = img f" "es = []" "\<not> restore_discards r'" using step flash_ok_open [OF ok]
    by (auto split: prod.splits if_splits)
  then show ?thesis using ok_header [OF len(1,2)] pl hd by simp
next
  case LR_header
  from restore_header_step [OF ok sz(1) len(3) step [unfolded this]] show ?thesis
    using ok_header [OF len(1,2)] pl hd by auto
next
  case (LR_discard e1)
  then show ?thesis using step r hd by (auto intro!: ok_past)
next
  case (LR_context m)
  obtain c0 s0 where live: "live = log_live (c0, s0)" "length c0 = lc" using len(3) by (auto simp: log_shape_def)
  obtain e1 ctx f1 where rd: "fa_read fa 16 c0 f = (e1, ctx, f1)" by (cases "fa_read fa 16 c0 f")
  have works: "e1 = 0" if "flash_reliable fa"
  proof -
    have "fst (fa_read fa 16 c0 f) = 0" using that sz live unfolding flash_reliable_def by simp
    then show ?thesis using rd by simp
  qed
  have "race_ok (flash_reliable fa) n lc ls [Wrote_context c, Wrote_storage s, Read_context ctx] (LP_done e) (LR_storage m) (img f1)"
    if "e1 = 0"
    using ok_context_read [OF len(1,2), of "img f1"] payload_in_read(1) [OF ok pl, of 16 c0 ctx f1] rd that live r LR_context
      flash_ok_read(1) [OF ok rd] pl len by simp
  then show ?thesis using LR_context step rd live works by (cases "e1 = 0") (auto simp: log_live_def intro: ok_past)
next
  case (LR_done e1)
  then show ?thesis using step r hd pl ok_header [OF len(1,2)] by auto
qed (use r in simp_all)

lemma restore_storage_step:
  assumes ok: "flash_ok img fa" and sz: "log_sizes lc ls" "16 + lc + ls \<le> unat (fa_size fa)"
    and len: "length c = lc" "length s = ls" "log_shape lc ls live" and pl: "payload_in c s (img f)"
    and step: "log_restore_step fa live (LR_storage (of_nat lc)) f = (r', live', f', es)"
  shows "race_ok (flash_reliable fa) n lc ls ([Wrote_context c, Wrote_storage s, Read_context c] @ race_transfers es) (LP_done e) r' (img f')"
proof -
  obtain c0 s0 where live: "live = log_live (c0, s0)" "length s0 = ls" using len(3) by (auto simp: log_shape_def)
  obtain e1 sto f1 where rd: "fa_read fa (16 + of_nat lc) s0 f = (e1, sto, f1)" by (cases "fa_read fa (16 + of_nat lc) s0 f")
  have off: "unat (16 + of_nat lc :: u32) = 16 + lc" using sz by (intro unat_hdr_plus) (simp add: log_sizes_def)
  then have "sto = s" if "e1 = 0" using payload_in_read(2) [OF ok pl, of "16 + of_nat lc" s0 sto f1] rd that live len by simp
  moreover have "e1 = 0" if "flash_reliable fa"
  proof -
    have "fst (fa_read fa (16 + of_nat lc) s0 f) = 0" using that sz live off unfolding flash_reliable_def by simp
    then show ?thesis using rd by simp
  qed
  ultimately show ?thesis using step rd live by (auto simp: log_live_def intro!: ok_past)
qed

lemma race_ok_restore:
  assumes ok: "flash_ok img fa" and sz: "log_sizes lc ls" "16 + lc + ls \<le> unat (fa_size fa)" and sh: "log_shape lc ls live"
    and inv: "race_ok (flash_reliable fa) (unat (fa_size fa)) lc ls es0 p r (img f)"
    and step: "log_restore_step fa live r f = (r', live', f', es)"
  shows "race_ok (flash_reliable fa) (unat (fa_size fa)) lc ls (es0 @ race_transfers es) p r' (img f')"
  using inv
proof cases
  case ok_erased
  then have "header_erased (img f)" using sz by (simp add: header_erased_def)
  from restore_idle_step [OF ok this ok_erased(4) step] show ?thesis using ok_erased by (simp add: race_ok.ok_erased)
next
  case (ok_context c)
  then have "header_erased (img f)" using sz by (simp add: header_erased_def take_splice_before)
  from restore_idle_step [OF ok this ok_context(5) step] show ?thesis using ok_context by (simp add: race_ok.ok_context)
next
  case (ok_payload c s)
  from restore_idle_step [OF ok ok_payload(6,7) step] show ?thesis using ok_payload by (simp add: race_ok.ok_payload)
next
  case (ok_stopped e)
  from restore_idle_step [OF ok ok_stopped(2,3) step] show ?thesis using ok_stopped by (simp add: race_ok.ok_stopped)
next
  case (ok_header c s e)
  then show ?thesis using restore_at_step [OF ok sz ok_header(3,4) sh ok_header(5-7) step] by simp
next
  case (ok_context_read c s e)
  then show ?thesis using restore_storage_step [OF ok sz ok_context_read(4,5) sh ok_context_read(6)] step by simp
next
  case (ok_past e e')
  then show ?thesis using step by (cases r) (auto intro!: race_ok.ok_past)
qed

text \<open>A step of the persist.\<close>

lemma race_ok_persist:
  assumes ok: "flash_ok img fa" and sz: "log_sizes lc ls" "16 + lc + ls \<le> unat (fa_size fa)" and sh: "log_shape lc ls live"
    and inv: "race_ok w (unat (fa_size fa)) lc ls es0 p r (img f)"
    and step: "log_persist_step fa live p f = (p', f', es)"
  shows "race_ok w (unat (fa_size fa)) lc ls (es0 @ race_transfers es) p' r (img f')"
proof -
  let ?n = "unat (fa_size fa)"
  obtain c0 s0 where live: "live = log_live (c0, s0)" "length c0 = lc" "length s0 = ls" using sh by (auto simp: log_shape_def)
  have off: "unat (16 + of_nat lc :: u32) = 16 + lc" using sz by (intro unat_hdr_plus) (simp add: log_sizes_def)
  note close = flash_ok_close [OF ok]
  from inv show ?thesis
  proof cases
    case ok_erased
    obtain e f1 where w: "fa_write fa 16 c0 f = (e, f1)" by (cases "fa_write fa 16 c0 f")
    have "take 16 (img f1) = replicate 16 erased_byte" using flash_ok_write(1) [OF ok w] ok_erased sz by simp
    moreover have "img f1 = splice 16 c0 (replicate ?n erased_byte)" if "e = 0"
      using flash_ok_write_erased [OF ok, of 16 c0 f f1] w that ok_erased sz live by simp
    ultimately show ?thesis using step ok_erased w live close
      by (cases "e = 0") (auto simp: log_live_def header_erased_def intro: race_ok.ok_context race_ok.ok_stopped)
  next
    case (ok_context c)
    obtain e f1 where w: "fa_write fa (16 + of_nat lc) s0 f = (e, f1)" by (cases "fa_write fa (16 + of_nat lc) s0 f")
    have "take 16 (img f1) = take 16 (take (16 + lc) (img f1))" by simp
    also have "\<dots> = replicate 16 erased_byte" using flash_ok_write(1) [OF ok w] off ok_context sz by (simp add: take_splice_before)
    finally have er: "header_erased (img f1)" by (simp add: header_erased_def)
    have "payload_in c s0 (img f1)" if "e = 0"
    proof -
      have "img f1 = splice (16 + lc) s0 (splice 16 c (replicate ?n erased_byte))"
        using flash_ok_write_erased [OF ok, of "16 + of_nat lc" s0 f f1] w that off ok_context sz live by (simp add: drop_splice_after)
      then show ?thesis using ok_context sz live by (simp add: payload_in_def splice_def)
    qed
    then show ?thesis using step ok_context w live close er
      by (cases "e = 0") (auto simp: log_live_def intro: race_ok.ok_payload race_ok.ok_stopped)
  next
    case (ok_payload c s)
    let ?h = "log_hdr_bytes \<lparr>lh_magic = LOG_STATE_MAGIC, lh_version = LOG_STATE_VER, lh_reserved = 0,
      lh_context_len = of_nat lc, lh_storage_len = of_nat ls\<rparr>"
    obtain e f1 where w: "fa_write fa 0 ?h f = (e, f1)" by (cases "fa_write fa 0 ?h f")
    have "drop 16 (img f1) = drop 16 (img f)" using flash_ok_write(2) [OF ok w] by simp
    then have "drop (16 + k) (img f1) = drop (16 + k) (img f)" for k by (metis add.commute drop_drop)
    from this [of 0] this have "payload_in c s (img f1)" using ok_payload by (simp add: payload_in_def)
    moreover have "restore_at lc r" "\<not> restore_discards r" using ok_payload(7) by (cases r, simp_all)+
    moreover have "header_in lc ls (img f1)" if "e = 0"
      using flash_ok_write(4) [OF ok w that] ok_payload(6) by (simp add: header_in_def header_erased_def)
    ultimately show ?thesis using step ok_payload w close by (auto intro!: race_ok.ok_header)
  qed (use inv step in simp_all)
qed

text \<open>Any interleaving.\<close>

fun race_shape :: "nat \<Rightarrow> nat \<Rightarrow> race_input \<Rightarrow> bool" where
  "race_shape lc ls (Race_log c s) = (length c = lc \<and> length s = ls)"
| "race_shape lc ls _ = True"

lemma log_restore_step_shape:
  assumes "flash_ok img fa" "log_shape lc ls live" "log_restore_step fa live r f = (r', live', f', es)"
  shows "log_shape lc ls live'"
proof -
  obtain c s where live: "live = log_live (c, s)" "length c = lc" "length s = ls" using assms(2) by (auto simp: log_shape_def)
  then have "\<exists>c' s'. live' = log_live (c', s') \<and> length c' = lc \<and> length s' = ls"
    using assms(3) flash_ok_read(2) [OF assms(1)]
    by (cases r) (fastforce simp: log_live_def Let_def split: prod.splits if_splits)+
  then show ?thesis by (auto simp: log_shape_def)
qed

lemma race_ok_step:
  assumes ok: "flash_ok img fa" and sz: "log_sizes lc ls" "16 + lc + ls \<le> unat (fa_size fa)"
    and inv: "log_shape lc ls (rc_live x) \<and>
      race_ok (flash_reliable fa) (unat (fa_size fa)) lc ls es0 (rc_persist x) (rc_restore x) (img (rc_flash x))"
    and i: "race_shape lc ls i" and step: "race_step fa i x = (y, es)"
  shows "log_shape lc ls (rc_live y) \<and>
    race_ok (flash_reliable fa) (unat (fa_size fa)) lc ls (es0 @ race_transfers es) (rc_persist y) (rc_restore y) (img (rc_flash y))"
proof (cases i)
  case Race_persist
  then show ?thesis using race_ok_persist [OF ok sz] inv step by (auto split: prod.splits)
next
  case Race_restore
  then show ?thesis using race_ok_restore [OF ok sz] log_restore_step_shape [OF ok] inv step by (auto split: prod.splits)
next
  case (Race_log c s)
  then show ?thesis using inv i step by auto
qed

lemma race_ok_run:
  assumes "flash_ok img fa" "log_sizes lc ls" "16 + lc + ls \<le> unat (fa_size fa)"
  shows "log_shape lc ls (rc_live x) \<and>
      race_ok (flash_reliable fa) (unat (fa_size fa)) lc ls es0 (rc_persist x) (rc_restore x) (img (rc_flash x)) \<Longrightarrow>
    list_all (race_shape lc ls) is \<Longrightarrow> run_machine (race_step fa) is x = (y, es) \<Longrightarrow>
    race_ok (flash_reliable fa) (unat (fa_size fa)) lc ls (es0 @ race_transfers es) (rc_persist y) (rc_restore y) (img (rc_flash y))"
proof (induction "is" arbitrary: x es0 es)
  case (Cons i js)
  obtain x1 es1 where st: "race_step fa i x = (x1, es1)" by (cases "race_step fa i x")
  obtain es2 where run: "run_machine (race_step fa) js x1 = (y, es2)" "es = es1 @ es2"
    using Cons.prems(3) st by (auto simp: run_machine.simps split: prod.splits)
  show ?case using Cons.IH [OF race_ok_step [OF assms Cons.prems(1) _ st] _ run(1)] Cons.prems(2) run(2) by simp
qed simp

lemma race_ok_delivered: "race_ok w n lc ls es p (LR_done 0) bs \<Longrightarrow>
    \<exists>c s. es = [Wrote_context c, Wrote_storage s, Read_context c, Read_storage s]"
  by (erule race_ok.cases) auto

lemma race_ok_kept:
  assumes "race_ok w n lc ls es (LP_done 0) (LR_done e) bs" "w" "e \<noteq> 0" "log_sizes lc ls" "16 + lc + ls \<le> length bs"
  shows "e = - ENOENT \<and> (\<exists>c s. es = [Wrote_context c, Wrote_storage s] \<and> log_content lc ls bs = Some (c, s))"
  using assms(1)
proof cases
  case (ok_header c s)
  have "(of_nat lc :: u32) \<noteq> 0" "(of_nat ls :: u32) \<noteq> 0" using assms(4) unat_of_nat_u32 [of lc] unat_of_nat_u32 [of ls]
    by (auto simp: log_sizes_def)
  then have "log_content lc ls bs = Some (c, s)" using ok_header assms(5)
    by (simp add: header_in_def payload_in_def log_content_def log_stored_def log_hdr_valid_def)
  then show ?thesis using ok_header by simp
qed (use assms in simp_all)

subsection \<open>Properties\<close>

text \<open>
  C7: a restore that starts after the persist has erased the partition is safe, however the steps of the two
  functions and the writes to the live log interleave from then on, and wherever the flash fails. When it
  reports success it has read exactly the two parts that this persist wrote, after both were written, and nothing else was
  transferred. On a flash that works, when both functions have returned, the snapshot was either delivered
  or is still stored, whole, for the next connect.
\<close>

theorem log_restore_during_persist:
  assumes "flash_ok img fa" and "log_sizes lc ls" and "16 + lc + ls \<le> unat (fa_size fa)"
    and "rc_persist x = LP_context lc ls" and "rc_restore x = LR_start" and "log_shape lc ls (rc_live x)"
    and "img (rc_flash x) = replicate (unat (fa_size fa)) erased_byte"
    and "list_all (race_shape lc ls) is" and "run_machine (race_step fa) is x = (y, es)"
  shows "(rc_restore y = LR_done 0 \<longrightarrow>
      (\<exists>c s. race_transfers es = [Wrote_context c, Wrote_storage s, Read_context c, Read_storage s])) \<and>
    (flash_reliable fa \<and> rc_persist y = LP_done 0 \<and> rc_restore y = LR_done e \<and> e \<noteq> 0 \<longrightarrow>
      e = - ENOENT \<and> (\<exists>c s. race_transfers es = [Wrote_context c, Wrote_storage s] \<and>
        log_content lc ls (img (rc_flash y)) = Some (c, s)))"
proof -
  have "race_ok (flash_reliable fa) (unat (fa_size fa)) lc ls [] (rc_persist x) (rc_restore x) (img (rc_flash x))"
    using assms(4,5,7) ok_erased by simp
  then have "race_ok (flash_reliable fa) (unat (fa_size fa)) lc ls (race_transfers es) (rc_persist y) (rc_restore y) (img (rc_flash y))"
    using race_ok_run [OF assms(1-3), of x "[]"] assms(6,8,9) by simp
  then show ?thesis
    using race_ok_delivered race_ok_kept assms(2,3) flash_ok_length [OF assms(1)] by metis
qed

text \<open>A log write between the two parts, the restore from before the header to the end.\<close>

theorem log_restore_during_persist_witness:
  "\<exists>y es. run_machine (race_step (ram_flash 64))
       [Race_restore, Race_persist, Race_log [3] [4], Race_persist, Race_persist, Race_restore, Race_restore, Race_restore, Race_restore]
       \<lparr>rc_live = log_live ([1], [2]), rc_flash = replicate 64 erased_byte, rc_persist = LP_context 1 1, rc_restore = LR_start\<rparr> = (y, es) \<and>
     rc_restore y = LR_done 0 \<and>
     (\<exists>c s. race_transfers es = [Wrote_context c, Wrote_storage s, Read_context c, Read_storage s])"
proof -
  let ?is = "[Race_restore, Race_persist, Race_log [3] [4], Race_persist, Race_persist, Race_restore, Race_restore, Race_restore, Race_restore]"
  let ?x = "\<lparr>rc_live = log_live ([1], [2]), rc_flash = replicate 64 erased_byte, rc_persist = LP_context 1 1, rc_restore = LR_start\<rparr>"
  have c: "rc_restore (fst (run_machine (race_step (ram_flash 64)) ?is ?x)) = LR_done 0" by code_simp
  have "log_sizes 1 1" "ram_image 64 (rc_flash ?x) = replicate (unat (fa_size (ram_flash 64))) erased_byte"
    "list_all (race_shape 1 1) ?is" "log_shape 1 1 (rc_live ?x)" "16 + 1 + 1 \<le> unat (fa_size (ram_flash 64))"
    by (simp_all add: log_sizes_def ram_image_def ram_flash_def)
  note p = log_restore_during_persist [OF ram_flash_ok this(1,5) _ _ this(4,2,3), THEN conjunct1]
  obtain y es where run: "run_machine (race_step (ram_flash 64)) ?is ?x = (y, es)" by (metis prod.collapse)
  have d: "rc_restore y = LR_done 0" using c unfolding run by (simp only: fst_conv)
  have "\<exists>c s. race_transfers es = [Wrote_context c, Wrote_storage s, Read_context c, Read_storage s]"
    by (rule p [OF _ _ run, THEN mp, OF _ _ d]) simp_all
  then show ?thesis using run d by blast
qed

subsection \<open>Where the two functions are not held apart\<close>

definition race_boot :: "byte list \<Rightarrow> byte list \<Rightarrow> byte list race" where
  "race_boot c s = fst (run_machine (race_step (ram_flash 64)) (replicate 5 Race_persist)
     \<lparr>rc_live = log_live (c, s), rc_flash = [], rc_persist = LP_start, rc_restore = LR_start\<rparr>)\<lparr>rc_persist := LP_start\<rparr>"

text \<open>A snapshot is stored; the restore has read its header when a new persist erases: the live log becomes erased flash.\<close>

lemma restore_reads_erased:
  "rc_restore y = LR_done 0 \<and> rc_live y = log_live ([255], [255, 255])"
  if "y = fst (run_machine (race_step (ram_flash 64))
    [Race_restore, Race_restore, Race_persist, Race_persist, Race_restore, Race_restore, Race_restore] (race_boot [1] [2, 3]))"
  unfolding that by code_simp

text \<open>The restore has read the old snapshot when a new persist completes, and then erases the new one.\<close>

lemma restore_erases_new:
  "rc_persist y = LP_done 0 \<and> rc_restore y = LR_done 0 \<and> log_content 1 2 (ram_image 64 (rc_flash y)) = None"
  if "y = fst (run_machine (race_step (ram_flash 64))
    ([Race_restore, Race_restore, Race_restore, Race_restore] @ replicate 5 Race_persist @ [Race_restore]) (race_boot [1] [2, 3]))"
  unfolding that by code_simp

text \<open>A log write between the two payload writes: the stored snapshot mixes two states of the ring buffer.\<close>

lemma persist_mixes_states:
  "rc_persist y = LP_done 0 \<and> log_content 1 2 (ram_image 64 (rc_flash y)) = Some ([1], [8, 9])"
  if "y = fst (run_machine (race_step (ram_flash 64))
    [Race_persist, Race_persist, Race_persist, Race_log [7] [8, 9], Race_persist, Race_persist]
    \<lparr>rc_live = log_live ([1], [2, 3]), rc_flash = [], rc_persist = LP_start, rc_restore = LR_done 0\<rparr>)"
  unfolding that by code_simp

text \<open>
  The recording of the Wi-Fi statistics is read in chunks by the upload thread. A button that collects a new recording between
  two chunks makes the upload a mix of both, and acknowledging it drops the new recording unread.
\<close>

lemma recording_replaced_while_read:
  "let env = (\<lambda>fw. \<lparr>rpu_ctx_present = True, fmac_stats_success = True, fmac_stats_fw = fw\<rparr>);
       (e0, s0, _) = mflt_nrf70_fw_stats_cdr_collect (env [1, 2, 3]) cdr_boot_state;
       (ok1, chunk1, s1) = read_data_cb 0 [0] s0;
       (e1, s2, _) = mflt_nrf70_fw_stats_cdr_collect (env [4, 5, 6]) s1;
       (ok2, chunk2, s3) = read_data_cb 1 [0, 0] s2;
       (left, _) = has_cdr_cb (mark_cdr_read_cb s3)
   in e0 = 0 \<and> ok1 \<and> e1 = 0 \<and> ok2 \<and> chunk1 @ chunk2 = [1, 5, 6] \<and> \<not> left"
  by code_simp

end
