(* ===== verification/Snapshot_Life.thy ===== *)
theory Snapshot_Life
  imports Snapshot_Race
begin

text \<open>
  The log partition over many persists and restores in single flash calls, with log writes at any time and power cuts
  between (and, as calls that fail halfway, within) them. Where \<^theory_text>\<open>Snapshot_Race\<close> follows one persist that a
  restore overlaps, here the two functions do not overlap: this is the case in which \<^theory_text>\<open>Snapshot_Box\<close> and
  \<^theory_text>\<open>Firmware_Sessions\<close> take each of them as one step. Log writes may still fall between any two calls.
\<close>

subsection \<open>Many persists and restores\<close>

text \<open>
  The life of the partition in single flash calls: persists and restores start again and again, the log is written
  at any time, and the power may go between any two calls (within one, the call fails first) and takes the two functions
  with it.
\<close>

datatype life_input = Life_call race_input | Life_persist | Life_restore | Life_power "byte list" "byte list"

fun life_step :: "'f flash_area \<Rightarrow> (life_input, 'f race, race_event) machine" where
  "life_step fa (Life_call i) x = race_step fa i x"
| "life_step fa Life_persist x = (x\<lparr>rc_persist := LP_start\<rparr>, [])"
| "life_step fa Life_restore x = (x\<lparr>rc_restore := LR_start\<rparr>, [])"
| "life_step fa (Life_power c s) x =
     (x\<lparr>rc_live := log_live (c, s), rc_persist := LP_done (- EIO), rc_restore := LR_done (- EIO)\<rparr>, [])"

text \<open>Neither function starts while the other, or itself, is under way.\<close>

fun persist_done :: "log_persist_pc \<Rightarrow> bool" where
  "persist_done (LP_done e) = True"
| "persist_done _ = False"

fun restore_done :: "log_restore_pc \<Rightarrow> bool" where
  "restore_done (LR_done e) = True"
| "restore_done _ = False"

definition both_done :: "'f race \<Rightarrow> bool" where
  "both_done x \<longleftrightarrow> persist_done (rc_persist x) \<and> restore_done (rc_restore x)"

fun life_allowed :: "nat \<Rightarrow> nat \<Rightarrow> life_input \<Rightarrow> 'f race \<Rightarrow> bool" where
  "life_allowed lc ls (Life_call i) x = race_shape lc ls i"
| "life_allowed lc ls (Life_power c s) x = (length c = lc \<and> length s = ls)"
| "life_allowed lc ls _ x = both_done x"

fun no_overlap :: "'f flash_area \<Rightarrow> nat \<Rightarrow> nat \<Rightarrow> life_input list \<Rightarrow> 'f race \<Rightarrow> bool" where
  "no_overlap fa lc ls [] x = True"
| "no_overlap fa lc ls (i # is) x = (life_allowed lc ls i x \<and> no_overlap fa lc ls is (fst (life_step fa i x)))"

text \<open>What a history wrote last, and the context it read last.\<close>

fun note_written :: "byte list option \<times> byte list option \<Rightarrow> race_event \<Rightarrow> byte list option \<times> byte list option" where
  "note_written w (Wrote_context c) = (Some c, None)"
| "note_written w (Wrote_storage s) = (fst w, Some s)"
| "note_written w _ = w"

fun note_read :: "byte list option \<Rightarrow> race_event \<Rightarrow> byte list option" where
  "note_read r (Read_context c) = Some c"
| "note_read r _ = r"

definition last_written :: "race_event list \<Rightarrow> byte list option \<times> byte list option" where
  "last_written es = foldl note_written (None, None) es"

definition last_read :: "race_event list \<Rightarrow> byte list option" where
  "last_read es = foldl note_read None es"

lemma last_simps [simp]:
  "last_written [] = (None, None)" "last_written (es @ [e]) = note_written (last_written es) e"
  "last_read [] = None" "last_read (es @ [e]) = note_read (last_read es) e"
  by (simp_all add: last_written_def last_read_def)

lemma last_calls [simp]:
  "last_written (es @ map Race_call cs) = last_written es" "last_read (es @ map Race_call cs) = last_read es"
proof -
  have "foldl note_written w (map Race_call cs) = w" "foldl note_read r (map Race_call cs) = r" for w r by (induction cs) simp_all
  then show "last_written (es @ map Race_call cs) = last_written es" "last_read (es @ map Race_call cs) = last_read es"
    by (simp_all add: last_written_def last_read_def)
qed

definition reads_newest :: "race_event list \<Rightarrow> bool" where
  "reads_newest es \<longleftrightarrow> (\<forall>es1 s es2. es = es1 @ Read_storage s # es2 \<longrightarrow>
     (\<exists>c. last_written es1 = (Some c, Some s) \<and> last_read es1 = Some c))"

lemma reads_newest_Nil [simp]: "reads_newest []"
  by (simp add: reads_newest_def)

lemma reads_newest_snoc [simp]:
  "reads_newest (es @ [e]) \<longleftrightarrow> reads_newest es \<and>
     (\<forall>s. e = Read_storage s \<longrightarrow> (\<exists>c. last_written es = (Some c, Some s) \<and> last_read es = Some c))"
proof
  assume r: "reads_newest (es @ [e])"
  have "\<exists>c. last_written es1 = (Some c, Some s) \<and> last_read es1 = Some c" if "es = es1 @ Read_storage s # es2" for es1 s es2
  proof -
    have "es @ [e] = es1 @ Read_storage s # (es2 @ [e])" using that by simp
    then show ?thesis using r unfolding reads_newest_def by blast
  qed
  moreover have "\<exists>c. last_written es = (Some c, Some s) \<and> last_read es = Some c" if "e = Read_storage s" for s
  proof -
    have "es @ [e] = es @ Read_storage s # []" using that by simp
    then show ?thesis using r unfolding reads_newest_def by blast
  qed
  ultimately show "reads_newest es \<and> (\<forall>s. e = Read_storage s \<longrightarrow> (\<exists>c. last_written es = (Some c, Some s) \<and> last_read es = Some c))"
    unfolding reads_newest_def by simp
next
  assume r: "reads_newest es \<and> (\<forall>s. e = Read_storage s \<longrightarrow> (\<exists>c. last_written es = (Some c, Some s) \<and> last_read es = Some c))"
  have "\<exists>c. last_written es1 = (Some c, Some s) \<and> last_read es1 = Some c" if "es @ [e] = es1 @ Read_storage s # es2" for es1 s es2
  proof (cases es2 rule: rev_cases)
    case Nil
    then show ?thesis using r that by simp
  next
    case (snoc es3 e')
    then have "es = es1 @ Read_storage s # es3" using that by simp
    then show ?thesis using r unfolding reads_newest_def by blast
  qed
  then show "reads_newest (es @ [e])" unfolding reads_newest_def by simp
qed

lemma reads_newest_calls [simp]: "reads_newest (es @ map Race_call cs) = reads_newest es"
proof (induction cs rule: rev_induct)
  case (snoc c cs)
  then show ?case using reads_newest_snoc [of "es @ map Race_call cs" "Race_call c"] by simp
qed simp

text \<open>The invariant: what the partition holds is what was written last, at every program point of either function.\<close>

definition holds_last :: "nat \<Rightarrow> nat \<Rightarrow> race_event list \<Rightarrow> byte list \<Rightarrow> bool" where
  "holds_last lc ls es bs \<longleftrightarrow> (\<forall>c s. log_content lc ls bs = Some (c, s) \<longrightarrow> last_written es = (Some c, Some s))"

fun persist_point :: "nat \<Rightarrow> nat \<Rightarrow> nat \<Rightarrow> race_event list \<Rightarrow> byte list \<Rightarrow> log_persist_pc \<Rightarrow> bool" where
  "persist_point n lc ls es bs (LP_erase lc' ls') = (lc' = lc \<and> ls' = ls \<and> 16 + lc + ls \<le> n)"
| "persist_point n lc ls es bs (LP_context lc' ls') =
     (lc' = lc \<and> ls' = ls \<and> 16 + lc + ls \<le> n \<and> bs = replicate n erased_byte)"
| "persist_point n lc ls es bs (LP_storage lc' ls') =
     (lc' = lc \<and> ls' = ls \<and> 16 + lc + ls \<le> n \<and>
      (\<exists>c. length c = lc \<and> bs = splice 16 c (replicate n erased_byte) \<and> last_written es = (Some c, None)))"
| "persist_point n lc ls es bs (LP_header lc' ls') =
     (lc' = lc \<and> ls' = ls \<and> header_erased bs \<and>
      (\<exists>c s. length c = lc \<and> length s = ls \<and> payload_in c s bs \<and> last_written es = (Some c, Some s)))"
| "persist_point n lc ls es bs _ = True"

fun restore_point :: "nat \<Rightarrow> nat \<Rightarrow> race_event list \<Rightarrow> byte list \<Rightarrow> log_restore_pc \<Rightarrow> bool" where
  "restore_point lc ls es bs (LR_context m) = (m = of_nat lc \<and> log_content lc ls bs \<noteq> None)"
| "restore_point lc ls es bs (LR_storage m) =
     (m = of_nat lc \<and> (\<exists>c s. log_content lc ls bs = Some (c, s) \<and> last_read es = Some c))"
| "restore_point lc ls es bs _ = True"

definition life_inv :: "('f \<Rightarrow> byte list) \<Rightarrow> 'f flash_area \<Rightarrow> nat \<Rightarrow> nat \<Rightarrow> race_event list \<Rightarrow> 'f race \<Rightarrow> bool" where
  "life_inv img fa lc ls es x \<longleftrightarrow> log_shape lc ls (rc_live x) \<and> holds_last lc ls es (img (rc_flash x)) \<and> reads_newest es \<and>
     persist_point (unat (fa_size fa)) lc ls es (img (rc_flash x)) (rc_persist x) \<and>
     restore_point lc ls es (img (rc_flash x)) (rc_restore x) \<and> (persist_done (rc_persist x) \<or> restore_done (rc_restore x))"

lemma header_erased_empty: "header_erased bs \<Longrightarrow> log_content lc ls bs = None"
  by (simp add: header_erased_def log_content_def log_stored_erased)

lemma payload_in_content:
  assumes "payload_in c s bs" "length c = lc" "length s = ls"
  shows "log_content lc ls bs = None \<or> log_content lc ls bs = Some (c, s)"
  using assms by (auto simp: payload_in_def log_content_def log_stored_def Let_def)

lemma content_after_erase:
  assumes "flash_ok img fa" "flash_progressive img fa" "fa_erase fa 0 (fa_size fa) f = (e, f')"
  shows "log_content lc ls (img f') = log_content lc ls (img f) \<or> log_content lc ls (img f') = None"
  using flash_progressive_erase [OF assms] log_stored_first_byte unfolding log_content_def by metis

text \<open>A step of the persist.\<close>

lemma life_persist_step:
  assumes ok: "flash_ok img fa" and pr: "flash_progressive img fa" and sz: "log_sizes lc ls"
    and sh: "log_shape lc ls live" and h: "holds_last lc ls es (img f)"
    and pp: "persist_point (unat (fa_size fa)) lc ls es (img f) p"
    and step: "log_persist_step fa live p f = (p', f', new)"
  shows "holds_last lc ls (es @ new) (img f') \<and> persist_point (unat (fa_size fa)) lc ls (es @ new) (img f') p' \<and>
    (reads_newest es \<longrightarrow> reads_newest (es @ new)) \<and> (persist_done p \<longrightarrow> persist_done p' \<and> img f' = img f \<and> new = [])"
proof -
  let ?n = "unat (fa_size fa)"
  obtain c0 s0 where live: "live = log_live (c0, s0)" "length c0 = lc" "length s0 = ls" using sh by (auto simp: log_shape_def)
  have off: "unat (16 + of_nat lc :: u32) = 16 + lc" using sz by (intro unat_hdr_plus) (simp add: log_sizes_def)
  note close = flash_ok_close [OF ok]
  show ?thesis
  proof (cases p)
    case LP_start
    obtain e f1 where o: "fa_open fa f = (e, f1)" by (cases "fa_open fa f")
    have "unat (16 + of_nat lc + of_nat ls :: u32) = 16 + lc + ls"
      using log_total_len [of c0 s0] sz live by (simp add: log_sizes_def)
    then show ?thesis using LP_start step o live flash_ok_open [OF ok o] close h
      by (auto simp: log_live_def not_less word_le_nat_alt split: if_splits)
  next
    case (LP_erase lc' ls')
    obtain e f1 where er: "fa_erase fa 0 (fa_size fa) f = (e, f1)" by (cases "fa_erase fa 0 (fa_size fa) f")
    have "holds_last lc ls es (img f1)" using content_after_erase [OF ok pr er, of lc ls] h by (auto simp: holds_last_def)
    moreover have "img f1 = replicate ?n erased_byte" if "e = 0" using flash_ok_erase_all [OF ok] er that by simp
    ultimately show ?thesis using LP_erase step er pp close by (cases "e = 0") auto
  next
    case (LP_context lc' ls')
    then have p: "lc' = lc" "ls' = ls" "16 + lc + ls \<le> ?n" "img f = replicate ?n erased_byte" using pp by simp_all
    obtain e f1 where w: "fa_write fa 16 c0 f = (e, f1)" by (cases "fa_write fa 16 c0 f")
    have "header_erased (img f1)" using flash_ok_write(1) [OF ok w] p by (simp add: header_erased_def)
    then have k: "holds_last lc ls es' (img f1)" for es' by (simp add: holds_last_def header_erased_empty)
    have "img f1 = splice 16 c0 (replicate ?n erased_byte)" if "e = 0"
      using flash_ok_write_erased [OF ok, of 16 c0 f f1] w that p live by simp
    then show ?thesis using LP_context step w live p close k by (cases "e = 0") (auto simp: log_live_def)
  next
    case (LP_storage lc' ls')
    then obtain c where p: "lc' = lc" "ls' = ls" "16 + lc + ls \<le> ?n" "length c = lc"
      "img f = splice 16 c (replicate ?n erased_byte)" "last_written es = (Some c, None)" using pp by auto
    obtain e f1 where w: "fa_write fa (16 + of_nat lc) s0 f = (e, f1)" by (cases "fa_write fa (16 + of_nat lc) s0 f")
    have "take 16 (img f1) = take 16 (take (16 + lc) (img f1))" by simp
    also have "\<dots> = replicate 16 erased_byte" using flash_ok_write(1) [OF ok w] off p by (simp add: take_splice_before)
    finally have er: "header_erased (img f1)" by (simp add: header_erased_def)
    then have k: "holds_last lc ls es' (img f1)" for es' by (simp add: holds_last_def header_erased_empty)
    have "payload_in c s0 (img f1)" if "e = 0"
    proof -
      have "img f1 = splice (16 + lc) s0 (splice 16 c (replicate ?n erased_byte))"
        using flash_ok_write_erased [OF ok, of "16 + of_nat lc" s0 f f1] w that off p live by (simp add: drop_splice_after)
      then show ?thesis using p live by (simp add: payload_in_def splice_def)
    qed
    then show ?thesis using LP_storage step w live p close k er by (cases "e = 0") (auto simp: log_live_def)
  next
    case (LP_header lc' ls')
    then obtain c s where p: "lc' = lc" "ls' = ls" "length c = lc" "length s = ls" "payload_in c s (img f)"
      "last_written es = (Some c, Some s)" using pp by auto
    let ?h = "log_hdr_bytes \<lparr>lh_magic = LOG_STATE_MAGIC, lh_version = LOG_STATE_VER, lh_reserved = 0,
      lh_context_len = of_nat lc, lh_storage_len = of_nat ls\<rparr>"
    obtain e f1 where w: "fa_write fa 0 ?h f = (e, f1)" by (cases "fa_write fa 0 ?h f")
    have "drop 16 (img f1) = drop 16 (img f)" using flash_ok_write(2) [OF ok w] by simp
    then have "drop (16 + k) (img f1) = drop (16 + k) (img f)" for k by (metis add.commute drop_drop)
    from this [of 0] this have "payload_in c s (img f1)" using p by (simp add: payload_in_def)
    from payload_in_content [OF this p(3,4)] have "holds_last lc ls es (img f1)" using p(6) by (auto simp: holds_last_def)
    then show ?thesis using LP_header step w p close by auto
  qed (use step h pp in auto)
qed

text \<open>A step of the restore.\<close>

lemma content_lengths: "log_content lc ls bs = Some (c, s) \<Longrightarrow>
    c = take lc (drop 16 bs) \<and> s = take ls (drop (16 + lc) bs) \<and> 16 + lc + ls \<le> length bs"
  by (auto simp: log_content_def log_stored_def Let_def split: if_splits)

lemma life_restore_step:
  assumes ok: "flash_ok img fa" and pr: "flash_progressive img fa" and sz: "log_sizes lc ls" "16 + lc + ls \<le> unat (fa_size fa)"
    and sh: "log_shape lc ls live" and h: "holds_last lc ls es (img f)" and rn: "reads_newest es"
    and rp: "restore_point lc ls es (img f) r"
    and step: "log_restore_step fa live r f = (r', live', f', new)"
  shows "holds_last lc ls (es @ new) (img f') \<and> restore_point lc ls (es @ new) (img f') r' \<and> reads_newest (es @ new) \<and>
    (restore_done r \<longrightarrow> restore_done r' \<and> img f' = img f \<and> new = [])"
proof -
  obtain c0 s0 where live: "live = log_live (c0, s0)" "length c0 = lc" "length s0 = ls" using sh by (auto simp: log_shape_def)
  have off: "unat (16 + of_nat lc :: u32) = 16 + lc" using sz by (intro unat_hdr_plus) (simp add: log_sizes_def)
  note close = flash_ok_close [OF ok]
  have er: "holds_last lc ls es (img (snd (fa_erase fa 0 (fa_size fa) f)))"
  proof -
    obtain e f2 where "fa_erase fa 0 (fa_size fa) f = (e, f2)" by (cases "fa_erase fa 0 (fa_size fa) f")
    then show ?thesis using content_after_erase [OF ok pr, of f e f2 lc ls] h by (auto simp: holds_last_def)
  qed
  show ?thesis
  proof (cases r)
    case LR_start
    then show ?thesis using step flash_ok_open [OF ok] h rn by (auto split: prod.splits if_splits)
  next
    case LR_header
    obtain e hb f1 where rd: "fa_read fa 0 (replicate 16 0) f = (e, hb, f1)" by (cases "fa_read fa 0 (replicate 16 0) f")
    note rd_ok = flash_ok_read [OF ok rd]
    have "log_content lc ls (img f) \<noteq> None"
      if "e = 0" "log_hdr_valid (log_hdr_of_bytes hb)" "lh_context_len (log_hdr_of_bytes hb) = of_nat lc"
        "lh_storage_len (log_hdr_of_bytes hb) = of_nat ls"
      using that sz(2) rd_ok(4) flash_ok_length [OF ok, of f] by (simp add: log_content_def log_stored_def Let_def)
    then show ?thesis using LR_header step rd live rd_ok(1) close h rn
      by (auto simp: Let_def log_live_def split: if_splits)
  next
    case (LR_discard e)
    then show ?thesis using step er close rn by auto
  next
    case (LR_context m)
    then obtain c s where p: "m = of_nat lc" "log_content lc ls (img f) = Some (c, s)" using rp by auto
    obtain e ctx f1 where rd: "fa_read fa 16 c0 f = (e, ctx, f1)" by (cases "fa_read fa 16 c0 f")
    have "ctx = c" if "e = 0" using flash_ok_read(4) [OF ok rd that] live content_lengths [OF p(2)] by simp
    then show ?thesis using LR_context step rd live p flash_ok_read(1) [OF ok rd] h rn
      by (cases "e = 0") (auto simp: log_live_def holds_last_def)
  next
    case (LR_storage m)
    then obtain c s where p: "m = of_nat lc" "log_content lc ls (img f) = Some (c, s)" "last_read es = Some c" using rp by auto
    obtain e sto f1 where rd: "fa_read fa (16 + of_nat lc) s0 f = (e, sto, f1)" by (cases "fa_read fa (16 + of_nat lc) s0 f")
    have "sto = s" if "e = 0" using flash_ok_read(4) [OF ok rd that] off live content_lengths [OF p(2)] by simp
    moreover have "last_written es = (Some c, Some s)" using h p by (simp add: holds_last_def)
    ultimately show ?thesis using LR_storage step rd live p flash_ok_read(1) [OF ok rd] h rn
      by (cases "e = 0") (auto simp: log_live_def holds_last_def)
  next
    case (LR_erase e)
    then show ?thesis using step er close rn by (auto simp: holds_last_def simp del: list.map)
  qed (use step h rn in auto)
qed

text \<open>Any history.\<close>

lemma life_inv_step:
  assumes ok: "flash_ok img fa" and pr: "flash_progressive img fa" and sz: "log_sizes lc ls" "16 + lc + ls \<le> unat (fa_size fa)"
    and inv: "life_inv img fa lc ls es x" and al: "life_allowed lc ls i x" and step: "life_step fa i x = (y, new)"
  shows "life_inv img fa lc ls (es @ new) y"
proof (cases i)
  case (Life_call j)
  show ?thesis
  proof (cases j)
    case Race_persist
    obtain p f ns where st: "log_persist_step fa (rc_live x) (rc_persist x) (rc_flash x) = (p, f, ns)"
      by (cases "log_persist_step fa (rc_live x) (rc_persist x) (rc_flash x)")
    have a: "log_shape lc ls (rc_live x)" "holds_last lc ls es (img (rc_flash x))"
      "persist_point (unat (fa_size fa)) lc ls es (img (rc_flash x)) (rc_persist x)" "reads_newest es"
      using inv by (simp_all add: life_inv_def)
    have "holds_last lc ls (es @ ns) (img f) \<and> persist_point (unat (fa_size fa)) lc ls (es @ ns) (img f) p \<and>
        reads_newest (es @ ns) \<and> (persist_done (rc_persist x) \<longrightarrow> persist_done p \<and> img f = img (rc_flash x) \<and> ns = [])"
      using life_persist_step [OF ok pr sz(1) a(1-3) st] a(4) by blast
    moreover have "restore_point lc ls (es @ ns) (img f) (rc_restore x)"
      using inv calculation by (cases "rc_restore x") (auto simp: life_inv_def)
    ultimately show ?thesis using Life_call Race_persist st step inv by (auto simp: life_inv_def)
  next
    case Race_restore
    obtain r live f ns where st: "log_restore_step fa (rc_live x) (rc_restore x) (rc_flash x) = (r, live, f, ns)"
      by (cases "log_restore_step fa (rc_live x) (rc_restore x) (rc_flash x)")
    have a: "log_shape lc ls (rc_live x)" "holds_last lc ls es (img (rc_flash x))" "reads_newest es"
      "restore_point lc ls es (img (rc_flash x)) (rc_restore x)"
      using inv by (simp_all add: life_inv_def)
    have "holds_last lc ls (es @ ns) (img f) \<and> restore_point lc ls (es @ ns) (img f) r \<and> reads_newest (es @ ns) \<and>
        (restore_done (rc_restore x) \<longrightarrow> restore_done r \<and> img f = img (rc_flash x) \<and> ns = [])"
      using life_restore_step [OF ok pr sz a st] .
    moreover have "persist_point (unat (fa_size fa)) lc ls (es @ ns) (img f) (rc_persist x)"
      using inv calculation by (cases "rc_persist x") (auto simp: life_inv_def)
    moreover have "log_shape lc ls live" using log_restore_step_shape [OF ok _ st] inv by (simp add: life_inv_def)
    ultimately show ?thesis using Life_call Race_restore st step inv by (auto simp: life_inv_def)
  next
    case (Race_log c s)
    then show ?thesis using Life_call step inv al by (auto simp: life_inv_def)
  qed
next
  case Life_persist
  then show ?thesis using step inv al by (auto simp: life_inv_def both_done_def)
next
  case Life_restore
  then show ?thesis using step inv al by (auto simp: life_inv_def both_done_def)
next
  case (Life_power c s)
  then show ?thesis using step inv al by (auto simp: life_inv_def)
qed

lemma life_inv_run:
  assumes "flash_ok img fa" "flash_progressive img fa" "log_sizes lc ls" "16 + lc + ls \<le> unat (fa_size fa)"
  shows "life_inv img fa lc ls es0 x \<Longrightarrow> no_overlap fa lc ls is x \<Longrightarrow> run_machine (life_step fa) is x = (y, es) \<Longrightarrow>
    life_inv img fa lc ls (es0 @ es) y"
proof (induction "is" arbitrary: x es0 es)
  case (Cons i js)
  obtain x1 es1 where st: "life_step fa i x = (x1, es1)" by (cases "life_step fa i x")
  obtain es2 where run: "run_machine (life_step fa) js x1 = (y, es2)" "es = es1 @ es2"
    using Cons.prems(3) st by (auto simp: run_machine.simps split: prod.splits)
  have "life_inv img fa lc ls (es0 @ es1) x1" using life_inv_step [OF assms Cons.prems(1) _ st] Cons.prems(2) by simp
  from Cons.IH [OF this _ run(1)] show ?case using Cons.prems(2) st run(2) by simp
qed simp

subsection \<open>Properties\<close>

text \<open>
  C8: over any number of persists and restores that do not overlap, taken one call of the flash driver at a time, with the
  live log written between any two calls, the flash failing within any of them and the power cut at any
  point: what a restore reads is what was written last. When it has read the storage part, the last context and the last
  storage written to the partition are exactly the two parts it delivers, and they come from one persist; it is never
  an older snapshot, the parts of two persists, or a part of one that was cut short. The same holds of what the partition
  keeps for the next connect.
\<close>

theorem log_restores_newest:
  assumes "flash_ok img fa" and "flash_progressive img fa" and "log_sizes lc ls" and "16 + lc + ls \<le> unat (fa_size fa)"
    and "both_done x" and "log_shape lc ls (rc_live x)" and "log_content lc ls (img (rc_flash x)) = None"
    and "no_overlap fa lc ls is x" and "run_machine (life_step fa) is x = (y, es)"
  shows "(\<forall>es1 s es2. es = es1 @ Read_storage s # es2 \<longrightarrow>
      (\<exists>c. last_written es1 = (Some c, Some s) \<and> last_read es1 = Some c)) \<and>
    (\<forall>c s. log_content lc ls (img (rc_flash y)) = Some (c, s) \<longrightarrow> last_written es = (Some c, Some s))"
proof -
  have "persist_point n lc ls [] bs (rc_persist x)" "restore_point lc ls [] bs (rc_restore x)" for n bs
    using assms(5) by (cases "rc_persist x"; simp add: both_done_def) (use assms(5) in \<open>cases "rc_restore x"; simp add: both_done_def\<close>)
  then have "life_inv img fa lc ls [] x" using assms(5-7) by (simp add: life_inv_def holds_last_def both_done_def)
  from life_inv_run [OF assms(1-4) this assms(8,9)] show ?thesis by (simp add: life_inv_def holds_last_def reads_newest_def)
qed

text \<open>A persist, a loss of power, a restore; the log is written while the partition is erased.\<close>

theorem log_restores_newest_witness:
  "\<exists>y es es1 es2. run_machine (life_step (ram_flash 64))
       ([Life_persist, Life_call Race_persist, Life_call (Race_log [7] [8])] @ replicate 4 (Life_call Race_persist) @
        [Life_power [0] [0], Life_restore] @ replicate 5 (Life_call Race_restore))
       \<lparr>rc_live = log_live ([1], [2]), rc_flash = replicate 64 erased_byte, rc_persist = LP_done 0, rc_restore = LR_done 0\<rparr> = (y, es) \<and>
     es = es1 @ Read_storage [8] # es2 \<and> last_written es1 = (Some [7], Some [8]) \<and> last_read es1 = Some [7]"
proof -
  let ?is = "[Life_persist, Life_call Race_persist, Life_call (Race_log [7] [8])] @ replicate 4 (Life_call Race_persist) @
    [Life_power [0] [0], Life_restore] @ replicate 5 (Life_call Race_restore)"
  let ?x = "\<lparr>rc_live = log_live ([1], [2]), rc_flash = replicate 64 erased_byte, rc_persist = LP_done 0, rc_restore = LR_done 0\<rparr>"
  have c: "no_overlap (ram_flash 64) 1 1 ?is ?x \<and> snd (run_machine (life_step (ram_flash 64)) ?is ?x) =
      [Wrote_context [7], Wrote_storage [8], Read_context [7]] @ Read_storage [8] #
      [Race_call Memfault_log_data_source_reset, Race_call Log_restore_marker, Race_call Log_flush]" by code_simp
  have z: "ram_image 64 (rc_flash ?x) = replicate 64 erased_byte" by (simp add: ram_image_def)
  have h: "log_sizes 1 1" "16 + 1 + 1 \<le> unat (fa_size (ram_flash 64))" "both_done ?x" "log_shape 1 1 (rc_live ?x)"
    "log_content 1 1 (ram_image 64 (rc_flash ?x)) = None"
    unfolding z by (simp_all add: log_sizes_def ram_flash_def both_done_def header_erased_empty header_erased_def)
  obtain y es where run: "run_machine (life_step (ram_flash 64)) ?is ?x = (y, es)" by (metis prod.collapse)
  have es: "es = [Wrote_context [7], Wrote_storage [8], Read_context [7]] @ Read_storage [8] #
      [Race_call Memfault_log_data_source_reset, Race_call Log_restore_marker, Race_call Log_flush]"
    using conjunct2 [OF c] unfolding run snd_conv .
  note p = log_restores_newest [OF ram_flash_ok ram_flash_progressive h conjunct1 [OF c] run, THEN conjunct1, rule_format, OF es]
  from p have "last_written [Wrote_context [7], Wrote_storage [8], Read_context [7]] = (Some [7], Some [8]) \<and>
      last_read [Wrote_context [7], Wrote_storage [8], Read_context [7]] = Some [7]"
    by (simp add: last_written_def last_read_def)
  then show ?thesis using run es by blast
qed

end
