(* ===== verification/Spec2Isabelle.thy ===== *)
theory Spec2Isabelle
  imports Board_Config Stats_Parser Thread_Pacing Snapshot_Life
begin

text \<open>
  A verification library for the application code of nordic-wifi-memfault, a firmware for Nordic
  Wi-Fi boards (nRF7002DK, nRF54LM20DK) that keeps a device connected, uploads its logs, metrics and
  crash data to Memfault and runs HTTPS and MQTT self-tests, and for the host script that decodes the Wi-Fi
  firmware statistics it uploads. Paths are relative to \<^verbatim>\<open>src/src\<close> unless they start with \<^verbatim>\<open>src/\<close>.

  \<^bold>\<open>The program.\<close> The modules under \<^verbatim>\<open>modules/\<close> do not call each other directly (with a few exceptions
  named below): they exchange messages over zbus channels and each keeps its state in file-scope
  variables, with a thread of its own where it blocks. Driver events enter through
  \<^verbatim>\<open>network/net_event_mgmt.c\<close>, which publishes them on \<^verbatim>\<open>WIFI_CHAN\<close> and \<^verbatim>\<open>NETWORK_CHAN\<close>; the HTTPS client,
  the MQTT client, the OTA triggers and the Memfault core listen. The core calls the log-state and
  CDR modules, which persist to two flash partitions after a connection loss and restore from them
  at the next connect.

  \<^bold>\<open>Theories and what they model.\<close>
  \<^item> \<open>Nwm_Prelude\<close>: machine integers, error numbers, little-endian images, the C string functions.
  \<^item> \<open>Zbus_Messages\<close>: the messages (\<^verbatim>\<open>modules/messages.h\<close>), runs of a listener over a message sequence,
    and two interfaces as locales: \<open>wifi_client\<close> (what a client of the Wi-Fi channel promises) and
    \<open>metered_machine\<close> (counters mirrored in metrics).
  \<^item> \<open>Mqtt_Client\<close>: \<^verbatim>\<open>app_mqtt_client/app_mqtt_client.c\<close>, whole file: callbacks, connect, publish, the
    thread as a machine over program points, interleaved with callbacks and messages.
  \<^item> \<open>Https_Request\<close> and \<open>Https_Client\<close>: \<^verbatim>\<open>app_https_client/app_https_client.c\<close>: one request with its transfer
    loops and clean-up, and the thread and listeners around it.
  \<^item> \<open>Flash_Area\<close>: the flash driver as a parameter with its documented behaviour, also when an operation fails
    halfway, and the locales \<open>one_shot_store\<close>, the contract of a partition that is written once and read once, and
    \<open>crash_safe_store\<close>, what such a partition holds after an interrupted operation.
  \<^item> \<open>Log_State\<close>: \<^verbatim>\<open>app_memfault/core/app_memfault_log_state_restore.c\<close>; \<open>Cdr_Stats\<close>:
    \<^verbatim>\<open>app_memfault/cdr/app_memfault_nrf70_fw_stats_cdr.c\<close>. Both implement
    \<open>crash_safe_store\<close>.
  \<^item> \<open>Coredump_Storage\<close> and \<open>Platform_Time\<close>: the other two files of \<^verbatim>\<open>app_memfault/core\<close> that stand alone.
  \<^item> \<open>Memfault_Core\<close>: \<^verbatim>\<open>app_memfault/core/app_memfault_core.c\<close>: delayed persist, upload thread, listeners.
  \<^item> \<open>Snapshot_Box\<close>: the abstract specification of the two snapshot partitions, a box for one snapshot
    (\<open>mailbox\<close> on a flash that works, \<open>box_step\<close> on one that fails anywhere), the locale \<open>boxed_machine\<close> for a machine
    that uses a box, and the proof that the log and the CDR functions implement it.
  \<^item> \<open>Snapshot_Race\<close>: the persist and the restore of the log one call of the flash driver at a time
    (\<open>log_persist_step\<close>, \<open>log_restore_step\<close>), interleaved with each other and with writes to the live log.
  \<^item> \<open>Snapshot_Life\<close>: the same steps over many persists and restores that do not overlap, with power cuts.
  \<^item> \<open>Ota_Triggers\<close>: \<^verbatim>\<open>app_memfault/ota/app_memfault_ota_triggers.c\<close>, over a kernel semaphore that is a
    parameter.
  \<^item> \<open>Wifi_Metrics\<close>, \<open>Memonitor_Metrics\<close>: the two files of \<^verbatim>\<open>app_memfault/metrics\<close>, the second with the keys
    of \<^verbatim>\<open>app_memfault/config/memfault_metrics_heartbeat_config.def\<close>.
  \<^item> \<open>Net_Events\<close>: \<^verbatim>\<open>network/net_event_mgmt.c\<close>, \<^verbatim>\<open>ux/ux.c\<close> and \<^verbatim>\<open>main.c\<close>. How each publication ends
    (\<open>pub_result\<close>: the listeners ran or not, with which error) is an input of the two hooks.
  \<^item> \<open>Thread_Progress\<close>: what the threads get done. \<open>progress_machine\<close> (a rank that every transition of
    the thread lowers until it acts, and that nothing else raises) and its extension \<open>recurring_machine\<close>
    (it acts again and again) are the interfaces; the four threads implement them.
  \<^item> \<open>Firmware\<close>: the whole application as one machine over driver events, buttons, thread transitions,
    callbacks, delayed work, SDK calls, heartbeats and monitor samples, with the zbus fan-out (a publication may fail and then reach no
    listener) and the upload semaphore. \<open>machine_view\<close> says that a part runs inside a bigger machine as it does alone, \<open>wifi_module\<close> is a
    listener of the Wi-Fi channel, \<open>commuting_machine\<close> a set of listeners whose order does not matter.
    The Memfault core, the CDR module and the upload semaphore run inside it as the machine \<open>core_unit\<close>.
  \<^item> \<open>Thread_Pacing\<close>: how often the threads act: \<open>paced_machine\<close> (no two actions without the pause between them)
    and \<open>paced_view\<close>, which carries it from a part to the application.
  \<^item> \<open>Firmware_Sessions\<close>: the life of a device: power-on through the \<^verbatim>\<open>SYS_INIT\<close> functions of the modules, runs
    of the application, log lines of the SDK, loss of power; both partitions over a whole life in which the persist
    and the restore, one transition each, do not overlap.
  \<^item> \<open>Firmware_Metrics\<close>: the types that \<^verbatim>\<open>memfault_metrics_heartbeat_config.def\<close> declares, against every metric
    update of the application; \<open>sdk_wifi_metrics\<close> lists what the ten Wi-Fi keys must be that the SDK declares.
  \<^item> \<open>Board_Config\<close>: the flash layout of the two board overlays, the Kconfig symbols of the modules with an
    evaluator (\<open>kconfig\<close>), and the assignments of \<^verbatim>\<open>src/prj.conf\<close> and the board files.
  \<^item> \<open>Stats_Parser\<close>: \<^verbatim>\<open>src/script/nrf70_fw_stats_parser.py\<close>, whole script: the reader of C headers (with what it
    uses of Python's strings and of \<^verbatim>\<open>re\<close>), the decoder (with \<^verbatim>\<open>struct\<close>), the command line.

  \<^bold>\<open>How state and calls are represented.\<close> A module's file-scope variables are a record; a function
  returns the new record and the calls it makes to code outside the application, in order. What that
  code answers is an argument: a record of results, or, for the flash driver and the semaphore, a
  record of operations with a predicate (\<open>flash_ok\<close>, \<open>ksem_ok\<close>) that states their documentation and a
  concrete instance that satisfies it. Threads are machines with one transition per loop head or
  blocking call, so that listeners run between any two of them; what is proved of reachable states
  holds for every interleaving. Kconfig options are records of switches;
  \<open>shipped_cfg\<close> is their value on the boards.

  \<^bold>\<open>What is shown.\<close> The application as a whole: under every interleaving the invariants of all modules
  hold together; core and MQTT client see the link as the last message that got through on the Wi-Fi channel left it, and
  as the driver reported it when no publication was lost; Memfault hears of exactly the events whose publication got through, and
  each failed one leaves its warning; nothing goes out and no snapshot is touched before the first address; every metric
  update, the fourteen Wi-Fi metrics included, is of the declared type and the client counters reach Memfault unaltered. Loss and recovery: one
  persist per loss, all-or-nothing writes, exact restore of log and statistics across a power cycle, once.
  Wherever the flash fails or the power is cut, as long as persist and restore do not run at the same time, what is
  restored was persisted whole and is not older than the last persist that succeeded, shown both for whole lives of the
  application and, at single calls of the flash driver, for the log partition; what a device held when it lost its connection is back for upload soon
  after the next one. Powering on reaches one state whatever the linker does, and the shipped configuration of both boards meets what this assumes. And
  end to end, the statistics a device reported before it lost power are what the script prints, field by
  field. HTTPS: a request always returns when the network makes progress, sends exactly the request over
  a socket with verified TLS, never exceeds its buffer, releases what it acquired; counters and verdicts
  agree over every run. MQTT: publishing only in an established session, echo accounting, back-off, bounds
  of every buffer. Progress: with the link up the HTTPS thread keeps testing, an established MQTT session
  publishes, a connection is used for an upload even when the name server never answers, an OTA trigger is
  served, each within a stated number of transitions. Rates: no run makes the clients connect, publish or upload
  more often than their intervals allow. Interleaved flash calls: a restore that overlaps a persist after its
  erase delivers what that persist wrote or nothing, and on a flash that works the snapshot is delivered or kept; an overlap before that can deliver erased or mixed bytes, which
  concrete runs show (the code has no lock there). OTA: no trigger lost, none multiplied. Coredump
  storage: exact bounds and erase ranges. Metrics: changes counted exactly. The script: headers are read back
  field by field, decoding inverts packing, it never reads past the blob, bad input is refused. Where the
  code departs from its comments or its intent, a theorem shows it on a concrete run.

  \<^bold>\<open>Bounds and partiality.\<close> The two transfer loops of a request and the page-erase loop have no bound of
  their own: they are partial functions, \<open>None\<close> when they do not return, and are shown to return under
  stated conditions. \<open>cdr_drain\<close>, the reader used to state the CDR round trip, takes fuel: 1024 calls
  are enough because a call delivers at least one of at most 1024 bytes. The progress theorems count
  transitions of a thread: 102 for the HTTPS thread, 103 for the MQTT thread and 95 for the upload thread
  cover the 30 rounds of the wait for the name server (95 again for the restore after
  a reconnect). Counters and sizes are 32-bit words and wrap.

  \<^bold>\<open>Not modelled.\<close> Log lines other than test verdicts and the status line; the Memfault SDK, Zephyr, the
  MQTT helper and the zego bricks, which are parameters; the text Python prints for a floating-point number
  and the script's debug log, except its byte count analysis; of the configuration the tuning of SDK
  libraries, log levels, sysbuild and build files; certificates, documentation. Of the C files only
  includes, prototypes and log registrations have no counterpart.
\<close>

subsection \<open>Properties\<close>

text \<open>
  C17: from the driver's memory to the engineer's screen. The statistics that the Wi-Fi firmware reports when
  the persist runs, written with the field layout of a header, survive the loss of power: once restored and
  read out by the SDK in pieces of any size, then dumped as hexadecimal text (with or without \<^verbatim>\<open>0x\<close>, with any
  white space between the bytes), the parser given that header prints every field of every section with
  the value it had on the device, however full the partition was and whatever the module held before.
\<close>

theorem stats_device_to_desk:
  assumes "flash_ok img fa" and "flash_reliable fa" and "cdr_inv s" and "cdr_inv t" and "0 < c" and "c < 2 ^ 32"
    and "rpu_ctx_present env" and "fmac_stats_success env"
    and "sections_ok (parse_header content) vals stats_sections"
    and "fmac_stats_fw env = sections_image (parse_header content) vals stats_sections @ padding"
    and "fmac_stats_fw env \<noteq> []" and "length (sections_image (parse_header content) vals stats_sections) \<le> 1024"
    and "length (fmac_stats_fw env) < 2 ^ 32" and "16 + length (take 1024 (fmac_stats_fw env)) \<le> unat (fa_size fa)"
    and "mflt_nrf70_fw_stats_cdr_persist_to_flash fa env s f = (err, s1, cs, f1)"
    and "mflt_nrf70_fw_stats_cdr_restore_from_flash fa t f1 = (err', t1, f2)"
    and "set sep \<subseteq> {CHR '' '', CHR 0x0A}" and "pre = [] \<or> pre = ''0x''"
  shows "parser_main fr (Some content) (Blob_text (hex_dump pre sep (cdr_drain 1024 c 0 t1))) =
    Parsed (sections_text fr (parse_header content) vals stats_sections)
      (length (sections_image (parse_header content) vals stats_sections))"
proof -
  let ?img = "sections_image (parse_header content) vals stats_sections"
  have p: "mflt_nrf70_fw_stats_cdr_persist_to_flash fa env s f = (0, s1, cs, f1)"
    using cdr_persist_reliable [OF assms(2,3,7,8,11,13,14), of f] assms(15) by simp
  have "cdr_drain 1024 c 0 t1 = take 1024 (fmac_stats_fw env)"
    using cdr_persist_then_restore [OF assms(1-6,13) p assms(16)] by blast
  also have "\<dots> = ?img @ take (1024 - length ?img) padding" using assms(10,12) by simp
  finally have d: "cdr_drain 1024 c 0 t1 = ?img @ take (1024 - length ?img) padding" .
  show ?thesis unfolding d
    using clean_hex_dump [OF assms(17,18)] fromhex_dump fold_sections_packed [OF assms(9), of fr "[]" _ "[]"]
    by (simp add: parser_main_def parse_rpu_sys_fw_stats_def)
qed

definition desk_decls :: "decl list" where
  "desk_decls = take 3 sample_decls @
     [('';'', ''umac_rx_dbg_params'', [Blank_line []]), ('';'', ''umac_cmd_evnt_dbg_params'', [Blank_line []]),
      ('';'', ''nrf_wifi_interface_stats'', [Blank_line []])]"

definition desk_header :: string where
  "desk_header = header_text (map decl_block desk_decls) '';''"

lemma desk_structs: "n \<in> fst ` set stats_sections \<Longrightarrow> parse_header desk_header n = sample_structs n"
proof -
  have ok: "list_all decl_ok desk_decls" by code_simp
  assume "n \<in> fst ` set stats_sections"
  then show ?thesis unfolding desk_header_def
    by (subst parse_header_decls [OF ok])
      (auto simp: stats_sections_def struct_patterns_def desk_decls_def sample_decls_def sample_structs_def List.map_filter_simps)
qed

lemmas desk_sections = sections_cong [of stats_sections, OF desk_structs]

theorem stats_device_to_desk_witness:
  "\<exists>lines n. parser_main (\<lambda>_. []) (Some desk_header) (Blob_text (hex_dump ''0x'' '' '' (cdr_drain 1024 4 0
     (fst (snd (mflt_nrf70_fw_stats_cdr_restore_from_flash (ram_flash 2048) cdr_boot_state
       (snd (snd (snd (mflt_nrf70_fw_stats_cdr_persist_to_flash (ram_flash 2048)
         \<lparr>rpu_ctx_present = True, fmac_stats_success = True,
          fmac_stats_fw = sections_image sample_structs sample_vals stats_sections @ [0, 0]\<rparr> cdr_boot_state []))))))))))
    = Parsed lines n \<and> take 4 lines = [''PHY stats'', ''======================'', ''rssi_avg: -42'', ''pdout_val: 200'']"
proof -
  let ?img = "sections_image sample_structs sample_vals stats_sections"
  let ?env = "\<lparr>rpu_ctx_present = True, fmac_stats_success = True, fmac_stats_fw = ?img @ [0, 0]\<rparr>"
  obtain err s1 cs f1 where p: "mflt_nrf70_fw_stats_cdr_persist_to_flash (ram_flash 2048) ?env cdr_boot_state [] = (err, s1, cs, f1)"
    by (metis prod.collapse)
  obtain err' t1 f2 where r: "mflt_nrf70_fw_stats_cdr_restore_from_flash (ram_flash 2048) cdr_boot_state f1 = (err', t1, f2)"
    by (metis prod.collapse)
  have i: "sections_ok (parse_header desk_header) sample_vals stats_sections" "fa_size (ram_flash 2048) = 2048"
    "fmac_stats_fw ?env = sections_image (parse_header desk_header) sample_vals stats_sections @ [0, 0]"
    using desk_sections sample_sections_ok by (simp_all add: ram_flash_def)
  have "parser_main (\<lambda>_. []) (Some desk_header) (Blob_text (hex_dump ''0x'' '' '' (cdr_drain 1024 4 0 t1))) =
      Parsed (sections_text (\<lambda>_. []) (parse_header desk_header) sample_vals stats_sections)
        (length (sections_image (parse_header desk_header) sample_vals stats_sections))"
    by (rule stats_device_to_desk [OF ram_flash_ok ram_flash_reliable cdr_boot_inv cdr_boot_inv _ _ _ _ i(1,3) _ _ _ _ p r])
      (simp_all add: desk_sections sample_image_length i(2))
  then show ?thesis using p r desk_sections arg_cong [OF sample_text, of "take 4"] by simp
qed

end
